(* ===== verification/Stow_Prelude.thy ===== *)
theory Stow_Prelude
  imports
    Main
    "HOL-Library.Word"
    "HOL-Library.Char_ord"
    "HOL-Library.List_Lexorder"
begin

text \<open>
  Shared vocabulary of the development: the machine types of the Rust sources, Rust's
  checked and saturating arithmetic, results and the question-mark operator, big-endian
  byte strings, UTF-8 validity and the order on byte strings.

  A fixed-size byte array \<open>[u8; N]\<close> is an \<open>8 N\<close>-bit word, read big-endian: the map
  \<open>to_be_bytes\<close> is a bijection onto the byte lists of length \<open>N\<close> (\<open>from_to_be_bytes\<close>,
  \<open>to_from_be_bytes\<close>), so widths are carried by the types and no length hypothesis is
  needed. A Rust \<open>String\<close> is an Isabelle \<open>string\<close>: its characters are the UTF-8 bytes.
  A \<open>usize\<close> is a \<open>nat\<close>.
\<close>

unbundle bit_operations_syntax

section \<open>Machine types\<close>

type_synonym byte = "8 word"
type_synonym bytes = "byte list"
type_synonym u16 = "16 word"
type_synonym u32 = "32 word"
type_synonym u64 = "64 word"
type_synonym id16 = "128 word"
type_synonym tag8 = "64 word"
type_synonym digest = "256 word"
type_synonym hash_fn = "bytes \<Rightarrow> digest"

named_theorems arith_simps \<open>values of checked and saturating operations\<close>
named_theorems be_simps \<open>big-endian encodings and their inverses\<close>

section \<open>Results\<close>

text \<open>\<open>Result<T, E>\<close> is \<open>'e + 'a\<close>; \<open>sum_bind\<close> is the question-mark operator.\<close>

definition sum_bind :: "'e + 'a \<Rightarrow> ('a \<Rightarrow> 'e + 'b) \<Rightarrow> 'e + 'b" where
  "sum_bind r f = (case r of Inl e \<Rightarrow> Inl e | Inr x \<Rightarrow> f x)"

definition ok_or :: "'a option \<Rightarrow> 'e \<Rightarrow> 'e + 'a" where
  "ok_or v e = (case v of None \<Rightarrow> Inl e | Some x \<Rightarrow> Inr x)"

definition map_err :: "('e \<Rightarrow> 'f) \<Rightarrow> 'e + 'a \<Rightarrow> 'f + 'a" where
  "map_err g r = (case r of Inl e \<Rightarrow> Inl (g e) | Inr x \<Rightarrow> Inr x)"

definition is_ok :: "'e + 'a \<Rightarrow> bool" where
  "is_ok r = (case r of Inl _ \<Rightarrow> False | Inr _ \<Rightarrow> True)"

section \<open>Checked and saturating arithmetic\<close>

definition checked_add :: "'a::len word \<Rightarrow> 'a word \<Rightarrow> 'a word option" where
  "checked_add a b = (if unat a + unat b < 2 ^ LENGTH('a) then Some (a + b) else None)"

definition checked_mul :: "'a::len word \<Rightarrow> 'a word \<Rightarrow> 'a word option" where
  "checked_mul a b = (if unat a * unat b < 2 ^ LENGTH('a) then Some (a * b) else None)"

definition saturating_add :: "'a::len word \<Rightarrow> 'a word \<Rightarrow> 'a word" where
  "saturating_add a b = (if unat a + unat b < 2 ^ LENGTH('a) then a + b else - 1)"

definition saturating_mul :: "'a::len word \<Rightarrow> 'a word \<Rightarrow> 'a word" where
  "saturating_mul a b = (if unat a * unat b < 2 ^ LENGTH('a) then a * b else - 1)"

definition saturating_sub :: "'a::len word \<Rightarrow> 'a word \<Rightarrow> 'a word" where
  "saturating_sub a b = (if b \<le> a then a - b else 0)"

section \<open>Big-endian bytes\<close>

fun nat_be :: "nat \<Rightarrow> nat \<Rightarrow> bytes" where
  "nat_be 0 x = []"
| "nat_be (Suc n) x = nat_be n (x div 256) @ [of_nat x]"

definition be_nat :: "bytes \<Rightarrow> nat" where
  "be_nat bs = foldl (\<lambda>n b. n * 256 + unat b) 0 bs"

definition to_be_bytes :: "'a::len word \<Rightarrow> bytes" where
  "to_be_bytes w = nat_be (LENGTH('a) div 8) (unat w)"

definition from_be_bytes :: "bytes \<Rightarrow> 'a::len word" where
  "from_be_bytes bs = of_nat (be_nat bs)"

section \<open>Text\<close>

definition as_bytes :: "string \<Rightarrow> bytes" where
  "as_bytes s = map of_char s"

definition from_bytes :: "bytes \<Rightarrow> string" where
  "from_bytes bs = map (\<lambda>b. char_of (unat b)) bs"

text \<open>The well-formed UTF-8 byte sequences of \<open>core::str::from_utf8\<close>.\<close>

definition utf8_cont :: "byte \<Rightarrow> bool" where
  "utf8_cont b \<longleftrightarrow> 0x80 \<le> b \<and> b \<le> 0xBF"

fun utf8_valid :: "bytes \<Rightarrow> bool" where
  "utf8_valid [] = True"
| "utf8_valid (a # bs) =
     (if a < 0x80 then utf8_valid bs
      else if 0xC2 \<le> a \<and> a \<le> 0xDF then
        (case bs of b # r \<Rightarrow> utf8_cont b \<and> utf8_valid r | _ \<Rightarrow> False)
      else if 0xE0 \<le> a \<and> a \<le> 0xEF then
        (case bs of b # c # r \<Rightarrow>
           utf8_cont b \<and> utf8_cont c \<and> (a = 0xE0 \<longrightarrow> 0xA0 \<le> b) \<and> (a = 0xED \<longrightarrow> b \<le> 0x9F)
           \<and> utf8_valid r
         | _ \<Rightarrow> False)
      else if 0xF0 \<le> a \<and> a \<le> 0xF4 then
        (case bs of b # c # d # r \<Rightarrow>
           utf8_cont b \<and> utf8_cont c \<and> utf8_cont d \<and> (a = 0xF0 \<longrightarrow> 0x90 \<le> b)
           \<and> (a = 0xF4 \<longrightarrow> b \<le> 0x8F) \<and> utf8_valid r
         | _ \<Rightarrow> False)
      else False)"

definition valid_text :: "string \<Rightarrow> bool" where
  "valid_text s \<longleftrightarrow> utf8_valid (as_bytes s) \<and> length s < 2 ^ 64"

section \<open>Lemmas: results\<close>

lemma sum_bind_simps [simp]:
  "sum_bind (Inl e) f = Inl e"
  "sum_bind (Inr x) f = f x"
  by (simp_all add: sum_bind_def)

lemma sum_bind_Inr_iff: "sum_bind r f = Inr y \<longleftrightarrow> (\<exists>x. r = Inr x \<and> f x = Inr y)"
  by (cases r) auto

lemma sum_bind_cong [fundef_cong]:
  "r = r' \<Longrightarrow> (\<And>x. r' = Inr x \<Longrightarrow> f x = g x) \<Longrightarrow> sum_bind r f = sum_bind r' g"
  by (cases r') auto

lemma ok_or_simps [simp]:
  "ok_or None e = Inl e"
  "ok_or (Some x) e = Inr x"
  by (simp_all add: ok_or_def)

lemma ok_or_Inr_iff [simp]: "ok_or v e = Inr x \<longleftrightarrow> v = Some x"
  by (cases v) auto

lemma map_err_simps [simp]:
  "map_err g (Inl e) = Inl (g e)"
  "map_err g (Inr x) = Inr x"
  by (simp_all add: map_err_def)

lemma map_err_Inr_iff [simp]: "map_err g r = Inr x \<longleftrightarrow> r = Inr x"
  by (cases r) auto

lemma is_ok_simps [simp]:
  "\<not> is_ok (Inl e)"
  "is_ok (Inr x)"
  by (simp_all add: is_ok_def)

lemma is_ok_iff: "is_ok r \<longleftrightarrow> (\<exists>x. r = Inr x)"
  by (cases r) auto

section \<open>Lemmas: arithmetic\<close>

lemma unat_lt_exp: "unat (x :: 'a::len word) < 2 ^ LENGTH('a)"
  by (rule unsigned_less)

lemma unat_add_small:
  fixes a b :: "'a::len word"
  shows "unat a + unat b < 2 ^ LENGTH('a) \<Longrightarrow> unat (a + b) = unat a + unat b"
  by (simp add: unat_word_ariths)

lemma unat_mul_small:
  fixes a b :: "'a::len word"
  shows "unat a * unat b < 2 ^ LENGTH('a) \<Longrightarrow> unat (a * b) = unat a * unat b"
  by (simp add: unat_word_ariths)

lemma unat_max_word: "unat (- 1 :: 'a::len word) = 2 ^ LENGTH('a) - 1"
  by (simp add: unsigned_minus_1_eq_mask mask_eq_exp_minus_1)

lemma checked_add_Some_iff [arith_simps]:
  fixes a b c :: "'a::len word"
  shows "checked_add a b = Some c \<longleftrightarrow> unat c = unat a + unat b"
proof
  assume "checked_add a b = Some c"
  then show "unat c = unat a + unat b"
    by (auto simp: checked_add_def unat_add_small split: if_splits)
next
  assume c: "unat c = unat a + unat b"
  then have lt: "unat a + unat b < 2 ^ LENGTH('a)"
    by (metis unsigned_less)
  then have "c = a + b"
    using c by (simp add: word_unat_eq_iff unat_add_small)
  with lt show "checked_add a b = Some c"
    by (simp add: checked_add_def)
qed

lemma checked_mul_Some_iff [arith_simps]:
  fixes a b c :: "'a::len word"
  shows "checked_mul a b = Some c \<longleftrightarrow> unat c = unat a * unat b"
proof
  assume "checked_mul a b = Some c"
  then show "unat c = unat a * unat b"
    by (auto simp: checked_mul_def unat_mul_small split: if_splits)
next
  assume c: "unat c = unat a * unat b"
  then have lt: "unat a * unat b < 2 ^ LENGTH('a)"
    by (metis unsigned_less)
  then have "c = a * b"
    using c by (simp add: word_unat_eq_iff unat_mul_small)
  with lt show "checked_mul a b = Some c"
    by (simp add: checked_mul_def)
qed

lemma unat_saturating_add [arith_simps]:
  fixes a b :: "'a::len word"
  shows "unat (saturating_add a b) = min (unat a + unat b) (2 ^ LENGTH('a) - 1)"
  by (auto simp: saturating_add_def unat_add_small unat_max_word)

lemma unat_saturating_mul [arith_simps]:
  fixes a b :: "'a::len word"
  shows "unat (saturating_mul a b) = min (unat a * unat b) (2 ^ LENGTH('a) - 1)"
  by (auto simp: saturating_mul_def unat_mul_small unat_max_word)

lemma unat_saturating_sub [arith_simps]:
  fixes a b :: "'a::len word"
  shows "unat (saturating_sub a b) = unat a - unat b"
  by (auto simp: saturating_sub_def unat_sub word_le_nat_alt)

section \<open>Lemmas: big-endian bytes\<close>

lemma length_nat_be [simp]: "length (nat_be n x) = n"
  by (induction n arbitrary: x) auto

lemma be_nat_Nil [simp]: "be_nat [] = 0"
  by (simp add: be_nat_def)

lemma be_nat_snoc [simp]: "be_nat (bs @ [b]) = be_nat bs * 256 + unat b"
  by (simp add: be_nat_def)

lemma be_nat_bound: "be_nat bs < 256 ^ length bs"
proof (induction bs rule: rev_induct)
  case (snoc b bs)
  have "unat b < 256"
    using unsigned_less [of b] by simp
  then have "be_nat bs * 256 + unat b < Suc (be_nat bs) * 256"
    by simp
  also have "\<dots> \<le> 256 ^ length bs * 256"
    using snoc by (intro mult_le_mono1) simp
  finally show ?case by (simp add: mult.commute)
qed simp

lemma be_nat_nat_be: "be_nat (nat_be n x) = x mod 256 ^ n"
proof (induction n arbitrary: x)
  case (Suc n)
  have "x mod (256 * 256 ^ n) = 256 * (x div 256 mod 256 ^ n) + x mod 256"
    by (rule mod_mult2_eq)
  then show ?case
    by (simp add: Suc unat_of_nat ac_simps)
qed simp

lemma nat_be_be_nat: "nat_be (length bs) (be_nat bs) = bs"
proof (induction bs rule: rev_induct)
  case (snoc b bs)
  have lt: "unat b < 256"
    using unsigned_less [of b] by simp
  have "(be_nat bs * 256 + unat b) div 256 = be_nat bs"
    using lt by simp
  moreover have "(of_nat (be_nat bs * 256 + unat b) :: byte) = b"
  proof -
    have "unat (of_nat (be_nat bs * 256 + unat b) :: byte) = (be_nat bs * 256 + unat b) mod 256"
      by (simp only: unat_of_nat) simp
    then have "unat (of_nat (be_nat bs * 256 + unat b) :: byte) = unat b"
      using lt by simp
    then show ?thesis
      by (simp only: word_unat_eq_iff)
  qed
  ultimately show ?case
    using snoc by (simp del: of_nat_add of_nat_mult)
qed simp

lemma length_to_be_bytes [simp]: "length (to_be_bytes (w :: 'a::len word)) = LENGTH('a) div 8"
  by (simp add: to_be_bytes_def)

lemma be_nat_to_be_bytes:
  fixes w :: "'a::len word"
  assumes "8 dvd LENGTH('a)"
  shows "be_nat (to_be_bytes w) = unat w"
proof -
  have "(256 :: nat) ^ (LENGTH('a) div 8) = 2 ^ (8 * (LENGTH('a) div 8))"
    by (simp add: power_mult)
  also have "\<dots> = 2 ^ LENGTH('a)"
    using assms by simp
  finally have "unat w < 256 ^ (LENGTH('a) div 8)"
    using unsigned_less [of w] by simp
  then show ?thesis
    by (simp add: to_be_bytes_def be_nat_nat_be)
qed

lemma from_to_be_bytes [be_simps]:
  fixes w :: "'a::len word"
  assumes "8 dvd LENGTH('a)"
  shows "from_be_bytes (to_be_bytes w) = w"
  using assms by (simp add: from_be_bytes_def be_nat_to_be_bytes)

lemma unat_from_be_bytes:
  assumes "length bs \<le> LENGTH('a) div 8"
  shows "unat (from_be_bytes bs :: 'a::len word) = be_nat bs"
proof -
  have "be_nat bs < 256 ^ length bs"
    by (rule be_nat_bound)
  also have "\<dots> \<le> 256 ^ (LENGTH('a) div 8)"
    using assms by (intro power_increasing) auto
  also have "\<dots> = 2 ^ (8 * (LENGTH('a) div 8))"
    by (simp add: power_mult)
  also have "\<dots> \<le> 2 ^ LENGTH('a)"
    by (intro power_increasing) auto
  finally show ?thesis
    by (simp add: from_be_bytes_def unat_of_nat)
qed

lemma to_from_be_bytes [be_simps]:
  assumes "length bs = LENGTH('a) div 8"
  shows "to_be_bytes (from_be_bytes bs :: 'a::len word) = bs"
  using assms nat_be_be_nat [of bs]
  by (simp add: to_be_bytes_def unat_from_be_bytes)

lemma to_be_bytes_inject:
  fixes v w :: "'a::len word"
  assumes "8 dvd LENGTH('a)"
  shows "to_be_bytes v = to_be_bytes w \<longleftrightarrow> v = w"
  using assms from_to_be_bytes by metis

section \<open>Lemmas: order on byte strings\<close>

lemma append_same_less [simp]:
  fixes xs :: "'a::order list"
  shows "xs @ ys < xs @ zs \<longleftrightarrow> ys < zs"
  by (induction xs) auto

lemma append_less_same_length:
  fixes xs ys :: "'a::linorder list"
  assumes "length xs = length ys"
  shows "xs @ us < ys @ vs \<longleftrightarrow> xs < ys \<or> xs = ys \<and> us < vs"
  using assms by (induction xs ys rule: list_induct2) auto

lemma less_iff_be_nat:
  assumes "length xs = length ys"
  shows "xs < ys \<longleftrightarrow> be_nat xs < be_nat ys"
  using assms
proof (induction "length xs" arbitrary: xs ys)
  case (Suc n)
  obtain x xs' where xs: "xs = xs' @ [x]"
    using Suc.hyps(2) by (metis length_greater_0_conv rev_exhaust zero_less_Suc)
  obtain y ys' where ys: "ys = ys' @ [y]"
    using Suc.hyps(2) Suc.prems by (metis length_greater_0_conv rev_exhaust zero_less_Suc)
  have len: "length xs' = length ys'" and n: "n = length xs'"
    using Suc xs ys by auto
  have x: "unat x < 256" and y: "unat y < 256"
    using unsigned_less [of x] unsigned_less [of y] by simp_all
  have "xs' = ys' \<longleftrightarrow> be_nat xs' = be_nat ys'"
    using len nat_be_be_nat by metis
  moreover have "xs' < ys' \<longleftrightarrow> be_nat xs' < be_nat ys'"
    using Suc.hyps(1) n len by blast
  ultimately have "xs < ys \<longleftrightarrow>
      be_nat xs' < be_nat ys' \<or> be_nat xs' = be_nat ys' \<and> unat x < unat y"
    by (simp add: xs ys append_less_same_length len word_less_nat_alt)
  also have "\<dots> \<longleftrightarrow> be_nat xs' * 256 + unat x < be_nat ys' * 256 + unat y"
    using x y by linarith
  finally show ?case by (simp add: xs ys)
qed simp

lemma to_be_bytes_less_iff:
  fixes v w :: "'a::len word"
  assumes "8 dvd LENGTH('a)"
  shows "to_be_bytes v < to_be_bytes w \<longleftrightarrow> v < w"
  using assms by (simp add: less_iff_be_nat be_nat_to_be_bytes word_less_nat_alt)

section \<open>Lemmas: text\<close>

lemma length_as_bytes [simp]: "length (as_bytes s) = length s"
  by (simp add: as_bytes_def)

lemma length_from_bytes [simp]: "length (from_bytes bs) = length bs"
  by (simp add: from_bytes_def)

lemma unat_of_char_word [simp]: "unat (of_char c :: byte) = of_char c"
proof -
  have "(of_char c :: byte) = of_nat (of_char c)"
    by (simp only: of_nat_of_char)
  then have "unat (of_char c :: byte) = of_char c mod 256"
    by (simp only: unat_of_nat) simp
  then show ?thesis by simp
qed

lemma from_as_bytes [simp]: "from_bytes (as_bytes s) = s"
  by (simp add: from_bytes_def as_bytes_def comp_def)

lemma as_from_bytes [simp]: "as_bytes (from_bytes bs) = bs"
proof -
  have "(of_char (char_of (unat b)) :: byte) = b" for b :: byte
  proof -
    have "unat b < 256"
      using unsigned_less [of b] by simp
    then have "unat (of_char (char_of (unat b)) :: byte) = unat b"
      by simp
    then show ?thesis by (simp only: word_unat_eq_iff)
  qed
  then show ?thesis
    by (simp add: from_bytes_def as_bytes_def comp_def)
qed

lemma as_bytes_append [simp]: "as_bytes (s @ t) = as_bytes s @ as_bytes t"
  by (simp add: as_bytes_def)

lemma as_bytes_inject [simp]: "as_bytes s = as_bytes t \<longleftrightarrow> s = t"
  using from_as_bytes by metis

lemma as_bytes_less_iff: "as_bytes s < as_bytes t \<longleftrightarrow> s < t"
proof -
  have "(of_char c :: byte) < of_char d \<longleftrightarrow> c < d" for c d
    by (simp add: word_less_nat_alt less_char_def)
  moreover have "(of_char c :: byte) = of_char d \<longleftrightarrow> c = d" for c d
    using as_bytes_inject [of "[c]" "[d]"] by (simp add: as_bytes_def)
  ultimately show ?thesis
    by (induction s t rule: list_induct2') (auto simp: as_bytes_def)
qed

end
