(* ===== verification/Cbor.thy ===== *)
theory Cbor
  imports Stow_Prelude
begin

text \<open>
  The module \<open>cbor\<close> of the crate \<open>stowq-format\<close>: the restricted value type, the canonical encoder
  and the strict decoder. A \<open>Reader\<close> is modelled by the input that is left to read
  (\<open>data[pos..]\<close>) and the nesting depth. The main lemma \<open>cbor_decode_Inr_iff\<close> says that the
  decoder accepts exactly the encodings of well-formed values, so every accepted byte string
  is canonical.
\<close>

section \<open>Values and errors\<close>

datatype cvalue =
    Uint u64
  | Bool bool
  | Bytes bytes
  | Text string
  | Array "cvalue list"
  | Map "(cvalue \<times> cvalue) list"

datatype cbor_error =
    TrailingBytes
  | UnexpectedEof
  | NonMinimalInteger
  | IndefiniteLength
  | UnsupportedMajorType byte
  | UnsupportedSimple byte
  | InvalidUtf8
  | UnsortedMapKeys
  | DuplicateMapKey
  | LengthOverflow
  | MaxDepth

section \<open>Encoding\<close>

definition push_head :: "byte \<Rightarrow> u64 \<Rightarrow> bytes" where
  "push_head major v =
     (let m = push_bit 5 major
      in if v \<le> 23 then [m OR ucast v]
         else if v \<le> 0xFF then [m OR 24, ucast v]
         else if v \<le> 0xFFFF then (m OR 25) # to_be_bytes (ucast v :: u16)
         else if v \<le> 0xFFFFFFFF then (m OR 26) # to_be_bytes (ucast v :: u32)
         else (m OR 27) # to_be_bytes v)"

function encode_into :: "cvalue \<Rightarrow> bytes" where
  "encode_into (Uint n) = push_head 0 n"
| "encode_into (Bool b) = [if b then 0xF5 else 0xF4]"
| "encode_into (Bytes b) = push_head 2 (of_nat (length b)) @ b"
| "encode_into (Text t) = push_head 3 (of_nat (length t)) @ as_bytes t"
| "encode_into (Array items) =
     push_head 4 (of_nat (length items)) @ concat (map encode_into items)"
| "encode_into (Map pairs) =
     (let decorated = sort_key fst (map (\<lambda>p. (encode_into (fst p), encode_into (snd p))) pairs)
      in push_head 5 (of_nat (length decorated)) @ concat (map (\<lambda>d. fst d @ snd d) decorated))"
  by pat_completeness auto
termination
proof (relation "measure size", goal_cases)
  case (2 items x)
  then show ?case
    using size_list_estimation' [of x items "size x" size] by (auto simp: less_Suc_eq_le)
next
  case (3 pairs p)
  then have "size_prod size size p \<le> size_list (size_prod size size) pairs"
    by (intro size_list_estimation') auto
  then show ?case by (cases p) auto
next
  case (4 pairs p)
  then have "size_prod size size p \<le> size_list (size_prod size size) pairs"
    by (intro size_list_estimation') auto
  then show ?case by (cases p) auto
qed auto

definition cbor_encode :: "cvalue \<Rightarrow> bytes" where
  "cbor_encode v = encode_into v"

section \<open>Decoding\<close>

definition take_bytes :: "nat \<Rightarrow> bytes \<Rightarrow> cbor_error + bytes \<times> bytes" where
  "take_bytes n bs = (if n > length bs then Inl UnexpectedEof else Inr (take n bs, drop n bs))"

definition max_depth :: nat where
  "max_depth = 64"

definition read_argument :: "byte \<Rightarrow> bytes \<Rightarrow> cbor_error + u64 \<times> bytes" where
  "read_argument info r =
     (if info \<le> 23 then Inr (ucast info, r)
      else if info = 24 then
        sum_bind (take_bytes 1 r) (\<lambda>(x, r).
        let v = (ucast (x ! 0) :: u64)
        in if v < 24 then Inl NonMinimalInteger else Inr (v, r))
      else if info = 25 then
        sum_bind (take_bytes 2 r) (\<lambda>(x, r).
        let v = (from_be_bytes x :: u16)
        in if v < 0x100 then Inl NonMinimalInteger else Inr (ucast v, r))
      else if info = 26 then
        sum_bind (take_bytes 4 r) (\<lambda>(x, r).
        let v = (from_be_bytes x :: u32)
        in if v < 0x10000 then Inl NonMinimalInteger else Inr (ucast v, r))
      else if info = 27 then
        sum_bind (take_bytes 8 r) (\<lambda>(x, r).
        let v = (from_be_bytes x :: u64)
        in if v < 0x100000000 then Inl NonMinimalInteger else Inr (v, r))
      else Inl IndefiniteLength)"

definition read_head :: "bytes \<Rightarrow> cbor_error + (byte \<times> u64) \<times> bytes" where
  "read_head bs =
     sum_bind (take_bytes 1 bs) (\<lambda>(h, r).
     let b = h ! 0; major = drop_bit 5 b; info = b AND 0x1F
     in sum_bind (read_argument info r) (\<lambda>(v, r). Inr ((major, v), r)))"

text \<open>The check that map keys are strictly increasing, over the encoded keys.\<close>

fun check_map_keys :: "bytes option \<Rightarrow> (cvalue \<times> cvalue) list \<Rightarrow> cbor_error + unit" where
  "check_map_keys prev [] = Inr ()"
| "check_map_keys prev (p # ps) =
     (let cur = encode_into (fst p)
      in case prev of
           None \<Rightarrow> check_map_keys (Some cur) ps
         | Some q \<Rightarrow>
             if cur = q then Inl DuplicateMapKey
             else if cur < q then Inl UnsortedMapKeys
             else check_map_keys (Some cur) ps)"

function (sequential)
  read_value :: "nat \<Rightarrow> bytes \<Rightarrow> cbor_error + cvalue \<times> bytes" and
  read_items :: "nat \<Rightarrow> nat \<Rightarrow> bytes \<Rightarrow> cbor_error + cvalue list \<times> bytes" and
  read_pairs :: "nat \<Rightarrow> nat \<Rightarrow> bytes \<Rightarrow> cbor_error + (cvalue \<times> cvalue) list \<times> bytes"
where
  "read_value depth bs =
     (if depth + 1 > max_depth then Inl MaxDepth
      else sum_bind (read_head bs) (\<lambda>h.
        let major = fst (fst h); v = snd (fst h); r = snd h
        in if major = 0 then Inr (Uint v, r)
           else if major = 2 then
             sum_bind (take_bytes (unat v) r) (\<lambda>(x, r). Inr (Bytes x, r))
           else if major = 3 then
             sum_bind (take_bytes (unat v) r) (\<lambda>(x, r).
               if utf8_valid x then Inr (Text (from_bytes x), r) else Inl InvalidUtf8)
           else if major = 4 then
             sum_bind (read_items (unat v) (depth + 1) r) (\<lambda>(xs, r). Inr (Array xs, r))
           else if major = 5 then
             sum_bind (read_pairs (unat v) (depth + 1) r) (\<lambda>(ps, r).
             sum_bind (check_map_keys None ps) (\<lambda>_. Inr (Map ps, r)))
           else if major = 7 then
             if v = 20 then Inr (Bool False, r)
             else if v = 21 then Inr (Bool True, r)
             else Inl (UnsupportedSimple (ucast v))
           else Inl (UnsupportedMajorType major)))"
| "read_items 0 depth bs = Inr ([], bs)"
| "read_items (Suc n) depth bs =
     sum_bind (read_value depth bs) (\<lambda>h.
     sum_bind (read_items n depth (snd h)) (\<lambda>t. Inr (fst h # fst t, snd t)))"
| "read_pairs 0 depth bs = Inr ([], bs)"
| "read_pairs (Suc n) depth bs =
     sum_bind (read_value depth bs) (\<lambda>k.
     sum_bind (read_value depth (snd k)) (\<lambda>v.
     sum_bind (read_pairs n depth (snd v)) (\<lambda>t. Inr ((fst k, fst v) # fst t, snd t))))"
  by pat_completeness auto
termination
  by (relation "measures
        [\<lambda>x. case x of Inl (d, _) \<Rightarrow> max_depth - d | Inr (Inl (_, d, _)) \<Rightarrow> max_depth - d
           | Inr (Inr (_, d, _)) \<Rightarrow> max_depth - d,
         \<lambda>x. case x of Inl _ \<Rightarrow> 0 | Inr (Inl (n, _, _)) \<Rightarrow> Suc n | Inr (Inr (n, _, _)) \<Rightarrow> Suc n]")
    auto

declare read_value.simps [simp del]

definition cbor_decode :: "bytes \<Rightarrow> cbor_error + cvalue" where
  "cbor_decode data =
     sum_bind (read_value 0 data) (\<lambda>(v, r). if r \<noteq> [] then Inl TrailingBytes else Inr v)"

section \<open>Well-formed values\<close>

text \<open>A value that the encoder can produce a decodable string for: nesting at most \<open>n\<close>, 64-bit
  lengths, UTF-8 text, and maps listed in the strict order of their encoded keys.\<close>

fun wf_value :: "nat \<Rightarrow> cvalue \<Rightarrow> bool" where
  "wf_value 0 v = False"
| "wf_value (Suc n) (Uint _) = True"
| "wf_value (Suc n) (Bool _) = True"
| "wf_value (Suc n) (Bytes b) = (length b < 2 ^ 64)"
| "wf_value (Suc n) (Text t) = valid_text t"
| "wf_value (Suc n) (Array xs) = (length xs < 2 ^ 64 \<and> (\<forall>x \<in> set xs. wf_value n x))"
| "wf_value (Suc n) (Map ps) =
     (length ps < 2 ^ 64 \<and> (\<forall>p \<in> set ps. wf_value n (fst p) \<and> wf_value n (snd p))
      \<and> sorted_wrt (<) (map (\<lambda>p. encode_into (fst p)) ps))"

section \<open>Lemmas: heads\<close>

lemma take_bytes_Inr_iff:
  "take_bytes n bs = Inr (x, r) \<longleftrightarrow> length x = n \<and> bs = x @ r"
  by (auto simp: take_bytes_def)

lemma take_bytes_append [simp]: "take_bytes (length x) (x @ r) = Inr (x, r)"
  by (simp add: take_bytes_Inr_iff)

lemma head_byte:
  "push_bit 5 (drop_bit 5 b) OR (b AND 0x1F) = (b :: byte)"
proof -
  have "b AND 0x1F = take_bit 5 b"
    by (simp add: take_bit_eq_mask mask_eq_exp_minus_1)
  then show ?thesis
    by (auto intro!: bit_eqI simp: bit_simps)
qed

lemma head_byte_parts:
  assumes "m < 8" "i < 32"
  shows "drop_bit 5 (push_bit 5 m OR i :: byte) = m" "(push_bit 5 m OR i :: byte) AND 0x1F = i"
proof -
  have m: "take_bit 3 m = m" and i: "take_bit 5 i = i"
    using assms by (simp_all add: word_unat_eq_iff take_bit_eq_mod unat_mod word_less_nat_alt)
  have k: "(0x1F :: byte) = mask 5"
    by (simp add: mask_eq_exp_minus_1)
  have "drop_bit 5 (push_bit 5 (take_bit 3 m) OR take_bit 5 i :: byte) = take_bit 3 m"
    by (auto intro!: bit_eqI simp: bit_simps)
  then show "drop_bit 5 (push_bit 5 m OR i :: byte) = m"
    by (simp only: m i)
  have "(push_bit 5 (take_bit 3 m) OR take_bit 5 i :: byte) AND mask 5 = take_bit 5 i"
    by (auto intro!: bit_eqI simp: bit_simps)
  then show "(push_bit 5 m OR i :: byte) AND 0x1F = i"
    by (simp only: m i k)
qed

lemma head_byte_less: "drop_bit 5 (b :: byte) < 8" "b AND 0x1F < (32 :: byte)"
proof -
  have "b AND 0x1F = take_bit 5 b"
    by (simp add: take_bit_eq_mask mask_eq_exp_minus_1)
  then show "b AND 0x1F < (32 :: byte)"
    by (simp add: word_less_nat_alt take_bit_eq_mod unat_mod)
  show "drop_bit 5 b < 8"
    using unat_lt_exp [of b] by (simp add: word_less_nat_alt unat_div drop_bit_eq_div)
qed

lemma unat_ucast_mod: "unat (ucast (w :: 'a::len word) :: 'b::len word) = unat w mod 2 ^ LENGTH('b)"
proof -
  have "(ucast w :: 'b word) = of_nat (unat w)"
    by simp
  then show ?thesis
    by (simp only: unat_of_nat)
qed

lemma ucast_back:
  fixes v :: u64
  assumes "unat v < 2 ^ LENGTH('a::len)"
  shows "ucast (ucast v :: 'a word) = v"
  using assms unat_lt_exp [of v] by (simp only: word_unat_eq_iff unat_ucast_mod) simp

lemma ucast_up_down:
  fixes u :: "'a::len word"
  assumes "LENGTH('a) \<le> 64"
  shows "ucast (ucast u :: u64) = u" "unat (ucast u :: u64) = unat u"
proof -
  have "unat u < 2 ^ 64"
    using unat_lt_exp [of u] assms by (meson less_le_trans one_le_numeral power_increasing)
  then show *: "unat (ucast u :: u64) = unat u"
    by (simp only: unat_ucast_mod) simp
  show "ucast (ucast u :: u64) = u"
    using * unat_lt_exp [of u] by (simp only: word_unat_eq_iff unat_ucast_mod) simp
qed

text \<open>The additional information and the argument bytes that \<open>push_head\<close> writes.\<close>

definition head_info :: "u64 \<Rightarrow> byte" where
  "head_info v = (if v \<le> 23 then ucast v else if v \<le> 0xFF then 24 else if v \<le> 0xFFFF then 25
     else if v \<le> 0xFFFFFFFF then 26 else 27)"

definition head_argument :: "u64 \<Rightarrow> bytes" where
  "head_argument v = (if v \<le> 23 then [] else if v \<le> 0xFF then [ucast v]
     else if v \<le> 0xFFFF then to_be_bytes (ucast v :: u16)
     else if v \<le> 0xFFFFFFFF then to_be_bytes (ucast v :: u32) else to_be_bytes v)"

lemma push_head_parts: "push_head m v = (push_bit 5 m OR head_info v) # head_argument v"
  by (simp add: push_head_def head_info_def head_argument_def)

lemma head_info_less: "head_info v < 32"
proof (cases "v \<le> 23")
  case True
  then have "unat (ucast v :: byte) < 32"
    unfolding unat_ucast_mod word_le_nat_alt by simp
  then show ?thesis
    using True by (simp add: head_info_def word_less_nat_alt)
qed (auto simp: head_info_def)

lemma read_argument_wide:
  fixes w :: "'a::len word"
  assumes "8 dvd LENGTH('a)" "n = LENGTH('a) div 8"
  shows "take_bytes n (to_be_bytes w @ r) = Inr (to_be_bytes w, r)"
  using assms take_bytes_append [of "to_be_bytes w" r] by simp

lemma read_argument_head: "read_argument (head_info v) (head_argument v @ r) = Inr (v, r)"
proof -
  consider "v \<le> 23" | "\<not> v \<le> 23" "v \<le> 0xFF" | "\<not> v \<le> 23" "\<not> v \<le> 0xFF" "v \<le> 0xFFFF"
    | "\<not> v \<le> 23" "\<not> v \<le> 0xFF" "\<not> v \<le> 0xFFFF" "v \<le> 0xFFFFFFFF"
    | "\<not> v \<le> 23" "\<not> v \<le> 0xFF" "\<not> v \<le> 0xFFFF" "\<not> v \<le> 0xFFFFFFFF"
    by blast
  then show ?thesis
  proof cases
    case 1
    then have "unat v \<le> 23"
      by (simp add: word_le_nat_alt)
    then have "unat (ucast v :: byte) \<le> 23" "ucast (ucast v :: byte) = v"
      by (simp_all add: unat_ucast_mod ucast_back del: unsigned_ucast_eq)
    then show ?thesis
      using 1 by (simp add: read_argument_def head_info_def head_argument_def word_le_nat_alt)
  next
    case 2
    then have "unat v < 256"
      by (simp add: word_le_nat_alt)
    then have "ucast (ucast v :: byte) = v" "\<not> v < 24"
      using 2 by (simp_all add: ucast_back word_le_nat_alt word_less_nat_alt)
    then show ?thesis
      using 2 by (simp add: read_argument_def head_info_def head_argument_def take_bytes_def)
  next
    case 3
    then have v: "unat v < 2 ^ 16" "0x100 \<le> unat v"
      by (simp_all add: word_le_nat_alt word_less_nat_alt)
    then have "ucast (ucast v :: u16) = v" "\<not> (ucast v :: u16) < 0x100"
      by (simp_all add: ucast_back word_less_nat_alt unat_ucast_mod del: unsigned_ucast_eq)
    then show ?thesis
      using 3 by (simp add: read_argument_def head_info_def head_argument_def read_argument_wide from_to_be_bytes)
  next
    case 4
    then have v: "unat v < 2 ^ 32" "0x10000 \<le> unat v"
      by (simp_all add: word_le_nat_alt word_less_nat_alt)
    then have "ucast (ucast v :: u32) = v" "\<not> (ucast v :: u32) < 0x10000"
      by (simp_all add: ucast_back word_less_nat_alt unat_ucast_mod del: unsigned_ucast_eq)
    then show ?thesis
      using 4 by (simp add: read_argument_def head_info_def head_argument_def read_argument_wide from_to_be_bytes)
  next
    case 5
    then have "\<not> v < 0x100000000"
      by (simp add: word_less_nat_alt word_le_nat_alt)
    then show ?thesis
      using 5 by (simp add: read_argument_def head_info_def head_argument_def read_argument_wide from_to_be_bytes)
  qed
qed

lemma read_push_head:
  assumes "m < 8"
  shows "read_head (push_head m v @ r) = Inr ((m, v), r)"
  using head_byte_parts [OF assms head_info_less]
  by (simp only: read_head_def push_head_parts append_Cons take_bytes_def length_Cons One_nat_def not_less
      if_False sum_bind_simps prod.case take_Suc_Cons take_0 drop_Suc_Cons drop_0 Let_def nth_Cons_0 read_argument_head)
    (simp add: read_argument_head)

lemma head_parts_wide:
  "0x18 \<le> unat v \<Longrightarrow> unat v \<le> 0xFF \<Longrightarrow> head_info v = 24 \<and> head_argument v = [ucast v]"
  "0x100 \<le> unat v \<Longrightarrow> unat v \<le> 0xFFFF \<Longrightarrow>
     head_info v = 25 \<and> head_argument v = to_be_bytes (ucast v :: u16)"
  "0x10000 \<le> unat v \<Longrightarrow> unat v \<le> 0xFFFFFFFF \<Longrightarrow>
     head_info v = 26 \<and> head_argument v = to_be_bytes (ucast v :: u32)"
  "0x100000000 \<le> unat v \<Longrightarrow> head_info v = 27 \<and> head_argument v = to_be_bytes v"
  by (auto simp: head_info_def head_argument_def word_le_nat_alt)

lemma read_argument_Inr:
  assumes "read_argument i r = Inr (v, r')"
  shows "i = head_info v \<and> r = head_argument v @ r'"
proof -
  consider "i \<le> 23" | "i = 24" | "i = 25" | "i = 26" | "i = 27"
    using assms by (auto simp: read_argument_def split: if_splits)
  then show ?thesis
  proof cases
    case 1
    then have v: "v = ucast i" and r: "r' = r"
      using assms by (auto simp: read_argument_def)
    have "unat v \<le> 23" "(ucast v :: byte) = i"
      using 1 unfolding v by (simp_all add: ucast_up_down word_le_nat_alt del: unsigned_ucast_eq)
    then show ?thesis
      by (simp add: head_info_def head_argument_def word_le_nat_alt r)
  next
    case 2
    then obtain b where r: "r = b # r'" and v: "v = ucast b" and "\<not> v < 24"
      using assms by (auto simp: read_argument_def take_bytes_def sum_bind_Inr_iff Let_def
          neq_Nil_conv Suc_le_eq not_less split: if_splits)
    then have "0x18 \<le> unat v"
      by (simp add: word_less_nat_alt)
    moreover have "unat v \<le> 0xFF" "(ucast v :: byte) = b"
      using unat_lt_exp [of b] unfolding v by (simp_all add: ucast_up_down del: unsigned_ucast_eq)
    ultimately show ?thesis
      using 2 r by (simp add: head_parts_wide)
  next
    case 3
    then obtain x where r: "r = x @ r'" and x: "length x = 2"
        and v: "v = ucast (from_be_bytes x :: u16)" and lo: "\<not> (from_be_bytes x :: u16) < 0x100"
      using assms by (auto simp: read_argument_def sum_bind_Inr_iff Let_def take_bytes_Inr_iff
          split: if_splits)
    define u where "u = (from_be_bytes x :: u16)"
    have "unat v = unat u" "(ucast v :: u16) = u"
      unfolding v by (simp_all add: ucast_up_down u_def del: unsigned_ucast_eq)
    moreover have "0x100 \<le> unat u" "unat u \<le> 0xFFFF"
      using lo unat_lt_exp [of u] by (simp_all add: u_def word_less_nat_alt)
    moreover have "to_be_bytes u = x"
      unfolding u_def using x by (simp add: to_from_be_bytes)
    ultimately show ?thesis
      using 3 r by (simp add: head_parts_wide)
  next
    case 4
    then obtain x where r: "r = x @ r'" and x: "length x = 4"
        and v: "v = ucast (from_be_bytes x :: u32)" and lo: "\<not> (from_be_bytes x :: u32) < 0x10000"
      using assms by (auto simp: read_argument_def sum_bind_Inr_iff Let_def take_bytes_Inr_iff
          split: if_splits)
    define u where "u = (from_be_bytes x :: u32)"
    have "unat v = unat u" "(ucast v :: u32) = u"
      unfolding v by (simp_all add: ucast_up_down u_def del: unsigned_ucast_eq)
    moreover have "0x10000 \<le> unat u" "unat u \<le> 0xFFFFFFFF"
      using lo unat_lt_exp [of u] by (simp_all add: u_def word_less_nat_alt)
    moreover have "to_be_bytes u = x"
      unfolding u_def using x by (simp add: to_from_be_bytes)
    ultimately show ?thesis
      using 4 r by (simp add: head_parts_wide)
  next
    case 5
    then obtain x where r: "r = x @ r'" and x: "length x = 8"
        and v: "v = from_be_bytes x" and lo: "\<not> v < 0x100000000"
      using assms by (auto simp: read_argument_def sum_bind_Inr_iff Let_def take_bytes_Inr_iff
          split: if_splits)
    then have "0x100000000 \<le> unat v" "to_be_bytes v = x"
      by (simp_all add: word_less_nat_alt to_from_be_bytes)
    then show ?thesis
      using 5 r by (simp add: head_parts_wide)
  qed
qed

lemma read_head_Inr_iff:
  "read_head bs = Inr ((m, v), r) \<longleftrightarrow> m < 8 \<and> bs = push_head m v @ r"
proof
  assume "read_head bs = Inr ((m, v), r)"
  then obtain b r' where bs: "bs = b # r'" and m: "m = drop_bit 5 b"
      and a: "read_argument (b AND 0x1F) r' = Inr (v, r)"
    by (auto simp: read_head_def take_bytes_def sum_bind_Inr_iff Let_def neq_Nil_conv Suc_le_eq
        not_less split: if_splits)
  show "m < 8 \<and> bs = push_head m v @ r"
    using read_argument_Inr [OF a] head_byte [of b] head_byte_less(1) [of b]
    unfolding push_head_parts bs m append_Cons by metis
next
  assume "m < 8 \<and> bs = push_head m v @ r"
  then show "read_head bs = Inr ((m, v), r)"
    using read_push_head by blast
qed

lemma push_head_inject:
  assumes "m < 8" "m' < 8"
  shows "push_head m v @ r = push_head m' v' @ r' \<longleftrightarrow> m = m' \<and> v = v' \<and> r = r'"
  using read_push_head [OF assms(1), of v r] read_push_head [OF assms(2), of v' r']
  by (metis Pair_inject sum.inject(2))

section \<open>Lemmas: values\<close>

lemma check_map_keys_iff:
  "check_map_keys prev ps = Inr () \<longleftrightarrow>
     sorted_wrt (<) (map (\<lambda>p. encode_into (fst p)) ps)
     \<and> (case prev of None \<Rightarrow> True | Some q \<Rightarrow> list_all (\<lambda>p. q < encode_into (fst p)) ps)"
proof (induction ps arbitrary: prev)
  case (Cons p ps)
  have *: "sorted_wrt (<) (map (\<lambda>p. encode_into (fst p)) (p # ps)) \<longleftrightarrow>
      list_all (\<lambda>x. encode_into (fst p) < encode_into (fst x)) ps
      \<and> sorted_wrt (<) (map (\<lambda>p. encode_into (fst p)) ps)"
    by (auto simp: list_all_iff)
  show ?case
  proof (cases prev)
    case None
    then show ?thesis
      using Cons unfolding * by (auto simp: Let_def)
  next
    case (Some q)
    have "list_all (\<lambda>x. q < encode_into (fst x)) ps"
      if "q < encode_into (fst p)" "list_all (\<lambda>x. encode_into (fst p) < encode_into (fst x)) ps"
      using that by (auto simp: list_all_iff intro: less_trans)
    then show ?thesis
      using Cons Some unfolding * by (auto simp: Let_def)
  qed
qed (simp split: option.split)

lemma sort_key_sorted_wrt:
  fixes f :: "'a \<Rightarrow> 'b::linorder"
  assumes "sorted_wrt (<) (map f xs)"
  shows "sort_key f xs = xs"
  using assms by (intro sort_key_id_if_sorted) (simp add: strict_sorted_imp_sorted)

lemma encode_map_sorted:
  assumes "sorted_wrt (<) (map (\<lambda>p. encode_into (fst p)) ps)"
  shows "encode_into (Map ps) =
    push_head 5 (of_nat (length ps)) @ concat (map (\<lambda>p. encode_into (fst p) @ encode_into (snd p)) ps)"
proof -
  let ?d = "map (\<lambda>p. (encode_into (fst p), encode_into (snd p))) ps"
  have "sorted_wrt (<) (map fst ?d)"
    using assms by (simp add: comp_def)
  then have "sort_key fst ?d = ?d"
    by (rule sort_key_sorted_wrt)
  then show ?thesis
    by (simp add: comp_def)
qed

lemma encode_bool: "encode_into (Bool b) = push_head 7 (if b then 21 else 20)"
  by (simp add: push_head_def)

lemma of_nat_unat_len: "of_nat n = (v :: u64) \<Longrightarrow> n < 2 ^ 64 \<Longrightarrow> unat v = n"
  by (auto simp: unat_of_nat)

lemma read_value_sound:
  "read_value d bs = Inr (v, r) \<Longrightarrow> wf_value (max_depth - d) v \<and> bs = encode_into v @ r"
  "read_items n d bs = Inr (xs, r) \<Longrightarrow>
     length xs = n \<and> (\<forall>x \<in> set xs. wf_value (max_depth - d) x) \<and> bs = concat (map encode_into xs) @ r"
  "read_pairs n d bs = Inr (ps, r) \<Longrightarrow>
     length ps = n \<and> (\<forall>p \<in> set ps. wf_value (max_depth - d) (fst p) \<and> wf_value (max_depth - d) (snd p))
     \<and> bs = concat (map (\<lambda>p. encode_into (fst p) @ encode_into (snd p)) ps) @ r"
proof (induction d bs and n d bs and n d bs arbitrary: v r and xs r and ps r
    rule: read_value_read_items_read_pairs.induct)
  case (1 d bs)
  from "1.prems" have d: "Suc d \<le> max_depth"
    by (auto simp: read_value.simps split: if_splits)
  from "1.prems" obtain m n b where h: "read_head bs = Inr ((m, n), b)"
    by (auto simp: read_value.simps sum_bind_Inr_iff split: if_splits)
  have bs: "bs = push_head m n @ b"
    using h by (simp add: read_head_Inr_iff)
  have k: "max_depth - d = Suc (max_depth - Suc d)"
    using d by simp
  have items: "length xs = unat n \<and> (\<forall>x \<in> set xs. wf_value (max_depth - Suc d) x) \<and> b = concat (map encode_into xs) @ r"
    if "read_items (unat n) (Suc d) b = Inr (xs, r)" "m = 4" for xs r
    using "1.IH"(1) [of "((m, n), b)" m n b] d h that by simp
  have pairs: "length ps = unat n \<and> (\<forall>p \<in> set ps. wf_value (max_depth - Suc d) (fst p) \<and> wf_value (max_depth - Suc d) (snd p))
     \<and> b = concat (map (\<lambda>p. encode_into (fst p) @ encode_into (snd p)) ps) @ r"
    if "read_pairs (unat n) (Suc d) b = Inr (ps, r)" "m = 5" for ps r
    using "1.IH"(2) [of "((m, n), b)" m n b] d h that by simp
  from "1.prems" d h consider
      (u) "m = 0" "v = Uint n" "r = b"
    | (b) x where "m = 2" "length x = unat n" "b = x @ r" "v = Bytes x"
    | (t) x where "m = 3" "length x = unat n" "b = x @ r" "utf8_valid x" "v = Text (from_bytes x)"
    | (a) xs where "m = 4" "read_items (unat n) (Suc d) b = Inr (xs, r)" "v = Array xs"
    | (p) ps where "m = 5" "read_pairs (unat n) (Suc d) b = Inr (ps, r)" "check_map_keys None ps = Inr ()" "v = Map ps"
    | (f) "m = 7" "n = 20" "r = b" "v = Bool False"
    | (s) "m = 7" "n = 21" "r = b" "v = Bool True"
    by (auto simp: read_value.simps sum_bind_Inr_iff take_bytes_Inr_iff split: if_splits)
  then show ?case
  proof cases
    case u
    then show ?thesis by (simp add: bs k)
  next
    case b
    then show ?thesis
      using unat_lt_exp [of n] by (simp add: bs k)
  next
    case t
    then show ?thesis
      using unat_lt_exp [of n] by (simp add: bs k valid_text_def)
  next
    case a
    then show ?thesis
      using unat_lt_exp [of n] items [OF a(2) a(1)] by (simp add: bs k)
  next
    case p
    then have "sorted_wrt (<) (map (\<lambda>p. encode_into (fst p)) ps)"
      by (simp add: check_map_keys_iff)
    then show ?thesis
      using unat_lt_exp [of n] pairs [OF p(2) p(1)] p
      by (simp add: bs k encode_map_sorted del: encode_into.simps)
  next
    case f
    then show ?thesis
      by (simp add: bs k encode_bool del: encode_into.simps)
  next
    case s
    then show ?thesis
      by (simp add: bs k encode_bool del: encode_into.simps)
  qed
next
  case (2 d bs)
  then show ?case by auto
next
  case (3 n d bs)
  from "3.prems" obtain x b ys where x: "read_value d bs = Inr (x, b)"
      and ys: "read_items n d b = Inr (ys, r)" and xs: "xs = x # ys"
    by (auto simp: sum_bind_Inr_iff)
  show ?case
    using "3.IH"(1) [OF x] "3.IH"(2) [OF x] ys xs by auto
next
  case (4 d bs)
  then show ?case by auto
next
  case (5 n d bs)
  from "5.prems" obtain x b y c qs where x: "read_value d bs = Inr (x, b)"
      and y: "read_value d b = Inr (y, c)"
      and qs: "read_pairs n d c = Inr (qs, r)" and ps: "ps = (x, y) # qs"
    by (auto simp: sum_bind_Inr_iff)
  show ?case
    using "5.IH"(1) [OF x] "5.IH"(2) [OF x] "5.IH"(3) [OF x] y qs ps by auto
qed

lemma read_items_complete:
  assumes "\<And>x r. x \<in> set xs \<Longrightarrow> read_value d (encode_into x @ r) = Inr (x, r)"
  shows "read_items (length xs) d (concat (map encode_into xs) @ r) = Inr (xs, r)"
  using assms by (induction xs) auto

lemma read_pairs_complete:
  assumes "\<And>p r. p \<in> set ps \<Longrightarrow> read_value d (encode_into (fst p) @ r) = Inr (fst p, r)
      \<and> read_value d (encode_into (snd p) @ r) = Inr (snd p, r)"
  shows "read_pairs (length ps) d
      (concat (map (\<lambda>p. encode_into (fst p) @ encode_into (snd p)) ps) @ r) = Inr (ps, r)"
  using assms by (induction ps) auto

lemma read_value_head:
  assumes "Suc d \<le> max_depth" "m < 8"
  shows "read_value d (push_head m n @ r) =
     (if m = 0 then Inr (Uint n, r)
      else if m = 2 then sum_bind (take_bytes (unat n) r) (\<lambda>(x, r). Inr (Bytes x, r))
      else if m = 3 then
        sum_bind (take_bytes (unat n) r) (\<lambda>(x, r).
          if utf8_valid x then Inr (Text (from_bytes x), r) else Inl InvalidUtf8)
      else if m = 4 then sum_bind (read_items (unat n) (Suc d) r) (\<lambda>(xs, r). Inr (Array xs, r))
      else if m = 5 then
        sum_bind (read_pairs (unat n) (Suc d) r) (\<lambda>(ps, r).
        sum_bind (check_map_keys None ps) (\<lambda>_. Inr (Map ps, r)))
      else if m = 7 then
        if n = 20 then Inr (Bool False, r)
        else if n = 21 then Inr (Bool True, r)
        else Inl (UnsupportedSimple (ucast n))
      else Inl (UnsupportedMajorType m))"
  using assms by (subst read_value.simps) (simp add: read_push_head)

lemma unat_of_nat_len: "n < 2 ^ 64 \<Longrightarrow> unat (of_nat n :: u64) = n"
  by (simp add: unat_of_nat)

lemma read_value_complete:
  "wf_value n v \<Longrightarrow> n \<le> max_depth \<Longrightarrow> read_value (max_depth - n) (encode_into v @ r) = Inr (v, r)"
proof (induction n v arbitrary: r rule: wf_value.induct)
  case (6 n xs)
  then have d: "Suc (max_depth - Suc n) = max_depth - n" by simp
  have "read_items (length xs) (max_depth - n) (concat (map encode_into xs) @ r) = Inr (xs, r)"
    using 6 by (intro read_items_complete) auto
  then show ?case
    using 6 by (simp add: read_value_head unat_of_nat_len d)
next
  case (7 n ps)
  then have d: "Suc (max_depth - Suc n) = max_depth - n" by simp
  have "read_pairs (length ps) (max_depth - n)
      (concat (map (\<lambda>p. encode_into (fst p) @ encode_into (snd p)) ps) @ r) = Inr (ps, r)"
    using 7 by (intro read_pairs_complete) auto
  moreover have "check_map_keys None ps = Inr ()"
    using 7 by (simp add: check_map_keys_iff)
  ultimately show ?case
    using 7 by (simp add: read_value_head unat_of_nat_len d encode_map_sorted del: encode_into.simps)
next
  case (4 n b)
  then show ?case
    using take_bytes_append [of b r] by (simp add: read_value_head unat_of_nat_len)
next
  case (5 n t)
  then show ?case
    using take_bytes_append [of "as_bytes t" r]
    by (simp add: read_value_head unat_of_nat_len valid_text_def)
qed (simp_all add: read_value_head encode_bool del: encode_into.simps(2))

lemma read_value_Inr_iff:
  assumes "d \<le> max_depth"
  shows "read_value d bs = Inr (v, r) \<longleftrightarrow> wf_value (max_depth - d) v \<and> bs = encode_into v @ r"
  using read_value_sound(1) [of d bs v r] read_value_complete [of "max_depth - d" v r] assms
  by auto

lemma cbor_decode_Inr_iff:
  "cbor_decode bs = Inr v \<longleftrightarrow> wf_value max_depth v \<and> bs = cbor_encode v"
  by (auto simp: cbor_decode_def cbor_encode_def sum_bind_Inr_iff read_value_Inr_iff)

section \<open>Properties\<close>

text \<open>C31. The strict decoder accepts exactly the canonical encodings: a byte string decodes to a value
  if and only if the value is well formed (nesting at most 64, UTF-8 text, maps strictly sorted
  by encoded key) and the string is its encoding. Hence decoding inverts encoding, no value has
  two accepted encodings, and everything accepted re-encodes to the same bytes.\<close>

theorem cbor_canonical:
  "cbor_decode bs = Inr v \<longleftrightarrow> wf_value max_depth v \<and> bs = cbor_encode v"
  by (rule cbor_decode_Inr_iff)

end
