(* ===== verification/Key_Grammar.thy ===== *)
theory Key_Grammar
  imports Stow_Prelude "HOL-Library.Sublist"
begin

text \<open>
  The crate \<open>stowq-keys\<close>: hexadecimal fields, shard derivation, key tags and the grammar of the
  object keys. The function \<open>show_key\<close> is \<open>Display for Key\<close> and \<open>parse_key\<close> is \<open>parse\<close>; the
  main lemma \<open>parse_key_Inr_iff\<close> says that they are inverse to each other, so every accepted
  string is canonical. The hash (crate \<open>sha2\<close>) is the parameter \<open>H\<close>.
\<close>

named_theorems key_simps \<open>printing and splitting of keys\<close>

section \<open>Hexadecimal fields\<close>

definition from_hex_digit_lower :: "byte \<Rightarrow> byte option" where
  "from_hex_digit_lower b =
     (if 0x30 \<le> b \<and> b \<le> 0x39 then Some (b - 0x30)
      else if 0x61 \<le> b \<and> b \<le> 0x66 then Some (b - 0x61 + 10)
      else None)"

fun hex_decode_pairs :: "bytes \<Rightarrow> bytes option" where
  "hex_decode_pairs [] = Some []"
| "hex_decode_pairs [b] = None"
| "hex_decode_pairs (a # b # bs) =
     Option.bind (from_hex_digit_lower a) (\<lambda>hi.
     Option.bind (from_hex_digit_lower b) (\<lambda>lo.
     Option.bind (hex_decode_pairs bs) (\<lambda>out. Some ((push_bit 4 hi OR lo) # out))))"

definition hex_decode_fixed :: "nat \<Rightarrow> string \<Rightarrow> bytes option" where
  "hex_decode_fixed n s =
     (let b = as_bytes s in if length b \<noteq> n * 2 then None else hex_decode_pairs b)"

text \<open>A fixed-width field as a word: \<open>hex_decode_u16\<close>, \<open>hex_decode_u32\<close>, \<open>hex_decode_u64\<close> and the
  byte arrays of ids and digests, at the width of the result type.\<close>

definition hex_decode_word :: "string \<Rightarrow> 'a::len word option" where
  "hex_decode_word s = map_option from_be_bytes (hex_decode_fixed (LENGTH('a) div 8) s)"

definition hex_chars :: string where
  "hex_chars = ''0123456789abcdef''"

fun push_hex :: "bytes \<Rightarrow> string" where
  "push_hex [] = ''''"
| "push_hex (b # bs) =
     hex_chars ! unat (drop_bit 4 b) # hex_chars ! unat (b AND 0xF) # push_hex bs"

section \<open>Shards and key tags\<close>

definition count_ones :: "'a::len word \<Rightarrow> nat" where
  "count_ones w = length (filter (bit w) [0..<LENGTH('a)])"

definition is_power_of_two :: "'a::len word \<Rightarrow> bool" where
  "is_power_of_two w \<longleftrightarrow> count_ones w = 1"

definition trailing_zeros :: "'a::len word \<Rightarrow> nat" where
  "trailing_zeros w = length (takeWhile (\<lambda>i. \<not> bit w i) [0..<LENGTH('a)])"

text \<open>\<open>None\<close> is the panic of the assertion.\<close>

definition compute_shard :: "hash_fn \<Rightarrow> id16 \<Rightarrow> id16 \<Rightarrow> u32 \<Rightarrow> u16 option" where
  "compute_shard H queue_id job_id shard_count =
     (if is_power_of_two shard_count \<and> shard_count \<le> 65536 then
        let k = trailing_zeros shard_count;
            result = to_be_bytes (H (as_bytes ''StowQ-1-shard'' @ [0] @ to_be_bytes queue_id
                       @ to_be_bytes job_id));
            val = (from_be_bytes (take 2 result) :: u16)
        in Some (if k \<ge> 16 then val else val AND (push_bit k 1 - 1))
      else None)"

definition key_tag :: "hash_fn \<Rightarrow> id16 \<Rightarrow> string \<Rightarrow> tag8" where
  "key_tag H queue_id key =
     from_be_bytes (take 8 (to_be_bytes
       (H (as_bytes ''StowQ-1-key'' @ [0] @ to_be_bytes queue_id @ as_bytes key))))"

section \<open>Keys\<close>

datatype parse_error = UnknownPrefix | SegmentCount | Field string | KindError

datatype term_kind = Receipt | Dead

definition as_char :: "term_kind \<Rightarrow> char" where
  "as_char k = (case k of Receipt \<Rightarrow> CHR ''r'' | Dead \<Rightarrow> CHR ''d'')"

definition from_char :: "string \<Rightarrow> term_kind option" where
  "from_char c = (if c = ''r'' then Some Receipt else if c = ''d'' then Some Dead else None)"

datatype key =
    KeyJob u16 id16
  | KeyPayload id16 digest
  | KeyClaim u16 id16 u32
  | KeyFail u16 id16 u32
  | KeyLeaseIndex u64 u16 id16 u32
  | KeyDelayIndex u64 u16 id16
  | KeyReceipt u16 id16
  | KeyDead u16 id16
  | KeyTermIndex u64 term_kind u16 id16
  | KeyQuarantine u64 id16
  | KeyTail u16 id16
  | KeyBeacon id16
  | KeyFormat
  | KeyWatermark

definition hex :: "'a::len word \<Rightarrow> string" where
  "hex w = push_hex (to_be_bytes w)"

fun show_key :: "key \<Rightarrow> string" where
  "show_key (KeyJob shard job_id) = ''jobs/'' @ hex shard @ ''/'' @ hex job_id"
| "show_key (KeyPayload job_id digest) = ''payloads/'' @ hex job_id @ ''/'' @ hex digest"
| "show_key (KeyClaim shard job_id generation) =
     ''claims/'' @ hex shard @ ''/'' @ hex job_id @ ''/'' @ hex generation"
| "show_key (KeyFail shard job_id generation) =
     ''fails/'' @ hex shard @ ''/'' @ hex job_id @ ''/'' @ hex generation"
| "show_key (KeyLeaseIndex bucket shard job_id generation) =
     ''leases/'' @ hex bucket @ ''/'' @ hex shard @ ''/'' @ hex job_id @ ''.'' @ hex generation"
| "show_key (KeyDelayIndex bucket shard job_id) =
     ''delayed/'' @ hex bucket @ ''/'' @ hex shard @ ''/'' @ hex job_id"
| "show_key (KeyReceipt shard job_id) = ''receipts/'' @ hex shard @ ''/'' @ hex job_id"
| "show_key (KeyDead shard job_id) = ''dead/'' @ hex shard @ ''/'' @ hex job_id"
| "show_key (KeyTermIndex bucket kind shard job_id) =
     ''termidx/'' @ hex bucket @ ''/'' @ [as_char kind] @ ''/'' @ hex shard @ ''/'' @ hex job_id"
| "show_key (KeyQuarantine bucket qid) = ''quarantine/'' @ hex bucket @ ''/'' @ hex qid"
| "show_key (KeyBeacon nonce) = ''meta/clock/'' @ hex nonce"
| "show_key (KeyTail shard job_id) = ''tails/'' @ hex shard @ ''/'' @ hex job_id"
| "show_key KeyFormat = ''meta/FORMAT''"
| "show_key KeyWatermark = ''meta/watermark''"

section \<open>Parsing\<close>

text \<open>\<open>str::split\<close> on a character and \<open>str::split_once\<close>.\<close>

fun split_on :: "char \<Rightarrow> string \<Rightarrow> string list" where
  "split_on c [] = [[]]"
| "split_on c (x # xs) =
     (if x = c then [] # split_on c xs
      else case split_on c xs of [] \<Rightarrow> [[x]] | p # ps \<Rightarrow> (x # p) # ps)"

fun split_once :: "char \<Rightarrow> string \<Rightarrow> (string \<times> string) option" where
  "split_once c [] = None"
| "split_once c (x # xs) =
     (if x = c then Some ([], xs)
      else map_option (\<lambda>(a, b). (x # a, b)) (split_once c xs))"

definition hex_field :: "string \<Rightarrow> string \<Rightarrow> parse_error + 'a::len word" where
  "hex_field name s = ok_or (hex_decode_word s) (Field name)"

definition seg :: "string list \<Rightarrow> nat \<Rightarrow> parse_error + unit" where
  "seg parts n = (if length parts = n then Inr () else Inl SegmentCount)"

definition parse_shard_job :: "string list \<Rightarrow> (u16 \<Rightarrow> id16 \<Rightarrow> key) \<Rightarrow> parse_error + key" where
  "parse_shard_job parts mk =
     sum_bind (seg parts 3) (\<lambda>_.
     sum_bind (hex_field ''shard'' (parts ! 1)) (\<lambda>shard.
     sum_bind (hex_field ''job-id'' (parts ! 2)) (\<lambda>job_id. Inr (mk shard job_id))))"

definition parse_chain :: "string list \<Rightarrow> (u16 \<Rightarrow> id16 \<Rightarrow> u32 \<Rightarrow> key) \<Rightarrow> parse_error + key" where
  "parse_chain parts mk =
     sum_bind (seg parts 4) (\<lambda>_.
     sum_bind (hex_field ''shard'' (parts ! 1)) (\<lambda>shard.
     sum_bind (hex_field ''job-id'' (parts ! 2)) (\<lambda>job_id.
     sum_bind (hex_field ''generation'' (parts ! 3)) (\<lambda>generation.
       Inr (mk shard job_id generation)))))"

definition parse_payload :: "string list \<Rightarrow> parse_error + key" where
  "parse_payload parts =
     sum_bind (seg parts 3) (\<lambda>_.
     sum_bind (hex_field ''job-id'' (parts ! 1)) (\<lambda>job_id.
     sum_bind (hex_field ''digest'' (parts ! 2)) (\<lambda>digest. Inr (KeyPayload job_id digest))))"

definition parse_lease :: "string list \<Rightarrow> parse_error + key" where
  "parse_lease parts =
     sum_bind (seg parts 4) (\<lambda>_.
     sum_bind (ok_or (split_once (CHR ''.'') (parts ! 3)) (Field ''lease suffix'')) (\<lambda>(job_s, gen_s).
     sum_bind (hex_field ''bucket'' (parts ! 1)) (\<lambda>bucket.
     sum_bind (hex_field ''shard'' (parts ! 2)) (\<lambda>shard.
     sum_bind (hex_field ''job-id'' job_s) (\<lambda>job_id.
     sum_bind (hex_field ''generation'' gen_s) (\<lambda>generation.
       Inr (KeyLeaseIndex bucket shard job_id generation)))))))"

definition parse_delay :: "string list \<Rightarrow> parse_error + key" where
  "parse_delay parts =
     sum_bind (seg parts 4) (\<lambda>_.
     sum_bind (hex_field ''bucket'' (parts ! 1)) (\<lambda>bucket.
     sum_bind (hex_field ''shard'' (parts ! 2)) (\<lambda>shard.
     sum_bind (hex_field ''job-id'' (parts ! 3)) (\<lambda>job_id.
       Inr (KeyDelayIndex bucket shard job_id)))))"

definition parse_termidx :: "string list \<Rightarrow> parse_error + key" where
  "parse_termidx parts =
     sum_bind (seg parts 5) (\<lambda>_.
     sum_bind (hex_field ''bucket'' (parts ! 1)) (\<lambda>bucket.
     sum_bind (ok_or (from_char (parts ! 2)) KindError) (\<lambda>kind.
     sum_bind (hex_field ''shard'' (parts ! 3)) (\<lambda>shard.
     sum_bind (hex_field ''job-id'' (parts ! 4)) (\<lambda>job_id.
       Inr (KeyTermIndex bucket kind shard job_id))))))"

definition parse_quarantine :: "string list \<Rightarrow> parse_error + key" where
  "parse_quarantine parts =
     sum_bind (seg parts 3) (\<lambda>_.
     sum_bind (hex_field ''bucket'' (parts ! 1)) (\<lambda>bucket.
     sum_bind (hex_field ''qid'' (parts ! 2)) (\<lambda>qid. Inr (KeyQuarantine bucket qid))))"

definition parse_meta :: "string list \<Rightarrow> parse_error + key" where
  "parse_meta parts =
     (if length parts = 2 \<and> parts ! 1 = ''FORMAT'' then Inr KeyFormat
      else if length parts = 2 \<and> parts ! 1 = ''watermark'' then Inr KeyWatermark
      else if length parts \<ge> 2 \<and> parts ! 1 = ''clock'' then
        sum_bind (seg parts 3) (\<lambda>_.
        sum_bind (hex_field ''nonce'' (parts ! 2)) (\<lambda>nonce. Inr (KeyBeacon nonce)))
      else Inl UnknownPrefix)"

definition parse_key :: "string \<Rightarrow> parse_error + key" where
  "parse_key s =
     (let parts = split_on (CHR ''/'') s; p = hd parts
      in if p = ''jobs'' then parse_shard_job parts KeyJob
         else if p = ''payloads'' then parse_payload parts
         else if p = ''claims'' then parse_chain parts KeyClaim
         else if p = ''fails'' then parse_chain parts KeyFail
         else if p = ''leases'' then parse_lease parts
         else if p = ''delayed'' then parse_delay parts
         else if p = ''receipts'' then parse_shard_job parts KeyReceipt
         else if p = ''dead'' then parse_shard_job parts KeyDead
         else if p = ''termidx'' then parse_termidx parts
         else if p = ''quarantine'' then parse_quarantine parts
         else if p = ''tails'' then parse_shard_job parts KeyTail
         else if p = ''meta'' then parse_meta parts
         else Inl UnknownPrefix)"

section \<open>Lemmas: hexadecimal\<close>

lemma hex_chars_props:
  "n < 16 \<Longrightarrow> of_char (hex_chars ! n) = (if n < 10 then of_nat (48 + n) else of_nat (87 + n) :: byte)
     \<and> CHR ''/'' \<noteq> hex_chars ! n \<and> CHR ''.'' \<noteq> hex_chars ! n"
proof -
  have "\<forall>n \<in> set [0..<16]. of_char (hex_chars ! n) = (if n < 10 then of_nat (48 + n) else of_nat (87 + n) :: byte)
     \<and> CHR ''/'' \<noteq> hex_chars ! n \<and> CHR ''.'' \<noteq> hex_chars ! n"
    by (simp add: hex_chars_def upt_rec)
  then show "n < 16 \<Longrightarrow> ?thesis" by simp
qed

lemma unat_of_char_hex:
  assumes "n < 16"
  shows "unat (of_char (hex_chars ! n) :: byte) = (if n < 10 then 48 + n else 87 + n)"
  using hex_chars_props [OF assms] assms by (simp add: unat_of_nat del: of_nat_add)

lemma from_hex_digit_lower_unat:
  "from_hex_digit_lower c = Some d \<longleftrightarrow>
     48 \<le> unat c \<and> unat c \<le> 57 \<and> unat c = 48 + unat d
     \<or> 97 \<le> unat c \<and> unat c \<le> 102 \<and> unat c = 87 + unat d"
proof -
  have 1: "unat (c - 0x30) = unat c - 48" if "0x30 \<le> c"
    using that by (simp add: unat_sub)
  have 2: "unat (c - 0x61 + 0xA) = unat c - 87" if "0x61 \<le> c" "c \<le> 0x66"
    using that by (simp add: unat_sub unat_word_ariths word_le_nat_alt)
  show ?thesis
  proof (cases "0x30 \<le> c \<and> c \<le> 0x39")
    case True
    then have "from_hex_digit_lower c = Some d \<longleftrightarrow> unat c - 48 = unat d"
      by (simp only: simp_thms from_hex_digit_lower_def if_True option.inject word_unat_eq_iff 1)
    then show ?thesis
      using True by (auto simp: word_le_nat_alt)
  next
    case False
    show ?thesis
    proof (cases "0x61 \<le> c \<and> c \<le> 0x66")
      case True
      then have "from_hex_digit_lower c = Some d \<longleftrightarrow> unat c - 87 = unat d"
        using False by (simp only: simp_thms from_hex_digit_lower_def if_True if_False option.inject word_unat_eq_iff 2)
      then show ?thesis
        using True by (auto simp: word_le_nat_alt)
    qed (use False in \<open>auto simp: from_hex_digit_lower_def word_le_nat_alt\<close>)
  qed
qed

lemma from_hex_digit_lower_Some_iff:
  "from_hex_digit_lower c = Some d \<longleftrightarrow> unat d < 16 \<and> c = of_char (hex_chars ! unat d)"
proof (cases "unat d < 16")
  case True
  have "c = of_char (hex_chars ! unat d) \<longleftrightarrow>
      unat c = (if unat d < 10 then 48 + unat d else 87 + unat d)"
    by (simp only: word_unat_eq_iff [of c] unat_of_char_hex [OF True])
  then show ?thesis
    using True unfolding from_hex_digit_lower_unat by auto
qed (auto simp: from_hex_digit_lower_unat)

lemma nibble_less:
  "unat (drop_bit 4 b :: byte) < 16" "unat (b AND 0xF :: byte) < 16"
proof -
  have "b AND 0xF = take_bit 4 b"
    by (simp add: take_bit_eq_mask mask_eq_exp_minus_1)
  then show "unat (b AND 0xF :: byte) < 16"
    by (simp add: take_bit_eq_mod unat_mod)
  show "unat (drop_bit 4 b :: byte) < 16"
    using unat_lt_exp [of b] by (simp add: unat_div drop_bit_eq_div)
qed

lemma byte_nibbles: "push_bit 4 (drop_bit 4 b) OR (b AND 0xF) = (b :: byte)"
proof -
  have "b AND 0xF = take_bit 4 b"
    by (simp add: take_bit_eq_mask mask_eq_exp_minus_1)
  then show ?thesis
    by (auto intro!: bit_eqI simp: bit_simps)
qed

lemma nibbles_byte:
  assumes "unat h < 16" "unat l < 16"
  shows "drop_bit 4 (push_bit 4 h OR l :: byte) = h" "(push_bit 4 h OR l :: byte) AND 0xF = l"
proof -
  have h: "take_bit 4 h = h" and l: "take_bit 4 l = l"
    using assms by (simp_all add: word_unat_eq_iff take_bit_eq_mod unat_mod)
  have m: "(0xF :: byte) = mask 4"
    by (simp add: mask_eq_exp_minus_1)
  have "drop_bit 4 (push_bit 4 (take_bit 4 h) OR take_bit 4 l :: byte) = take_bit 4 h"
    by (auto intro!: bit_eqI simp: bit_simps)
  then show "drop_bit 4 (push_bit 4 h OR l :: byte) = h"
    by (simp only: h l)
  have "(push_bit 4 (take_bit 4 h) OR take_bit 4 l :: byte) AND mask 4 = take_bit 4 l"
    by (auto intro!: bit_eqI simp: bit_simps)
  then show "(push_bit 4 h OR l :: byte) AND 0xF = l"
    by (simp only: h l m)
qed

lemma length_push_hex [simp]: "length (push_hex bs) = 2 * length bs"
  by (induction bs) auto

lemma hex_decode_pairs_Some_iff:
  "hex_decode_pairs cs = Some bs \<longleftrightarrow> cs = as_bytes (push_hex bs)"
proof (induction cs arbitrary: bs rule: induct_list012)
  case 1
  then show ?case by (cases bs) (auto simp: as_bytes_def)
next
  case (2 b)
  then show ?case by (cases bs) (auto simp: as_bytes_def)
next
  case (3 a b cs)
  show ?case
  proof (cases bs)
    case Nil
    then show ?thesis
      by (auto simp: as_bytes_def bind_eq_Some_conv)
  next
    case (Cons x xs)
    have "hex_decode_pairs (a # b # cs) = Some (x # xs) \<longleftrightarrow>
        (\<exists>hi lo. from_hex_digit_lower a = Some hi \<and> from_hex_digit_lower b = Some lo
          \<and> x = push_bit 4 hi OR lo) \<and> hex_decode_pairs cs = Some xs"
      by (auto simp: bind_eq_Some_conv)
    also have "(\<exists>hi lo. from_hex_digit_lower a = Some hi \<and> from_hex_digit_lower b = Some lo
          \<and> x = push_bit 4 hi OR lo) \<longleftrightarrow>
        a = of_char (hex_chars ! unat (drop_bit 4 x)) \<and> b = of_char (hex_chars ! unat (x AND 0xF))"
      unfolding from_hex_digit_lower_Some_iff
      using nibble_less [of x] byte_nibbles [of x] nibbles_byte by metis
    finally show ?thesis
      using "3.IH"(1) unfolding Cons by (simp add: as_bytes_def)
  qed
qed

lemma length_hex [simp]: "length (hex (w :: 'a::len word)) = 2 * (LENGTH('a) div 8)"
  by (simp add: hex_def)

lemma hex_decode_word_Some_iff [key_simps]:
  fixes w :: "'a::len word"
  assumes "8 dvd LENGTH('a)"
  shows "hex_decode_word s = Some w \<longleftrightarrow> s = hex w"
proof
  assume "hex_decode_word s = Some w"
  then obtain bs where "hex_decode_fixed (LENGTH('a) div 8) s = Some bs" and w: "w = from_be_bytes bs"
    by (auto simp: hex_decode_word_def)
  then have len: "length s = 2 * (LENGTH('a) div 8)" and s: "s = push_hex bs"
    by (auto simp: hex_decode_fixed_def Let_def hex_decode_pairs_Some_iff split: if_splits)
  then have "length bs = LENGTH('a) div 8"
    by simp
  then show "s = hex w"
    by (simp add: hex_def w s to_from_be_bytes)
next
  assume "s = hex w"
  then show "hex_decode_word s = Some w"
    using hex_decode_pairs_Some_iff [of "as_bytes s" "to_be_bytes w"] assms
    by (simp add: hex_decode_word_def hex_decode_fixed_def hex_def Let_def from_to_be_bytes)
qed

lemma hex_field_Inr_iff [key_simps]:
  fixes w :: "'a::len word"
  assumes "8 dvd LENGTH('a)"
  shows "hex_field n s = Inr w \<longleftrightarrow> s = hex w"
  using assms by (simp add: hex_field_def hex_decode_word_Some_iff)

lemma hex_field_hex [simp]:
  fixes w :: "'a::len word"
  assumes "8 dvd LENGTH('a)"
  shows "hex_field n (hex w) = Inr w"
  using assms by (simp add: hex_field_Inr_iff)

lemma hex_no_sep [simp]:
  "CHR ''/'' \<notin> set (hex w)" "CHR ''.'' \<notin> set (hex w)"
proof -
  have "CHR ''/'' \<notin> set (push_hex bs) \<and> CHR ''.'' \<notin> set (push_hex bs)" for bs
    using nibble_less by (induction bs) (auto simp: hex_chars_props)
  then show "CHR ''/'' \<notin> set (hex w)" "CHR ''.'' \<notin> set (hex w)"
    by (simp_all add: hex_def)
qed

lemma hex_chars_less_iff:
  assumes "m < 16" "n < 16"
  shows "hex_chars ! m < hex_chars ! n \<longleftrightarrow> m < n" "hex_chars ! m = hex_chars ! n \<longleftrightarrow> m = n"
proof -
  have less: "a < b \<longleftrightarrow> unat (of_char a :: byte) < unat (of_char b :: byte)" for a b
    by (simp add: less_char_def)
  have mono: "hex_chars ! i < hex_chars ! j \<longleftrightarrow> i < j" if "i < 16" "j < 16" for i j
    unfolding less using that by (simp only: unat_of_char_hex) auto
  then show "hex_chars ! m < hex_chars ! n \<longleftrightarrow> m < n"
    using assms by blast
  show "hex_chars ! m = hex_chars ! n \<longleftrightarrow> m = n"
    using less_imp_neq [of "hex_chars ! m" "hex_chars ! n"] less_imp_neq [of "hex_chars ! n" "hex_chars ! m"]
      mono [OF assms] mono [OF assms(2) assms(1)] by (metis linorder_neqE_nat)
qed

lemma unat_nibbles: "unat (b :: byte) = 16 * unat (drop_bit 4 b) + unat (b AND 0xF)"
proof -
  have "b AND 0xF = take_bit 4 b"
    by (simp add: take_bit_eq_mask mask_eq_exp_minus_1)
  then show ?thesis
    by (simp add: take_bit_eq_mod unat_mod unat_div drop_bit_eq_div)
qed

lemma push_hex_less_iff:
  assumes "length xs = length ys"
  shows "push_hex xs < push_hex ys \<longleftrightarrow> xs < ys"
  using assms
proof (induction xs ys rule: list_induct2)
  case (Cons x xs y ys)
  have "x < y \<longleftrightarrow> unat (drop_bit 4 x) < unat (drop_bit 4 y) \<or>
      unat (drop_bit 4 x) = unat (drop_bit 4 y) \<and> unat (x AND 0xF) < unat (y AND 0xF)"
    using nibble_less [of x] nibble_less [of y]
    unfolding word_less_nat_alt unat_nibbles [of x] unat_nibbles [of y] by linarith
  moreover have "x = y \<longleftrightarrow> unat (drop_bit 4 x) = unat (drop_bit 4 y) \<and> unat (x AND 0xF) = unat (y AND 0xF)"
    by (metis byte_nibbles word_unat_eq_iff)
  ultimately show ?case
    using Cons.IH by (auto simp: hex_chars_less_iff nibble_less)
qed simp

lemma hex_less_iff [key_simps]:
  fixes v w :: "'a::len word"
  assumes "8 dvd LENGTH('a)"
  shows "hex v < hex w \<longleftrightarrow> v < w"
  using assms by (simp add: hex_def push_hex_less_iff to_be_bytes_less_iff)

lemma hex_inject [simp]:
  fixes v w :: "'a::len word"
  assumes "8 dvd LENGTH('a)"
  shows "hex v = hex w \<longleftrightarrow> v = w"
  using hex_field_hex [OF assms] by (metis sum.inject(2))

section \<open>Lemmas: splitting\<close>

lemma split_on_ne [simp]: "split_on c s \<noteq> []"
  by (induction s) (auto split: list.splits)

lemma split_on_clean [simp]: "c \<notin> set s \<Longrightarrow> split_on c s = [s]"
  by (induction s) auto

lemma split_on_append [simp]:
  "c \<notin> set s \<Longrightarrow> split_on c (s @ c # t) = s # split_on c t"
  by (induction s) auto

fun join_with :: "char \<Rightarrow> string list \<Rightarrow> string" where
  "join_with c [] = []"
| "join_with c [s] = s"
| "join_with c (s # t # ts) = s @ c # join_with c (t # ts)"

lemma join_split_on: "join_with c (split_on c s) = s"
proof (induction s)
  case (Cons x s)
  obtain p ps where "split_on c s = p # ps"
    by (meson neq_Nil_conv split_on_ne)
  then show ?case
    using Cons by (cases ps) auto
qed simp

lemma split_once_Some_iff:
  "split_once c s = Some (a, b) \<longleftrightarrow> c \<notin> set a \<and> s = a @ c # b"
proof (induction s arbitrary: a)
  case (Cons x s)
  then show ?case by (cases a) auto
qed simp

section \<open>Lemmas: keys\<close>

lemma seg_Inr_iff [simp]: "seg parts n = Inr () \<longleftrightarrow> length parts = n"
  by (simp add: seg_def)

lemma as_char_no_sep [simp]: "as_char k \<noteq> CHR ''/''" "CHR ''/'' \<noteq> as_char k"
  by (cases k; simp add: as_char_def)+

lemma from_char_as_char [simp]: "from_char [as_char k] = Some k"
  by (cases k) (simp_all add: from_char_def as_char_def)

lemma from_char_Some_iff: "from_char c = Some k \<longleftrightarrow> c = [as_char k]"
  by (cases k) (auto simp: from_char_def as_char_def)

lemma split_once_hex: "split_once (CHR ''.'') (hex j @ CHR ''.'' # t) = Some (hex j, t)"
  by (simp add: split_once_Some_iff)

lemmas parse_part_defs = parse_shard_job_def parse_chain_def parse_payload_def parse_lease_def
  parse_delay_def parse_termidx_def parse_quarantine_def parse_meta_def

fun key_parts :: "key \<Rightarrow> string list" where
  "key_parts (KeyJob s j) = [''jobs'', hex s, hex j]"
| "key_parts (KeyPayload j d) = [''payloads'', hex j, hex d]"
| "key_parts (KeyClaim s j g) = [''claims'', hex s, hex j, hex g]"
| "key_parts (KeyFail s j g) = [''fails'', hex s, hex j, hex g]"
| "key_parts (KeyLeaseIndex b s j g) = [''leases'', hex b, hex s, hex j @ ''.'' @ hex g]"
| "key_parts (KeyDelayIndex b s j) = [''delayed'', hex b, hex s, hex j]"
| "key_parts (KeyReceipt s j) = [''receipts'', hex s, hex j]"
| "key_parts (KeyDead s j) = [''dead'', hex s, hex j]"
| "key_parts (KeyTermIndex b k s j) = [''termidx'', hex b, [as_char k], hex s, hex j]"
| "key_parts (KeyQuarantine b q) = [''quarantine'', hex b, hex q]"
| "key_parts (KeyBeacon n) = [''meta'', ''clock'', hex n]"
| "key_parts (KeyTail s j) = [''tails'', hex s, hex j]"
| "key_parts KeyFormat = [''meta'', ''FORMAT'']"
| "key_parts KeyWatermark = [''meta'', ''watermark'']"

lemma split_show_key: "split_on (CHR ''/'') (show_key k) = key_parts k"
  by (cases k) simp_all

lemma parse_show_key: "parse_key (show_key k) = Inr k"
  by (cases k) (simp_all add: parse_key_def split_show_key parse_part_defs seg_def split_once_hex del: show_key.simps)

lemma hex_dvd [simp]:
  "8 dvd LENGTH(16)" "8 dvd LENGTH(32)" "8 dvd LENGTH(64)" "8 dvd LENGTH(128)" "8 dvd LENGTH(256)"
  by simp_all

lemma list_lengths:
  "length xs = 2 \<longleftrightarrow> (\<exists>a b. xs = [a, b])"
  "length xs = 3 \<longleftrightarrow> (\<exists>a b c. xs = [a, b, c])"
  "length xs = 4 \<longleftrightarrow> (\<exists>a b c d. xs = [a, b, c, d])"
  "length xs = 5 \<longleftrightarrow> (\<exists>a b c d e. xs = [a, b, c, d, e])"
  by (auto simp: numeral_eq_Suc length_Suc_conv)

lemma parse_key_parts: "parse_key s = Inr k \<Longrightarrow> split_on (CHR ''/'') s = key_parts k"
  unfolding parse_key_def Let_def
  by (auto simp: parse_part_defs sum_bind_Inr_iff list_lengths hex_field_Inr_iff split_once_Some_iff
      from_char_Some_iff simp del: length_0_conv split: if_splits)

lemma parse_key_Inr_iff: "parse_key s = Inr k \<longleftrightarrow> s = show_key k"
  using parse_key_parts parse_show_key split_show_key join_split_on by metis

lemma show_key_inject [simp]: "show_key k = show_key k' \<longleftrightarrow> k = k'"
  using parse_show_key by (metis sum.inject(2))

lemma prefix_same_length:
  "length a = length b \<Longrightarrow> prefix (a @ x) (b @ y) \<longleftrightarrow> a = b \<and> prefix x y"
  by (induction a b rule: list_induct2) auto

lemma prefix_hex_append:
  fixes v w :: "'a::len word"
  assumes "8 dvd LENGTH('a)"
  shows "prefix (hex v @ x) (hex w @ y) \<longleftrightarrow> v = w \<and> prefix x y"
  using assms by (simp add: prefix_same_length)

lemma hex_append_less:
  fixes v w :: "'a::len word"
  assumes "8 dvd LENGTH('a)"
  shows "hex v @ x < hex w @ y \<longleftrightarrow> v < w \<or> v = w \<and> x < y"
  using assms by (simp add: append_less_same_length hex_less_iff)

section \<open>Lemmas: shards\<close>

lemma power_of_two_word:
  fixes w :: "'a::len word"
  assumes "is_power_of_two w"
  shows "unat w = 2 ^ trailing_zeros w"
proof -
  obtain k where k: "filter (bit w) [0..<LENGTH('a)] = [k]"
    using assms by (auto simp: is_power_of_two_def count_ones_def length_Suc_conv)
  then have bits: "i < LENGTH('a) \<and> bit w i \<longleftrightarrow> i = k" for i
  proof -
    have "i < LENGTH('a) \<and> bit w i \<longleftrightarrow> i \<in> set (filter (bit w) [0..<LENGTH('a)])"
      by auto
    then show ?thesis
      unfolding k by simp
  qed
  have kl: "k < LENGTH('a)" and bk: "bit w k"
    using bits [of k] by simp_all
  have "w = push_bit k 1"
  proof (rule bit_word_eqI)
    fix n assume "n < LENGTH('a)"
    then show "bit w n = bit (push_bit k (1 :: 'a word)) n"
      using bits [of n] kl by (auto simp: bit_simps)
  qed
  have "[0..<LENGTH('a)] = [0..<k] @ k # [Suc k..<LENGTH('a)]"
    using kl upt_add_eq_append [of 0 k "LENGTH('a) - k"] by (simp add: upt_conv_Cons)
  moreover have "\<forall>i \<in> set [0..<k]. \<not> bit w i"
    using bits kl by (metis atLeastLessThan_iff less_trans nat_neq_iff set_upt)
  ultimately have "trailing_zeros w = k"
    using bk by (simp add: trailing_zeros_def takeWhile_append)
  moreover have "unat w = 2 ^ k mod 2 ^ LENGTH('a)"
    unfolding \<open>w = push_bit k 1\<close> unsigned_push_bit_eq by (simp add: take_bit_eq_mod push_bit_eq_mult)
  ultimately show ?thesis
    using kl by simp
qed

lemma compute_shard_Some_iff:
  "compute_shard H q j c = Some s \<longleftrightarrow>
     is_power_of_two c \<and> c \<le> 65536
     \<and> unat s = be_nat (take 2 (to_be_bytes (H (as_bytes ''StowQ-1-shard'' @ [0] @ to_be_bytes q
                  @ to_be_bytes j)))) mod unat c"
proof (cases "is_power_of_two c \<and> c \<le> 65536")
  case True
  define k where "k = trailing_zeros c"
  define bs where "bs = take 2 (to_be_bytes (H (as_bytes ''StowQ-1-shard'' @ [0] @ to_be_bytes q @ to_be_bytes j)))"
  define val where "val = (from_be_bytes bs :: u16)"
  have c: "unat c = 2 ^ k"
    using True by (simp add: power_of_two_word k_def)
  then have "(2 :: nat) ^ k \<le> 2 ^ 16"
    using True by (simp add: word_le_nat_alt)
  then have k16: "k \<le> 16"
    using power_le_imp_le_exp [of 2 k 16] by simp
  have val: "unat val = be_nat bs"
    unfolding val_def by (rule unat_from_be_bytes) (simp add: bs_def)
  have "val AND (push_bit k 1 - 1) = take_bit k val"
    by (simp add: take_bit_eq_mask mask_eq_exp_minus_1)
  moreover have "take_bit 16 val = val"
    by (simp add: take_bit_word_eq_self)
  ultimately have "compute_shard H q j c = Some (take_bit k val)"
    using True k16 by (auto simp: compute_shard_def Let_def k_def bs_def val_def)
  moreover have "unat (take_bit k val) = be_nat bs mod unat c"
    by (simp only: unsigned_take_bit_eq val c) (simp only: take_bit_eq_mod)
  ultimately show ?thesis
    using True by (auto simp: word_unat_eq_iff bs_def)
qed (auto simp: compute_shard_def)

text \<open>The entries of \<open>termidx\<close> sort by bucket, then by the letter of the kind. The comment in \<open>gc\<close>
  (\<open>stowq-core/src/lib.rs\<close>, line 2846) says that the order of the buckets in hexadecimal is not numeric;
  they are printed with a fixed width, so it is.\<close>

lemma termidx_order_numeric:
  "show_key (KeyTermIndex b k s j) < show_key (KeyTermIndex b' k' s' j') \<longleftrightarrow>
     b < b' \<or> b = b' \<and> (as_char k < as_char k' \<or> k = k' \<and> (s < s' \<or> s = s' \<and> j < j'))"
  by (cases k; cases k') (auto simp: hex_append_less hex_less_iff as_char_def)

section \<open>Listing prefixes\<close>

text \<open>The prefixes under which the queue lists the objects of a shard and the claims of a job.\<close>

definition jobs_prefix :: "u16 \<Rightarrow> string" where
  "jobs_prefix shard = ''jobs/'' @ hex shard @ ''/''"

definition claims_prefix :: "u16 \<Rightarrow> id16 \<Rightarrow> string" where
  "claims_prefix shard job_id = ''claims/'' @ hex shard @ ''/'' @ hex job_id @ ''/''"

section \<open>Properties\<close>

text \<open>C30. Parsing and printing of keys are mutually inverse: a string is accepted exactly when it is
  the canonical print of the key it parses to. Every key survives a round trip, no key has two
  spellings, and no two keys share one.\<close>

theorem key_round_trip: "parse_key s = Inr k \<longleftrightarrow> s = show_key k"
  by (rule parse_key_Inr_iff)

text \<open>C33. In each family of keys with fields other than \<open>termidx\<close>, the byte order of the keys is the numeric
  order of their fields, from the first to the last: lease, delay and quarantine entries sort by bucket
  first (so a listing meets the oldest bucket first), and the claims and failures of one job by
  generation.\<close>

theorem key_order_numeric:
  "(show_key (KeyLeaseIndex b s j g) < show_key (KeyLeaseIndex b' s' j' g') \<longleftrightarrow>
      b < b' \<or> b = b' \<and> (s < s' \<or> s = s' \<and> (j < j' \<or> j = j' \<and> g < g')))
   \<and> (show_key (KeyDelayIndex b s j) < show_key (KeyDelayIndex b' s' j') \<longleftrightarrow>
      b < b' \<or> b = b' \<and> (s < s' \<or> s = s' \<and> j < j'))
   \<and> (show_key (KeyClaim s j g) < show_key (KeyClaim s' j' g') \<longleftrightarrow>
      s < s' \<or> s = s' \<and> (j < j' \<or> j = j' \<and> g < g'))
   \<and> (show_key (KeyFail s j g) < show_key (KeyFail s' j' g') \<longleftrightarrow>
      s < s' \<or> s = s' \<and> (j < j' \<or> j = j' \<and> g < g'))
   \<and> (show_key (KeyJob s j) < show_key (KeyJob s' j') \<longleftrightarrow> s < s' \<or> s = s' \<and> j < j')
   \<and> (show_key (KeyReceipt s j) < show_key (KeyReceipt s' j') \<longleftrightarrow> s < s' \<or> s = s' \<and> j < j')
   \<and> (show_key (KeyDead s j) < show_key (KeyDead s' j') \<longleftrightarrow> s < s' \<or> s = s' \<and> j < j')
   \<and> (show_key (KeyTail s j) < show_key (KeyTail s' j') \<longleftrightarrow> s < s' \<or> s = s' \<and> j < j')
   \<and> (show_key (KeyPayload j d) < show_key (KeyPayload j' d') \<longleftrightarrow> j < j' \<or> j = j' \<and> d < d')
   \<and> (show_key (KeyQuarantine b j) < show_key (KeyQuarantine b' j') \<longleftrightarrow> b < b' \<or> b = b' \<and> j < j')
   \<and> (show_key (KeyBeacon j) < show_key (KeyBeacon j') \<longleftrightarrow> j < j')"
  by (auto simp: hex_append_less hex_less_iff)

text \<open>C34. The key spaces are disjoint: the keys that a listing of a claim chain can return are the
  claim keys of that job and nothing else, and the listing of a shard returns job keys of that
  shard only.\<close>

theorem listing_prefixes_exact:
  "(prefix (claims_prefix s j) (show_key k) \<longleftrightarrow> (\<exists>g. k = KeyClaim s j g))
   \<and> (prefix (jobs_prefix s) (show_key k) \<longleftrightarrow> (\<exists>j'. k = KeyJob s j'))"
  by (cases k) (auto simp: claims_prefix_def jobs_prefix_def prefix_hex_append)

text \<open>C35. Shard derivation: for a power of two up to 65536 the shard is the first two hash bytes
  reduced modulo the shard count, hence below it; every other count is refused by the assertion.\<close>

theorem shard_of_job:
  "compute_shard H q j c = Some s \<longleftrightarrow>
     is_power_of_two c \<and> c \<le> 65536
     \<and> unat s = be_nat (take 2 (to_be_bytes (H (as_bytes ''StowQ-1-shard'' @ [0] @ to_be_bytes q
                  @ to_be_bytes j)))) mod unat c"
  by (rule compute_shard_Some_iff)

end
