(* ===== verification/Records.thy ===== *)
theory Records
  imports Cbor Key_Grammar
begin

text \<open>
  The record types of the crate \<open>stowq-format\<close> (\<open>lib.rs\<close>): the eight records, validation of the
  format record, the digest, the direct canonical encoder \<open>encode\<close>, and the reference encoder
  over CBOR values (\<open>fields\<close>, \<open>value_encode\<close>). The lemmas show that the two encoders write the
  same bytes: the hand-ordered fields of the direct encoder are in canonical map order.
\<close>

section \<open>Constants and errors\<close>

definition magic_number :: u64 where
  "magic_number = 0x53544F5751312D00"

definition major_version :: u64 where
  "major_version = 1"

definition minor_version :: u64 where
  "minor_version = 0"

definition known_feature_bits :: u64 where
  "known_feature_bits = 1 OR 2"

datatype record_error =
    RecCbor cbor_error
  | RecMagic
  | RecVersion u64 u64
  | RecEnvelope
  | RecType
  | RecDigest
  | RecField string
  | RecUnknownField string
  | RecMissingField string

definition type_name :: "u64 \<Rightarrow> string option" where
  "type_name t =
     (if t = 1 then Some ''format''
      else if t = 2 then Some ''job''
      else if t = 3 then Some ''claim''
      else if t = 4 then Some ''fail''
      else if t = 5 then Some ''receipt''
      else if t = 6 then Some ''dead''
      else if t = 7 then Some ''watermark''
      else if t = 8 then Some ''quarantine''
      else None)"

definition record_digest :: "hash_fn \<Rightarrow> string \<Rightarrow> bytes \<Rightarrow> digest" where
  "record_digest H type_str body = H (as_bytes ''StowQ-1-'' @ as_bytes type_str @ [0] @ body)"

section \<open>Records\<close>

record format_record =
  fmt_shard_count :: u32
  fmt_lease_bucket_width_ns :: u64
  fmt_delayed_bucket_width_ns :: u64
  fmt_terminal_bucket_width_ns :: u64
  fmt_inline_limit :: u64
  fmt_required_feature_bits :: u64

definition format_validate :: "format_record \<Rightarrow> record_error + unit" where
  "format_validate r =
     (if fmt_shard_count r = 0 \<or> \<not> is_power_of_two (fmt_shard_count r) \<or> fmt_shard_count r > 65536
      then Inl (RecField ''shard_count'')
      else if fmt_lease_bucket_width_ns r = 0 \<or> fmt_delayed_bucket_width_ns r = 0
        \<or> fmt_terminal_bucket_width_ns r = 0
      then Inl (RecField ''bucket width'')
      else if fmt_required_feature_bits r AND (NOT known_feature_bits) \<noteq> 0
      then Inl (RecField ''required_feature_bits'')
      else Inr ())"

record job_record =
  job_job_id :: id16
  job_maximum_attempts :: u64
  job_content_type :: string
  job_created_store_time_ns :: u64
  job_not_before_ns :: "u64 option"
  job_payload_digest :: digest
  job_payload_length :: u64
  job_payload_inline :: "bytes option"
  job_payload_key :: "string option"

record claim_basis =
  basis_prev_store_time_ns :: u64
  basis_prev_duration_ns :: u64
  basis_observed_watermark_ns :: u64

record claim_record =
  claim_job_id :: id16
  claim_generation :: u64
  claim_attempt :: u64
  claim_worker_id :: string
  claim_worker_token :: id16
  claim_lease_duration_ns :: u64
  claim_continuation :: bool
  claim_basis_of :: "claim_basis option"
  claim_prev_token :: "id16 option"

record fail_record =
  fail_job_id :: id16
  fail_generation :: u64
  fail_reason :: u64
  fail_attempt :: u64
  fail_retry_not_before_ns :: u64

record receipt_record =
  receipt_job_id :: id16
  receipt_generation :: u64
  receipt_attempt :: u64
  receipt_worker_id :: string
  receipt_worker_token :: id16
  receipt_payload_digest :: digest
  receipt_output_digests :: "digest list"

record dead_record =
  dead_job_id :: id16
  dead_generation :: u64
  dead_attempt :: u64
  dead_reason :: u64

record quarantine_record =
  quar_qid :: id16
  quar_source_key :: string
  quar_reason :: u64
  quar_observed_store_ns :: u64
  quar_detail :: "u64 option"

record watermark_record =
  wm_highest_observed_wall_bucket :: u64
  wm_sequence :: u64

datatype stow_record =
    RecordFormat format_record
  | RecordJob job_record
  | RecordClaim claim_record
  | RecordFail fail_record
  | RecordReceipt receipt_record
  | RecordDead dead_record
  | RecordWatermark watermark_record
  | RecordQuarantine quarantine_record

fun type_number :: "stow_record \<Rightarrow> u64" where
  "type_number (RecordFormat _) = 1"
| "type_number (RecordJob _) = 2"
| "type_number (RecordClaim _) = 3"
| "type_number (RecordFail _) = 4"
| "type_number (RecordReceipt _) = 5"
| "type_number (RecordDead _) = 6"
| "type_number (RecordWatermark _) = 7"
| "type_number (RecordQuarantine _) = 8"

section \<open>The direct encoder\<close>

definition put_bytes :: "bytes \<Rightarrow> bytes" where
  "put_bytes b = push_head 2 (of_nat (length b)) @ b"

definition put_text :: "string \<Rightarrow> bytes" where
  "put_text t = push_head 3 (of_nat (length t)) @ as_bytes t"

definition put_key :: "string \<Rightarrow> u64 \<Rightarrow> bytes" where
  "put_key k v = put_text k @ push_head 0 v"

definition put_key_bytes :: "string \<Rightarrow> bytes \<Rightarrow> bytes" where
  "put_key_bytes k v = put_text k @ put_bytes v"

definition put_key_text :: "string \<Rightarrow> string \<Rightarrow> bytes" where
  "put_key_text k v = put_text k @ put_text v"

definition put_key_bool :: "string \<Rightarrow> bool \<Rightarrow> bytes" where
  "put_key_bool k v = put_text k @ [if v then 0xF5 else 0xF4]"

definition put_opt :: "('a \<Rightarrow> bytes) \<Rightarrow> 'a option \<Rightarrow> bytes" where
  "put_opt f v = (case v of None \<Rightarrow> [] | Some x \<Rightarrow> f x)"

definition some_count :: "'a option \<Rightarrow> u64" where
  "some_count v = (case v of None \<Rightarrow> 0 | Some _ \<Rightarrow> 1)"

definition write_basis :: "claim_basis \<Rightarrow> bytes" where
  "write_basis b =
     push_head 5 3
     @ put_key ''prev_duration_ns'' (basis_prev_duration_ns b)
     @ put_key ''prev_store_time_ns'' (basis_prev_store_time_ns b)
     @ put_key ''observed_watermark_ns'' (basis_observed_watermark_ns b)"

fun write_fields :: "stow_record \<Rightarrow> bytes" where
  "write_fields (RecordFormat r) =
     push_head 5 6
     @ put_key ''shard_count'' (ucast (fmt_shard_count r))
     @ put_key ''inline_limit'' (fmt_inline_limit r)
     @ put_key ''lease_bucket_width_ns'' (fmt_lease_bucket_width_ns r)
     @ put_key ''required_feature_bits'' (fmt_required_feature_bits r)
     @ put_key ''delayed_bucket_width_ns'' (fmt_delayed_bucket_width_ns r)
     @ put_key ''terminal_bucket_width_ns'' (fmt_terminal_bucket_width_ns r)"
| "write_fields (RecordJob r) =
     push_head 5 (6 + some_count (job_not_before_ns r) + some_count (job_payload_inline r)
       + some_count (job_payload_key r))
     @ put_key_bytes ''job_id'' (to_be_bytes (job_job_id r))
     @ put_opt (put_key_text ''payload_key'') (job_payload_key r)
     @ put_key_text ''content_type'' (job_content_type r)
     @ put_opt (put_key ''not_before_ns'') (job_not_before_ns r)
     @ put_key_bytes ''payload_digest'' (to_be_bytes (job_payload_digest r))
     @ put_opt (put_key_bytes ''payload_inline'') (job_payload_inline r)
     @ put_key ''payload_length'' (job_payload_length r)
     @ put_key ''maximum_attempts'' (job_maximum_attempts r)
     @ put_key ''created_store_time_ns'' (job_created_store_time_ns r)"
| "write_fields (RecordClaim r) =
     push_head 5 (7 + some_count (claim_basis_of r) + some_count (claim_prev_token r))
     @ put_opt (\<lambda>b. put_text ''basis'' @ write_basis b) (claim_basis_of r)
     @ put_key_bytes ''job_id'' (to_be_bytes (claim_job_id r))
     @ put_key ''attempt'' (claim_attempt r)
     @ put_key_text ''worker_id'' (claim_worker_id r)
     @ put_key ''generation'' (claim_generation r)
     @ put_opt (\<lambda>pt. put_key_bytes ''prev_token'' (to_be_bytes pt)) (claim_prev_token r)
     @ put_key_bool ''continuation'' (claim_continuation r)
     @ put_key_bytes ''worker_token'' (to_be_bytes (claim_worker_token r))
     @ put_key ''lease_duration_ns'' (claim_lease_duration_ns r)"
| "write_fields (RecordFail r) =
     push_head 5 5
     @ put_key_bytes ''job_id'' (to_be_bytes (fail_job_id r))
     @ put_key ''reason'' (fail_reason r)
     @ put_key ''attempt'' (fail_attempt r)
     @ put_key ''generation'' (fail_generation r)
     @ put_key ''retry_not_before_ns'' (fail_retry_not_before_ns r)"
| "write_fields (RecordReceipt r) =
     push_head 5 (6 + (if receipt_output_digests r = [] then 0 else 1))
     @ put_key_bytes ''job_id'' (to_be_bytes (receipt_job_id r))
     @ put_key ''attempt'' (receipt_attempt r)
     @ put_key_text ''worker_id'' (receipt_worker_id r)
     @ put_key ''generation'' (receipt_generation r)
     @ put_key_bytes ''worker_token'' (to_be_bytes (receipt_worker_token r))
     @ (if receipt_output_digests r = [] then []
        else put_text ''output_digests''
          @ push_head 4 (of_nat (length (receipt_output_digests r)))
          @ concat (map (\<lambda>d. put_bytes (to_be_bytes d)) (receipt_output_digests r)))
     @ put_key_bytes ''payload_digest'' (to_be_bytes (receipt_payload_digest r))"
| "write_fields (RecordDead r) =
     push_head 5 4
     @ put_key_bytes ''job_id'' (to_be_bytes (dead_job_id r))
     @ put_key ''reason'' (dead_reason r)
     @ put_key ''attempt'' (dead_attempt r)
     @ put_key ''generation'' (dead_generation r)"
| "write_fields (RecordWatermark r) =
     push_head 5 2
     @ put_key ''sequence'' (wm_sequence r)
     @ put_key ''highest_observed_wall_bucket'' (wm_highest_observed_wall_bucket r)"
| "write_fields (RecordQuarantine r) =
     push_head 5 (4 + some_count (quar_detail r))
     @ put_key_bytes ''qid'' (to_be_bytes (quar_qid r))
     @ put_opt (put_key ''detail'') (quar_detail r)
     @ put_key ''reason'' (quar_reason r)
     @ put_key_text ''source_key'' (quar_source_key r)
     @ put_key ''observed_store_ns'' (quar_observed_store_ns r)"

definition encode_body :: "stow_record \<Rightarrow> id16 \<Rightarrow> tag8 \<Rightarrow> bytes" where
  "encode_body r queue_id tag =
     push_head 4 7
     @ push_head 0 magic_number
     @ push_head 0 major_version
     @ push_head 0 minor_version
     @ put_bytes (to_be_bytes queue_id)
     @ put_bytes (to_be_bytes tag)
     @ push_head 0 (type_number r)
     @ write_fields r"

definition encode :: "hash_fn \<Rightarrow> stow_record \<Rightarrow> id16 \<Rightarrow> tag8 \<Rightarrow> bytes" where
  "encode H r queue_id tag =
     (let body = encode_body r queue_id tag;
          digest = H (as_bytes ''StowQ-1-'' @ as_bytes (the (type_name (type_number r))) @ [0] @ body)
      in body @ [0x58, 32] @ to_be_bytes digest)"

section \<open>The reference encoder\<close>

definition kv_u64 :: "string \<Rightarrow> u64 \<Rightarrow> (cvalue \<times> cvalue) list" where
  "kv_u64 k v = [(Text k, Uint v)]"

definition kv_bytes :: "string \<Rightarrow> bytes \<Rightarrow> (cvalue \<times> cvalue) list" where
  "kv_bytes k v = [(Text k, Bytes v)]"

definition kv_text :: "string \<Rightarrow> string \<Rightarrow> (cvalue \<times> cvalue) list" where
  "kv_text k v = [(Text k, Text v)]"

definition kv_bool :: "string \<Rightarrow> bool \<Rightarrow> (cvalue \<times> cvalue) list" where
  "kv_bool k v = [(Text k, Bool v)]"

definition kv_opt :: "('a \<Rightarrow> (cvalue \<times> cvalue) list) \<Rightarrow> 'a option \<Rightarrow> (cvalue \<times> cvalue) list" where
  "kv_opt f v = (case v of None \<Rightarrow> [] | Some x \<Rightarrow> f x)"

fun fields :: "stow_record \<Rightarrow> (cvalue \<times> cvalue) list" where
  "fields (RecordFormat r) =
     kv_u64 ''shard_count'' (ucast (fmt_shard_count r))
     @ kv_u64 ''lease_bucket_width_ns'' (fmt_lease_bucket_width_ns r)
     @ kv_u64 ''delayed_bucket_width_ns'' (fmt_delayed_bucket_width_ns r)
     @ kv_u64 ''terminal_bucket_width_ns'' (fmt_terminal_bucket_width_ns r)
     @ kv_u64 ''inline_limit'' (fmt_inline_limit r)
     @ kv_u64 ''required_feature_bits'' (fmt_required_feature_bits r)"
| "fields (RecordJob r) =
     kv_bytes ''job_id'' (to_be_bytes (job_job_id r))
     @ kv_u64 ''maximum_attempts'' (job_maximum_attempts r)
     @ kv_text ''content_type'' (job_content_type r)
     @ kv_u64 ''created_store_time_ns'' (job_created_store_time_ns r)
     @ kv_opt (kv_u64 ''not_before_ns'') (job_not_before_ns r)
     @ kv_bytes ''payload_digest'' (to_be_bytes (job_payload_digest r))
     @ kv_u64 ''payload_length'' (job_payload_length r)
     @ kv_opt (kv_bytes ''payload_inline'') (job_payload_inline r)
     @ kv_opt (kv_text ''payload_key'') (job_payload_key r)"
| "fields (RecordClaim r) =
     kv_bytes ''job_id'' (to_be_bytes (claim_job_id r))
     @ kv_u64 ''generation'' (claim_generation r)
     @ kv_u64 ''attempt'' (claim_attempt r)
     @ kv_text ''worker_id'' (claim_worker_id r)
     @ kv_bytes ''worker_token'' (to_be_bytes (claim_worker_token r))
     @ kv_u64 ''lease_duration_ns'' (claim_lease_duration_ns r)
     @ kv_bool ''continuation'' (claim_continuation r)
     @ kv_opt (\<lambda>b. [(Text ''basis'', Map
         (kv_u64 ''prev_store_time_ns'' (basis_prev_store_time_ns b)
          @ kv_u64 ''prev_duration_ns'' (basis_prev_duration_ns b)
          @ kv_u64 ''observed_watermark_ns'' (basis_observed_watermark_ns b)))]) (claim_basis_of r)
     @ kv_opt (\<lambda>pt. kv_bytes ''prev_token'' (to_be_bytes pt)) (claim_prev_token r)"
| "fields (RecordFail r) =
     kv_bytes ''job_id'' (to_be_bytes (fail_job_id r))
     @ kv_u64 ''generation'' (fail_generation r)
     @ kv_u64 ''reason'' (fail_reason r)
     @ kv_u64 ''attempt'' (fail_attempt r)
     @ kv_u64 ''retry_not_before_ns'' (fail_retry_not_before_ns r)"
| "fields (RecordReceipt r) =
     kv_bytes ''job_id'' (to_be_bytes (receipt_job_id r))
     @ kv_u64 ''generation'' (receipt_generation r)
     @ kv_u64 ''attempt'' (receipt_attempt r)
     @ kv_text ''worker_id'' (receipt_worker_id r)
     @ kv_bytes ''worker_token'' (to_be_bytes (receipt_worker_token r))
     @ kv_bytes ''payload_digest'' (to_be_bytes (receipt_payload_digest r))
     @ (if receipt_output_digests r = [] then []
        else [(Text ''output_digests'',
               Array (map (\<lambda>d. Bytes (to_be_bytes d)) (receipt_output_digests r)))])"
| "fields (RecordDead r) =
     kv_bytes ''job_id'' (to_be_bytes (dead_job_id r))
     @ kv_u64 ''generation'' (dead_generation r)
     @ kv_u64 ''attempt'' (dead_attempt r)
     @ kv_u64 ''reason'' (dead_reason r)"
| "fields (RecordWatermark r) =
     kv_u64 ''highest_observed_wall_bucket'' (wm_highest_observed_wall_bucket r)
     @ kv_u64 ''sequence'' (wm_sequence r)"
| "fields (RecordQuarantine r) =
     kv_bytes ''qid'' (to_be_bytes (quar_qid r))
     @ kv_text ''source_key'' (quar_source_key r)
     @ kv_u64 ''reason'' (quar_reason r)
     @ kv_u64 ''observed_store_ns'' (quar_observed_store_ns r)
     @ kv_opt (kv_u64 ''detail'') (quar_detail r)"

definition value_encode :: "hash_fn \<Rightarrow> stow_record \<Rightarrow> id16 \<Rightarrow> tag8 \<Rightarrow> bytes" where
  "value_encode H r queue_id tag =
     (let body_bytes = cbor_encode (Array
            [Uint magic_number, Uint major_version, Uint minor_version,
             Bytes (to_be_bytes queue_id), Bytes (to_be_bytes tag),
             Uint (type_number r), Map (fields r)]);
          digest = record_digest H (the (type_name (type_number r))) body_bytes
      in body_bytes @ [0x58, 32] @ to_be_bytes digest)"

end
