(* ===== verification/Direct_Decode.thy ===== *)
theory Direct_Decode
  imports Records
begin

text \<open>
  The module \<open>direct\<close> of the crate \<open>stowq-format\<close>: the decoder from bytes to records without an
  intermediate value tree. The local variables that the closures of \<open>read_map\<close> fill in
  (\<open>Option\<close>s, or a \<open>seen\<close> array with a default record) are one finite map from field names to
  decoded values; an unset variable is an absent entry. The reader is the input left to read, as
  in theory \<open>Cbor\<close>.
\<close>

section \<open>Field tables\<close>

definition format_keys :: "string list" where
  "format_keys = [''shard_count'', ''inline_limit'', ''lease_bucket_width_ns'',
     ''required_feature_bits'', ''delayed_bucket_width_ns'', ''terminal_bucket_width_ns'']"

definition job_keys :: "string list" where
  "job_keys = [''job_id'', ''payload_key'', ''content_type'', ''not_before_ns'', ''payload_digest'',
     ''payload_inline'', ''payload_length'', ''maximum_attempts'', ''created_store_time_ns'']"

definition claim_keys :: "string list" where
  "claim_keys = [''basis'', ''job_id'', ''attempt'', ''worker_id'', ''generation'', ''prev_token'',
     ''continuation'', ''worker_token'', ''lease_duration_ns'']"

definition basis_keys :: "string list" where
  "basis_keys = [''prev_duration_ns'', ''prev_store_time_ns'', ''observed_watermark_ns'']"

definition fail_keys :: "string list" where
  "fail_keys = [''job_id'', ''reason'', ''attempt'', ''generation'', ''retry_not_before_ns'']"

definition receipt_keys :: "string list" where
  "receipt_keys = [''job_id'', ''attempt'', ''worker_id'', ''generation'', ''worker_token'',
     ''output_digests'', ''payload_digest'']"

definition dead_keys :: "string list" where
  "dead_keys = [''job_id'', ''reason'', ''attempt'', ''generation'']"

definition watermark_keys :: "string list" where
  "watermark_keys = [''sequence'', ''highest_observed_wall_bucket'']"

definition quarantine_keys :: "string list" where
  "quarantine_keys = [''qid'', ''detail'', ''reason'', ''source_key'', ''observed_store_ns'']"

fun table_pos :: "string list \<Rightarrow> string \<Rightarrow> nat option" where
  "table_pos [] key = None"
| "table_pos (k # ks) key = (if k = key then Some 0 else map_option Suc (table_pos ks key))"

section \<open>Item readers\<close>

definition cbor_head :: "bytes \<Rightarrow> record_error + (byte \<times> u64) \<times> bytes" where
  "cbor_head bs = map_err RecCbor (read_head bs)"

definition cbor_take :: "nat \<Rightarrow> bytes \<Rightarrow> record_error + bytes \<times> bytes" where
  "cbor_take n bs = map_err RecCbor (take_bytes n bs)"

definition read_uint :: "bytes \<Rightarrow> record_error + u64 \<times> bytes" where
  "read_uint bs =
     sum_bind (cbor_head bs) (\<lambda>((major, v), r).
       if major \<noteq> 0 then Inl (RecField ''uint'') else Inr (v, r))"

definition env_uint :: "bytes \<Rightarrow> record_error + u64 \<times> bytes" where
  "env_uint bs =
     sum_bind (cbor_head bs) (\<lambda>((major, v), r).
       if major \<noteq> 0 then Inl RecEnvelope else Inr (v, r))"

definition env_bytes :: "bytes \<Rightarrow> record_error + bytes \<times> bytes" where
  "env_bytes bs =
     sum_bind (cbor_head bs) (\<lambda>((major, len), r).
       if major \<noteq> 2 then Inl RecEnvelope else cbor_take (unat len) r)"

definition read_bool :: "bytes \<Rightarrow> record_error + bool \<times> bytes" where
  "read_bool bs =
     sum_bind (cbor_head bs) (\<lambda>((major, v), r).
       if major = 7 \<and> v = 20 then Inr (False, r)
       else if major = 7 \<and> v = 21 then Inr (True, r)
       else Inl (RecField ''bool''))"

definition read_borrowed_bytes :: "bytes \<Rightarrow> record_error + bytes \<times> bytes" where
  "read_borrowed_bytes bs =
     sum_bind (cbor_head bs) (\<lambda>((major, len), r).
       if major \<noteq> 2 then Inl (RecField ''bytes'') else cbor_take (unat len) r)"

definition read_borrowed_text :: "bytes \<Rightarrow> record_error + string \<times> bytes" where
  "read_borrowed_text bs =
     sum_bind (cbor_head bs) (\<lambda>((major, len), r).
       if major \<noteq> 3 then Inl (RecField ''text'')
       else sum_bind (cbor_take (unat len) r) (\<lambda>(b, r).
         if utf8_valid b then Inr (from_bytes b, r) else Inl (RecCbor InvalidUtf8)))"

definition fixed_word :: "bytes \<Rightarrow> record_error + 'a::len word" where
  "fixed_word b =
     (if length b \<noteq> LENGTH('a) div 8 then Inl (RecField ''byte width'') else Inr (from_be_bytes b))"

definition read_fixed :: "bytes \<Rightarrow> record_error + 'a::len word \<times> bytes" where
  "read_fixed bs =
     sum_bind (read_borrowed_bytes bs) (\<lambda>(b, r). sum_bind (fixed_word b) (\<lambda>w. Inr (w, r)))"

section \<open>Field maps\<close>

datatype field =
    FUint u64
  | FId id16
  | FDigest digest
  | FBytes bytes
  | FText string
  | FBool bool
  | FBasis claim_basis
  | FDigests "digest list"

type_synonym field_map = "string \<Rightarrow> field option"

definition read_field :: "('a \<Rightarrow> field) \<Rightarrow> (bytes \<Rightarrow> record_error + 'a \<times> bytes) \<Rightarrow> bytes
    \<Rightarrow> record_error + field \<times> bytes" where
  "read_field c rd bs = sum_bind (rd bs) (\<lambda>(x, r). Inr (c x, r))"

type_synonym value_reader = "string \<Rightarrow> bytes \<Rightarrow> record_error + field \<times> bytes"

fun read_pairs_loop :: "string list \<Rightarrow> value_reader \<Rightarrow> nat \<Rightarrow> nat option \<Rightarrow> bytes \<Rightarrow> field_map
    \<Rightarrow> record_error + field_map \<times> bytes" where
  "read_pairs_loop table reader 0 prev bs st = Inr (st, bs)"
| "read_pairs_loop table reader (Suc n) prev bs st =
     sum_bind (read_borrowed_text bs) (\<lambda>(key, r).
       case table_pos table key of
         None \<Rightarrow> Inl (RecUnknownField key)
       | Some pos \<Rightarrow>
           if prev = Some pos then Inl (RecCbor DuplicateMapKey)
           else if (case prev of None \<Rightarrow> False | Some p \<Rightarrow> pos < p) then Inl (RecCbor UnsortedMapKeys)
           else sum_bind (reader key r) (\<lambda>(v, r).
             read_pairs_loop table reader n (Some pos) r (st(key \<mapsto> v))))"

definition read_map :: "string list \<Rightarrow> record_error \<Rightarrow> value_reader \<Rightarrow> bytes
    \<Rightarrow> record_error + field_map \<times> bytes" where
  "read_map table non_map_err reader bs =
     sum_bind (cbor_head bs) (\<lambda>((major, n), r).
       if major \<noteq> 5 then Inl non_map_err
       else read_pairs_loop table reader (unat n) None r Map.empty)"

text \<open>Reading a filled variable back: \<open>ok_or(MissingField)\<close> at the type the reader stored.\<close>

definition need_uint :: "field_map \<Rightarrow> string \<Rightarrow> record_error + u64" where
  "need_uint m k = (case m k of Some (FUint v) \<Rightarrow> Inr v | _ \<Rightarrow> Inl (RecMissingField k))"

definition need_id :: "field_map \<Rightarrow> string \<Rightarrow> record_error + id16" where
  "need_id m k = (case m k of Some (FId v) \<Rightarrow> Inr v | _ \<Rightarrow> Inl (RecMissingField k))"

definition need_digest :: "field_map \<Rightarrow> string \<Rightarrow> record_error + digest" where
  "need_digest m k = (case m k of Some (FDigest v) \<Rightarrow> Inr v | _ \<Rightarrow> Inl (RecMissingField k))"

definition need_text :: "field_map \<Rightarrow> string \<Rightarrow> record_error + string" where
  "need_text m k = (case m k of Some (FText v) \<Rightarrow> Inr v | _ \<Rightarrow> Inl (RecMissingField k))"

definition need_bool :: "field_map \<Rightarrow> string \<Rightarrow> record_error + bool" where
  "need_bool m k = (case m k of Some (FBool v) \<Rightarrow> Inr v | _ \<Rightarrow> Inl (RecMissingField k))"

definition opt_uint :: "field_map \<Rightarrow> string \<Rightarrow> u64 option" where
  "opt_uint m k = (case m k of Some (FUint v) \<Rightarrow> Some v | _ \<Rightarrow> None)"

definition opt_id :: "field_map \<Rightarrow> string \<Rightarrow> id16 option" where
  "opt_id m k = (case m k of Some (FId v) \<Rightarrow> Some v | _ \<Rightarrow> None)"

definition opt_bytes :: "field_map \<Rightarrow> string \<Rightarrow> bytes option" where
  "opt_bytes m k = (case m k of Some (FBytes v) \<Rightarrow> Some v | _ \<Rightarrow> None)"

definition opt_text :: "field_map \<Rightarrow> string \<Rightarrow> string option" where
  "opt_text m k = (case m k of Some (FText v) \<Rightarrow> Some v | _ \<Rightarrow> None)"

definition opt_basis :: "field_map \<Rightarrow> string \<Rightarrow> claim_basis option" where
  "opt_basis m k = (case m k of Some (FBasis v) \<Rightarrow> Some v | _ \<Rightarrow> None)"

definition opt_digests :: "field_map \<Rightarrow> string \<Rightarrow> digest list option" where
  "opt_digests m k = (case m k of Some (FDigests v) \<Rightarrow> Some v | _ \<Rightarrow> None)"

section \<open>Value readers\<close>

text \<open>The last branch of each reader is the \<open>unreachable!\<close> of the source: \<open>read_map\<close> passes only
  keys of the table.\<close>

definition uint_reader :: value_reader where
  "uint_reader key bs = read_field FUint read_uint bs"

definition format_reader :: value_reader where
  "format_reader key bs =
     sum_bind (read_uint bs) (\<lambda>(v, r).
       if key = ''shard_count'' \<and> v > 65536 then Inl (RecField ''shard_count'')
       else Inr (FUint v, r))"

definition job_reader :: value_reader where
  "job_reader key bs =
     (if key = ''job_id'' then read_field FId read_fixed bs
      else if key = ''maximum_attempts'' then read_field FUint read_uint bs
      else if key = ''content_type'' then read_field FText read_borrowed_text bs
      else if key = ''created_store_time_ns'' then read_field FUint read_uint bs
      else if key = ''not_before_ns'' then read_field FUint read_uint bs
      else if key = ''payload_digest'' then read_field FDigest read_fixed bs
      else if key = ''payload_length'' then read_field FUint read_uint bs
      else if key = ''payload_inline'' then read_field FBytes read_borrowed_bytes bs
      else if key = ''payload_key'' then read_field FText read_borrowed_text bs
      else Inl (RecUnknownField key))"

definition finish_basis :: "field_map \<Rightarrow> record_error + claim_basis" where
  "finish_basis m =
     sum_bind (need_uint m ''prev_duration_ns'') (\<lambda>d.
     sum_bind (need_uint m ''prev_store_time_ns'') (\<lambda>s.
     sum_bind (need_uint m ''observed_watermark_ns'') (\<lambda>w.
       Inr \<lparr>basis_prev_store_time_ns = s, basis_prev_duration_ns = d,
            basis_observed_watermark_ns = w\<rparr>)))"

definition read_basis :: "bytes \<Rightarrow> record_error + claim_basis \<times> bytes" where
  "read_basis bs =
     sum_bind (read_map basis_keys (RecField ''basis'') uint_reader bs) (\<lambda>(m, r).
     sum_bind (finish_basis m) (\<lambda>b. Inr (b, r)))"

definition claim_reader :: value_reader where
  "claim_reader key bs =
     (if key = ''basis'' then read_field FBasis read_basis bs
      else if key = ''job_id'' then read_field FId read_fixed bs
      else if key = ''attempt'' then read_field FUint read_uint bs
      else if key = ''worker_id'' then read_field FText read_borrowed_text bs
      else if key = ''generation'' then read_field FUint read_uint bs
      else if key = ''prev_token'' then read_field FId read_fixed bs
      else if key = ''continuation'' then read_field FBool read_bool bs
      else if key = ''worker_token'' then read_field FId read_fixed bs
      else if key = ''lease_duration_ns'' then read_field FUint read_uint bs
      else Inl (RecUnknownField key))"

definition fail_reader :: value_reader where
  "fail_reader key bs =
     (if key = ''job_id'' then read_field FId read_fixed bs
      else if key = ''reason'' then read_field FUint read_uint bs
      else if key = ''attempt'' then read_field FUint read_uint bs
      else if key = ''generation'' then read_field FUint read_uint bs
      else if key = ''retry_not_before_ns'' then read_field FUint read_uint bs
      else Inl (RecUnknownField key))"

fun read_digest_items :: "nat \<Rightarrow> bytes \<Rightarrow> record_error + digest list \<times> bytes" where
  "read_digest_items 0 bs = Inr ([], bs)"
| "read_digest_items (Suc n) bs =
     sum_bind (read_fixed bs) (\<lambda>(d, r).
     sum_bind (read_digest_items n r) (\<lambda>(ds, r). Inr (d # ds, r)))"

definition read_digests :: "bytes \<Rightarrow> record_error + digest list \<times> bytes" where
  "read_digests bs =
     sum_bind (cbor_head bs) (\<lambda>((major, n), r).
       if major \<noteq> 4 then Inl (RecField ''output_digests'')
       else if n = 0 then Inl (RecField ''output_digests'')
       else read_digest_items (unat n) r)"

definition receipt_reader :: value_reader where
  "receipt_reader key bs =
     (if key = ''job_id'' then read_field FId read_fixed bs
      else if key = ''attempt'' then read_field FUint read_uint bs
      else if key = ''worker_id'' then read_field FText read_borrowed_text bs
      else if key = ''generation'' then read_field FUint read_uint bs
      else if key = ''worker_token'' then read_field FId read_fixed bs
      else if key = ''output_digests'' then read_field FDigests read_digests bs
      else if key = ''payload_digest'' then read_field FDigest read_fixed bs
      else Inl (RecUnknownField key))"

definition dead_reader :: value_reader where
  "dead_reader key bs =
     (if key = ''job_id'' then read_field FId read_fixed bs
      else if key = ''reason'' then read_field FUint read_uint bs
      else if key = ''attempt'' then read_field FUint read_uint bs
      else if key = ''generation'' then read_field FUint read_uint bs
      else Inl (RecUnknownField key))"

definition quarantine_reader :: value_reader where
  "quarantine_reader key bs =
     (if key = ''qid'' then read_field FId read_fixed bs
      else if key = ''detail'' then read_field FUint read_uint bs
      else if key = ''reason'' then read_field FUint read_uint bs
      else if key = ''source_key'' then read_field FText read_borrowed_text bs
      else if key = ''observed_store_ns'' then read_field FUint read_uint bs
      else Inl (RecUnknownField key))"

section \<open>Assembling records\<close>

definition finish_format :: "field_map \<Rightarrow> record_error + stow_record" where
  "finish_format m =
     sum_bind (need_uint m ''shard_count'') (\<lambda>sc.
     sum_bind (need_uint m ''inline_limit'') (\<lambda>il.
     sum_bind (need_uint m ''lease_bucket_width_ns'') (\<lambda>lw.
     sum_bind (need_uint m ''required_feature_bits'') (\<lambda>fb.
     sum_bind (need_uint m ''delayed_bucket_width_ns'') (\<lambda>dw.
     sum_bind (need_uint m ''terminal_bucket_width_ns'') (\<lambda>tw.
       Inr (RecordFormat \<lparr>fmt_shard_count = ucast sc, fmt_lease_bucket_width_ns = lw,
         fmt_delayed_bucket_width_ns = dw, fmt_terminal_bucket_width_ns = tw,
         fmt_inline_limit = il, fmt_required_feature_bits = fb\<rparr>)))))))"

definition finish_job :: "field_map \<Rightarrow> record_error + stow_record" where
  "finish_job m =
     (if (opt_bytes m ''payload_inline'' \<noteq> None) = (opt_text m ''payload_key'' \<noteq> None)
      then Inl (RecField ''payload inline xor key'')
      else
        sum_bind (need_id m ''job_id'') (\<lambda>job_id.
        sum_bind (need_uint m ''maximum_attempts'') (\<lambda>maximum_attempts.
        sum_bind (need_text m ''content_type'') (\<lambda>content_type.
        sum_bind (need_uint m ''created_store_time_ns'') (\<lambda>created.
        sum_bind (need_digest m ''payload_digest'') (\<lambda>payload_digest.
        sum_bind (need_uint m ''payload_length'') (\<lambda>payload_length.
          Inr (RecordJob \<lparr>job_job_id = job_id, job_maximum_attempts = maximum_attempts,
            job_content_type = content_type, job_created_store_time_ns = created,
            job_not_before_ns = opt_uint m ''not_before_ns'',
            job_payload_digest = payload_digest, job_payload_length = payload_length,
            job_payload_inline = opt_bytes m ''payload_inline'',
            job_payload_key = opt_text m ''payload_key''\<rparr>))))))))"

definition finish_claim :: "field_map \<Rightarrow> record_error + stow_record" where
  "finish_claim m =
     sum_bind (need_bool m ''continuation'') (\<lambda>continuation.
     let basis = opt_basis m ''basis''; prev_token = opt_id m ''prev_token''
     in if continuation = (basis \<noteq> None) \<or> continuation \<noteq> (prev_token \<noteq> None)
          \<or> (basis \<noteq> None) = (prev_token \<noteq> None)
        then Inl (RecField ''basis xor prev_token'')
        else
          sum_bind (need_id m ''job_id'') (\<lambda>job_id.
          sum_bind (need_uint m ''generation'') (\<lambda>gen.
          sum_bind (need_uint m ''attempt'') (\<lambda>attempt.
          sum_bind (need_text m ''worker_id'') (\<lambda>worker_id.
          sum_bind (need_id m ''worker_token'') (\<lambda>worker_token.
          sum_bind (need_uint m ''lease_duration_ns'') (\<lambda>duration.
            Inr (RecordClaim \<lparr>claim_job_id = job_id, claim_generation = gen,
              claim_attempt = attempt, claim_worker_id = worker_id,
              claim_worker_token = worker_token, claim_lease_duration_ns = duration,
              claim_continuation = continuation, claim_basis_of = basis,
              claim_prev_token = prev_token\<rparr>))))))))"

definition finish_fail :: "field_map \<Rightarrow> record_error + stow_record" where
  "finish_fail m =
     sum_bind (need_id m ''job_id'') (\<lambda>job_id.
     sum_bind (need_uint m ''generation'') (\<lambda>gen.
     sum_bind (need_uint m ''reason'') (\<lambda>reason.
     sum_bind (need_uint m ''attempt'') (\<lambda>attempt.
     sum_bind (need_uint m ''retry_not_before_ns'') (\<lambda>retry.
       Inr (RecordFail \<lparr>fail_job_id = job_id, fail_generation = gen, fail_reason = reason,
         fail_attempt = attempt, fail_retry_not_before_ns = retry\<rparr>))))))"

definition finish_receipt :: "field_map \<Rightarrow> record_error + stow_record" where
  "finish_receipt m =
     sum_bind (need_id m ''job_id'') (\<lambda>job_id.
     sum_bind (need_uint m ''generation'') (\<lambda>gen.
     sum_bind (need_uint m ''attempt'') (\<lambda>attempt.
     sum_bind (need_text m ''worker_id'') (\<lambda>worker_id.
     sum_bind (need_id m ''worker_token'') (\<lambda>worker_token.
     sum_bind (need_digest m ''payload_digest'') (\<lambda>payload_digest.
       Inr (RecordReceipt \<lparr>receipt_job_id = job_id, receipt_generation = gen,
         receipt_attempt = attempt, receipt_worker_id = worker_id,
         receipt_worker_token = worker_token, receipt_payload_digest = payload_digest,
         receipt_output_digests =
           (case opt_digests m ''output_digests'' of None \<Rightarrow> [] | Some ds \<Rightarrow> ds)\<rparr>)))))))"

definition finish_dead :: "field_map \<Rightarrow> record_error + stow_record" where
  "finish_dead m =
     sum_bind (need_id m ''job_id'') (\<lambda>job_id.
     sum_bind (need_uint m ''generation'') (\<lambda>gen.
     sum_bind (need_uint m ''attempt'') (\<lambda>attempt.
     sum_bind (need_uint m ''reason'') (\<lambda>reason.
       Inr (RecordDead \<lparr>dead_job_id = job_id, dead_generation = gen, dead_attempt = attempt,
         dead_reason = reason\<rparr>)))))"

definition finish_watermark :: "field_map \<Rightarrow> record_error + stow_record" where
  "finish_watermark m =
     sum_bind (need_uint m ''highest_observed_wall_bucket'') (\<lambda>bucket.
     sum_bind (need_uint m ''sequence'') (\<lambda>sequence.
       Inr (RecordWatermark \<lparr>wm_highest_observed_wall_bucket = bucket, wm_sequence = sequence\<rparr>)))"

definition finish_quarantine :: "field_map \<Rightarrow> record_error + stow_record" where
  "finish_quarantine m =
     sum_bind (need_id m ''qid'') (\<lambda>qid.
     sum_bind (need_text m ''source_key'') (\<lambda>source_key.
     sum_bind (need_uint m ''reason'') (\<lambda>reason.
     sum_bind (need_uint m ''observed_store_ns'') (\<lambda>observed.
       Inr (RecordQuarantine \<lparr>quar_qid = qid, quar_source_key = source_key, quar_reason = reason,
         quar_observed_store_ns = observed, quar_detail = opt_uint m ''detail''\<rparr>)))))"

definition read_record :: "string list \<Rightarrow> value_reader \<Rightarrow> (field_map \<Rightarrow> record_error + stow_record)
    \<Rightarrow> bytes \<Rightarrow> record_error + stow_record \<times> bytes" where
  "read_record table reader finish bs =
     sum_bind (read_map table RecEnvelope reader bs) (\<lambda>(m, r).
     sum_bind (finish m) (\<lambda>rec. Inr (rec, r)))"

definition parse_fields :: "u64 \<Rightarrow> bytes \<Rightarrow> record_error + stow_record \<times> bytes" where
  "parse_fields t bs =
     (if t = 1 then read_record format_keys format_reader finish_format bs
      else if t = 2 then read_record job_keys job_reader finish_job bs
      else if t = 3 then read_record claim_keys claim_reader finish_claim bs
      else if t = 4 then read_record fail_keys fail_reader finish_fail bs
      else if t = 5 then read_record receipt_keys receipt_reader finish_receipt bs
      else if t = 6 then read_record dead_keys dead_reader finish_dead bs
      else if t = 7 then read_record watermark_keys uint_reader finish_watermark bs
      else if t = 8 then read_record quarantine_keys quarantine_reader finish_quarantine bs
      else Inl RecType)"

section \<open>Decoding records\<close>

definition decode_body :: "hash_fn \<Rightarrow> bytes \<Rightarrow> bytes \<Rightarrow> id16 \<Rightarrow> tag8 \<Rightarrow> record_error + stow_record" where
  "decode_body H body tail queue_id tag =
     sum_bind (cbor_head body) (\<lambda>((major, n), r).
     if major \<noteq> 4 \<or> n \<noteq> 7 then Inl RecEnvelope
     else
       sum_bind (env_uint r) (\<lambda>(magic, r).
       sum_bind (env_uint r) (\<lambda>(ver_major, r).
       sum_bind (env_uint r) (\<lambda>(ver_minor, r).
       sum_bind (env_bytes r) (\<lambda>(qid, r).
       sum_bind (env_bytes r) (\<lambda>(ktag, r).
       sum_bind (env_uint r) (\<lambda>(rtype, r).
       if magic \<noteq> magic_number then Inl RecMagic
       else if ver_major \<noteq> major_version \<or> ver_minor \<noteq> minor_version
       then Inl (RecVersion ver_major ver_minor)
       else
         sum_bind (ok_or (type_name rtype) RecType) (\<lambda>type_str.
         if to_be_bytes (record_digest H type_str body) \<noteq> drop 2 tail then Inl RecDigest
         else if qid \<noteq> to_be_bytes queue_id \<or> ktag \<noteq> to_be_bytes tag
         then Inl (RecField ''queue binding'')
         else
           sum_bind (parse_fields rtype r) (\<lambda>(rec, r).
           if r \<noteq> [] then Inl (RecCbor TrailingBytes) else Inr rec)))))))))"

definition decode :: "hash_fn \<Rightarrow> bytes \<Rightarrow> id16 \<Rightarrow> tag8 \<Rightarrow> record_error + stow_record" where
  "decode H data queue_id tag =
     (if length data < 34 then Inl RecEnvelope
      else
        let body = take (length data - 34) data; tail = drop (length data - 34) data
        in if tail ! 0 \<noteq> 0x58 \<or> tail ! 1 \<noteq> 32 then Inl RecEnvelope
           else decode_body H body tail queue_id tag)"

end
