(* ===== verification/Field_Maps.thy ===== *)
theory Field_Maps
  imports Direct_Decode
begin

text \<open>
  The reading loop of the direct decoder, once for all record types. Each item reader is the exact
  inverse of the corresponding writer (\<open>read_uint_Inr_iff\<close> and its siblings). The locale
  \<open>field_schema\<close> is the contract between \<open>read_map\<close> and the value reader of a record type: a
  table of field names with a kind for each, and a reader that accepts exactly the encodings of
  values of that kind. Inside it, \<open>read_map_iff\<close> shows that \<open>read_map\<close> accepts exactly the field
  maps of these kinds written in table order.
\<close>

section \<open>Item readers\<close>

lemma cbor_head_Inr_iff [simp]:
  "cbor_head bs = Inr ((m, v), r) \<longleftrightarrow> m < 8 \<and> bs = push_head m v @ r"
  by (simp add: cbor_head_def read_head_Inr_iff)

lemma cbor_head_push [simp]: "m < 8 \<Longrightarrow> cbor_head (push_head m v @ r) = Inr ((m, v), r)"
  by simp

lemma cbor_take_Inr_iff [simp]: "cbor_take n bs = Inr (x, r) \<longleftrightarrow> length x = n \<and> bs = x @ r"
  by (simp add: cbor_take_def take_bytes_Inr_iff)

lemma bind_head_iff:
  "sum_bind (cbor_head bs) f = Inr y \<longleftrightarrow>
     (\<exists>m v r. m < 8 \<and> bs = push_head m v @ r \<and> f ((m, v), r) = Inr y)"
  by (auto simp: sum_bind_Inr_iff)

lemma read_uint_Inr_iff: "read_uint bs = Inr (v, r) \<longleftrightarrow> bs = push_head 0 v @ r"
  by (auto simp: read_uint_def bind_head_iff)

lemma env_uint_Inr_iff: "env_uint bs = Inr (v, r) \<longleftrightarrow> bs = push_head 0 v @ r"
  by (auto simp: env_uint_def bind_head_iff)

lemma len_of_nat: "(n :: u64) = of_nat k \<longleftrightarrow> unat n = k" if "k < 2 ^ 64"
  using that by (auto simp: unat_of_nat)

lemma head_len_iff:
  "(\<exists>n :: u64. bs = push_head m n @ x @ r \<and> length x = unat n) \<longleftrightarrow>
     length x < 2 ^ 64 \<and> bs = push_head m (of_nat (length x)) @ x @ r"
proof
  assume "\<exists>n :: u64. bs = push_head m n @ x @ r \<and> length x = unat n"
  then obtain n :: u64 where n: "bs = push_head m n @ x @ r" "length x = unat n"
    by blast
  then have "length x < 2 ^ 64"
    using unat_lt_exp [of n] by simp
  then show "length x < 2 ^ 64 \<and> bs = push_head m (of_nat (length x)) @ x @ r"
    using n by simp
next
  assume a: "length x < 2 ^ 64 \<and> bs = push_head m (of_nat (length x)) @ x @ r"
  then have "unat (of_nat (length x) :: u64) = length x"
    by (simp only: unat_of_nat_len)
  then show "\<exists>n :: u64. bs = push_head m n @ x @ r \<and> length x = unat n"
    using a by metis
qed

lemma read_borrowed_bytes_Inr_iff:
  "read_borrowed_bytes bs = Inr (b, r) \<longleftrightarrow> length b < 2 ^ 64 \<and> bs = put_bytes b @ r"
proof -
  have "read_borrowed_bytes bs = Inr (b, r) \<longleftrightarrow> (\<exists>n :: u64. bs = push_head 2 n @ b @ r \<and> length b = unat n)"
    by (auto simp: read_borrowed_bytes_def bind_head_iff)
  then show ?thesis
    unfolding head_len_iff by (simp add: put_bytes_def)
qed

lemma env_bytes_Inr_iff:
  "env_bytes bs = Inr (b, r) \<longleftrightarrow> length b < 2 ^ 64 \<and> bs = put_bytes b @ r"
proof -
  have "env_bytes bs = Inr (b, r) \<longleftrightarrow> (\<exists>n :: u64. bs = push_head 2 n @ b @ r \<and> length b = unat n)"
    by (auto simp: env_bytes_def bind_head_iff)
  then show ?thesis
    unfolding head_len_iff by (simp add: put_bytes_def)
qed

lemma read_borrowed_text_Inr_iff:
  "read_borrowed_text bs = Inr (t, r) \<longleftrightarrow> valid_text t \<and> bs = put_text t @ r"
proof -
  have "read_borrowed_text bs = Inr (t, r) \<longleftrightarrow>
      (\<exists>n x. bs = push_head 3 n @ x @ r \<and> length x = unat n \<and> utf8_valid x \<and> from_bytes x = t)"
    by (auto simp: read_borrowed_text_def bind_head_iff sum_bind_Inr_iff split: if_splits)
  also have "\<dots> \<longleftrightarrow>
      utf8_valid (as_bytes t) \<and> (\<exists>n :: u64. bs = push_head 3 n @ as_bytes t @ r \<and> length (as_bytes t) = unat n)"
    by (metis as_from_bytes from_as_bytes)
  finally show ?thesis
    unfolding head_len_iff by (auto simp: put_text_def valid_text_def)
qed

lemma read_bool_Inr_iff:
  "read_bool bs = Inr (b, r) \<longleftrightarrow> bs = [if b then 0xF5 else 0xF4] @ r"
proof -
  have "read_bool bs = Inr (b, r) \<longleftrightarrow> bs = push_head 7 (if b then 21 else 20) @ r"
  proof
    assume "bs = push_head 7 (if b then 21 else 20) @ r"
    then show "read_bool bs = Inr (b, r)"
      by (cases b) (simp_all add: read_bool_def)
  qed (auto simp: read_bool_def bind_head_iff split: if_splits)
  then show ?thesis
    using encode_bool [of b] by simp
qed

lemma read_fixed_Inr_iff:
  fixes w :: "'a::len word"
  assumes "8 dvd LENGTH('a)" "LENGTH('a) \<le> 256"
  shows "read_fixed bs = Inr (w, r) \<longleftrightarrow> bs = put_bytes (to_be_bytes w) @ r"
proof -
  have "read_fixed bs = Inr (w, r) \<longleftrightarrow>
      (\<exists>b. length b < 2 ^ 64 \<and> bs = put_bytes b @ r \<and> length b = LENGTH('a) div 8 \<and> w = from_be_bytes b)"
    unfolding read_fixed_def sum_bind_Inr_iff split_paired_Ex read_borrowed_bytes_Inr_iff fixed_word_def
    by (intro iffI; clarsimp split: if_splits) metis+
  also have "\<dots> \<longleftrightarrow> bs = put_bytes (to_be_bytes w) @ r"
  proof
    assume "bs = put_bytes (to_be_bytes w) @ r"
    then show "\<exists>b. length b < 2 ^ 64 \<and> bs = put_bytes b @ r \<and> length b = LENGTH('a) div 8 \<and> w = from_be_bytes b"
      using assms by (intro exI [of _ "to_be_bytes w"]) (simp add: from_to_be_bytes)
  qed (auto simp: to_from_be_bytes)
  finally show ?thesis .
qed

lemma read_digest_items_Inr_iff:
  "read_digest_items n bs = Inr (ds, r) \<longleftrightarrow>
     length ds = n \<and> bs = concat (map (\<lambda>d. put_bytes (to_be_bytes d)) ds) @ r"
proof (induction n arbitrary: bs ds)
  case (Suc n)
  have "read_digest_items (Suc n) bs = Inr (ds, r) \<longleftrightarrow>
      (\<exists>d b es. bs = put_bytes (to_be_bytes d) @ b \<and> read_digest_items n b = Inr (es, r) \<and> ds = d # es)"
    by (auto simp: sum_bind_Inr_iff read_fixed_Inr_iff)
  then show ?case
    using Suc by (cases ds) auto
qed auto

lemma read_digests_Inr_iff:
  "read_digests bs = Inr (ds, r) \<longleftrightarrow>
     ds \<noteq> [] \<and> length ds < 2 ^ 64
     \<and> bs = push_head 4 (of_nat (length ds)) @ concat (map (\<lambda>d. put_bytes (to_be_bytes d)) ds) @ r"
  (is "_ \<longleftrightarrow> ?R")
proof
  assume "read_digests bs = Inr (ds, r)"
  then obtain n :: u64 where n: "n \<noteq> 0" "length ds = unat n"
      "bs = push_head 4 n @ concat (map (\<lambda>d. put_bytes (to_be_bytes d)) ds) @ r"
    by (auto simp: read_digests_def bind_head_iff read_digest_items_Inr_iff split: if_splits)
  then show ?R
    using unat_lt_exp [of n] by (auto simp: unat_eq_zero)
next
  assume R: ?R
  then have n: "unat (of_nat (length ds) :: u64) = length ds"
    by (simp only: unat_of_nat_len)
  moreover have "(of_nat (length ds) :: u64) \<noteq> 0"
    using R n by (metis length_0_conv unat_0)
  ultimately show "read_digests bs = Inr (ds, r)"
    using R by (simp add: read_digests_def read_digest_items_Inr_iff)
qed

section \<open>Fields by kind\<close>

datatype kind = KUint | KShard | KId | KDigest | KBytes | KText | KBool | KBasis | KDigests

fun enc_field :: "field \<Rightarrow> bytes" where
  "enc_field (FUint v) = push_head 0 v"
| "enc_field (FId v) = put_bytes (to_be_bytes v)"
| "enc_field (FDigest v) = put_bytes (to_be_bytes v)"
| "enc_field (FBytes v) = put_bytes v"
| "enc_field (FText v) = put_text v"
| "enc_field (FBool v) = [if v then 0xF5 else 0xF4]"
| "enc_field (FBasis b) = write_basis b"
| "enc_field (FDigests ds) =
     push_head 4 (of_nat (length ds)) @ concat (map (\<lambda>d. put_bytes (to_be_bytes d)) ds)"

fun has_kind :: "kind \<Rightarrow> field \<Rightarrow> bool" where
  "has_kind KUint (FUint _) = True"
| "has_kind KShard (FUint v) = (v \<le> 65536)"
| "has_kind KId (FId _) = True"
| "has_kind KDigest (FDigest _) = True"
| "has_kind KBytes (FBytes b) = (length b < 2 ^ 64)"
| "has_kind KText (FText t) = valid_text t"
| "has_kind KBool (FBool _) = True"
| "has_kind KBasis (FBasis _) = True"
| "has_kind KDigests (FDigests ds) = (ds \<noteq> [] \<and> length ds < 2 ^ 64)"
| "has_kind _ _ = False"

fun read_kind :: "kind \<Rightarrow> bytes \<Rightarrow> record_error + field \<times> bytes" where
  "read_kind KUint bs = read_field FUint read_uint bs"
| "read_kind KShard bs = sum_bind (read_uint bs) (\<lambda>(v, r).
     if v > 65536 then Inl (RecField ''shard_count'') else Inr (FUint v, r))"
| "read_kind KId bs = read_field FId read_fixed bs"
| "read_kind KDigest bs = read_field FDigest read_fixed bs"
| "read_kind KBytes bs = read_field FBytes read_borrowed_bytes bs"
| "read_kind KText bs = read_field FText read_borrowed_text bs"
| "read_kind KBool bs = read_field FBool read_bool bs"
| "read_kind KBasis bs = read_field FBasis read_basis bs"
| "read_kind KDigests bs = read_field FDigests read_digests bs"

lemma has_kind_iffs:
  "has_kind KUint f \<longleftrightarrow> (\<exists>v. f = FUint v)"
  "has_kind KShard f \<longleftrightarrow> (\<exists>v. f = FUint v \<and> v \<le> 65536)"
  "has_kind KId f \<longleftrightarrow> (\<exists>v. f = FId v)"
  "has_kind KDigest f \<longleftrightarrow> (\<exists>v. f = FDigest v)"
  "has_kind KBytes f \<longleftrightarrow> (\<exists>v. f = FBytes v \<and> length v < 2 ^ 64)"
  "has_kind KText f \<longleftrightarrow> (\<exists>v. f = FText v \<and> valid_text v)"
  "has_kind KBool f \<longleftrightarrow> (\<exists>v. f = FBool v)"
  "has_kind KBasis f \<longleftrightarrow> (\<exists>v. f = FBasis v)"
  "has_kind KDigests f \<longleftrightarrow> (\<exists>v. f = FDigests v \<and> v \<noteq> [] \<and> length v < 2 ^ 64)"
  by (cases f; simp)+

section \<open>Field maps in table order\<close>

fun table_entries :: "string list \<Rightarrow> field_map \<Rightarrow> (string \<times> field) list" where
  "table_entries [] m = []"
| "table_entries (k # ks) m =
     (case m k of None \<Rightarrow> table_entries ks m | Some f \<Rightarrow> (k, f) # table_entries ks m)"

definition enc_entries :: "(string \<times> field) list \<Rightarrow> bytes" where
  "enc_entries es = concat (map (\<lambda>e. put_text (fst e) @ enc_field (snd e)) es)"

definition write_map :: "string list \<Rightarrow> field_map \<Rightarrow> bytes" where
  "write_map table m =
     push_head 5 (of_nat (length (table_entries table m))) @ enc_entries (table_entries table m)"

lemma enc_entries_simps [simp]:
  "enc_entries [] = []"
  "enc_entries (e # es) = put_text (fst e) @ enc_field (snd e) @ enc_entries es"
  by (simp_all add: enc_entries_def)

lemma set_table_entries: "set (table_entries ks m) = {(k, f). k \<in> set ks \<and> m k = Some f}"
  by (induction ks) (auto split: option.split)

lemma subseq_table_entries: "subseq (map fst (table_entries ks m)) ks"
  by (induction ks) (auto split: option.split)

lemma table_entries_cong:
  "(\<And>k. k \<in> set ks \<Longrightarrow> m k = m' k) \<Longrightarrow> table_entries ks m = table_entries ks m'"
  by (induction ks) (auto split: option.split)

lemma subseq_set: "subseq xs ys \<Longrightarrow> set xs \<subseteq> set ys"
  by (metis notin_set_nthsI set_nths_subset subseq_conv_nths)

lemma table_entries_map_of:
  assumes "subseq (map fst es) ks" "distinct ks"
  shows "table_entries ks (map_of es) = es"
  using assms
proof (induction ks arbitrary: es rule: list.induct)
  case (Cons k ks)
  show ?case
  proof (cases "\<exists>f es'. es = (k, f) # es'")
    case True
    then obtain f es' where es: "es = (k, f) # es'"
      by blast
    then have "subseq (map fst es') ks"
      using Cons.prems by simp
    moreover have "table_entries ks (map_of es) = table_entries ks (map_of es')"
      using Cons.prems es by (intro table_entries_cong) auto
    ultimately show ?thesis
      using Cons.IH [of es'] Cons.prems es by (simp add: fun_upd_def)
  next
    case False
    then have s: "subseq (map fst es) ks"
      using Cons.prems by (cases es) (auto split: if_splits)
    then have "map_of es k = None"
      using subseq_set [OF s] Cons.prems by (auto simp: map_of_eq_None_iff)
    then show ?thesis
      using Cons.IH [OF s] Cons.prems by simp
  qed
qed (auto dest: list_emb_length)

lemma map_of_table_entries:
  "map_of (table_entries ks m) k = (if k \<in> set ks then m k else None)"
  by (induction ks) (auto split: option.split)

lemma table_pos_Some_iff:
  assumes "distinct table"
  shows "table_pos table k = Some p \<longleftrightarrow> p < length table \<and> table ! p = k"
  using assms
proof (induction table arbitrary: p)
  case (Cons a table)
  then show ?case
    by (cases p) (auto simp: in_set_conv_nth)
qed simp

lemma subseq_Cons_drop:
  assumes "distinct table"
  shows "subseq (k # ks) (drop j table) \<longleftrightarrow>
    (\<exists>p \<ge> j. table_pos table k = Some p \<and> subseq ks (drop (Suc p) table))"
proof
  assume "subseq (k # ks) (drop j table)"
  then obtain us vs where uv: "drop j table = us @ k # vs" "subseq ks vs"
    by (auto dest: list_emb_ConsD)
  let ?p = "j + length us"
  have "?p < length table"
    using arg_cong [OF uv(1), of length] by simp
  moreover have "table ! ?p = k"
    using arg_cong [OF uv(1), of "\<lambda>l. l ! length us"] arg_cong [OF uv(1), of length] by simp
  moreover have "drop (Suc ?p) table = vs"
    using arg_cong [OF uv(1), of "drop (Suc (length us))"] by (simp add: add.commute)
  ultimately show "\<exists>p \<ge> j. table_pos table k = Some p \<and> subseq ks (drop (Suc p) table)"
    using uv(2) assms by (intro exI [of _ ?p]) (simp add: table_pos_Some_iff)
next
  assume "\<exists>p \<ge> j. table_pos table k = Some p \<and> subseq ks (drop (Suc p) table)"
  then obtain p where p: "p \<ge> j" "p < length table" "table ! p = k" "subseq ks (drop (Suc p) table)"
    using assms by (auto simp: table_pos_Some_iff)
  then have "subseq (k # ks) (drop p table)"
    by (simp flip: Cons_nth_drop_Suc)
  moreover have "subseq (drop p table) (drop j table)"
    using p(1) by (metis le_add_diff_inverse2 drop_drop suffix_drop suffix_imp_subseq)
  ultimately show "subseq (k # ks) (drop j table)"
    by (rule subseq_order.order_trans)
qed

section \<open>The loop over a table\<close>

definition of_kind :: "(string \<times> kind) list \<Rightarrow> string \<Rightarrow> field \<Rightarrow> bool" where
  "of_kind kinds k f \<longleftrightarrow> (\<exists>\<kappa>. map_of kinds k = Some \<kappa> \<and> has_kind \<kappa> f)"

definition fits :: "(string \<times> kind) list \<Rightarrow> field_map \<Rightarrow> bool" where
  "fits kinds m \<longleftrightarrow> (\<forall>k f. m k = Some f \<longrightarrow> of_kind kinds k f)"

definition next_pos :: "nat option \<Rightarrow> nat" where
  "next_pos prev = (case prev of None \<Rightarrow> 0 | Some p \<Rightarrow> Suc p)"

lemma of_kind_in: "of_kind kinds k f \<Longrightarrow> k \<in> set (map fst kinds)"
  by (force simp: of_kind_def dest: map_of_SomeD)

locale field_schema =
  fixes kinds :: "(string \<times> kind) list" and reader :: value_reader
  assumes distinct_keys: "distinct (map fst kinds)"
    and text_keys: "k \<in> set (map fst kinds) \<Longrightarrow> valid_text k"
    and small: "length kinds < 2 ^ 64"
    and reader_kind: "map_of kinds k = Some \<kappa> \<Longrightarrow>
      reader k bs = Inr (f, r) \<longleftrightarrow> has_kind \<kappa> f \<and> bs = enc_field f @ r"
begin

lemma reader_iff:
  assumes "k \<in> set (map fst kinds)"
  shows "reader k bs = Inr (f, r) \<longleftrightarrow> of_kind kinds k f \<and> bs = enc_field f @ r"
proof -
  obtain \<kappa> where "map_of kinds k = Some \<kappa>"
    using assms by (metis domD dom_map_of_conv_image_fst image_set)
  then show ?thesis
    using reader_kind by (simp add: of_kind_def)
qed

lemma table_key: "table_pos (map fst kinds) k = Some p \<Longrightarrow> k \<in> set (map fst kinds)"
  using distinct_keys by (metis nth_mem table_pos_Some_iff)

lemma loop_step:
  "read_pairs_loop (map fst kinds) reader (Suc n) prev bs st = Inr (st', r) \<longleftrightarrow>
     (\<exists>k f p b. bs = put_text k @ enc_field f @ b \<and> next_pos prev \<le> p
       \<and> table_pos (map fst kinds) k = Some p \<and> of_kind kinds k f
       \<and> read_pairs_loop (map fst kinds) reader n (Some p) b (st(k \<mapsto> f)) = Inr (st', r))"
  (is "?L \<longleftrightarrow> ?R")
proof
  assume ?L
  then obtain k b p where k: "read_borrowed_text bs = Inr (k, b)" "table_pos (map fst kinds) k = Some p"
      and p: "next_pos prev \<le> p"
      and rest: "sum_bind (reader k b) (\<lambda>(v, r). read_pairs_loop (map fst kinds) reader n (Some p) r (st(k \<mapsto> v)))
        = Inr (st', r)"
    by (fastforce simp: sum_bind_Inr_iff next_pos_def split: option.splits if_splits)
  then obtain f b' where f: "reader k b = Inr (f, b')"
      and loop: "read_pairs_loop (map fst kinds) reader n (Some p) b' (st(k \<mapsto> f)) = Inr (st', r)"
    by (auto simp: sum_bind_Inr_iff)
  have "of_kind kinds k f \<and> b = enc_field f @ b'"
    using f reader_iff [OF table_key [OF k(2)]] by simp
  then show ?R
    using k p loop by (auto simp: read_borrowed_text_Inr_iff)
next
  assume ?R
  then obtain k f p b where k: "bs = put_text k @ enc_field f @ b" "next_pos prev \<le> p"
      "table_pos (map fst kinds) k = Some p" "of_kind kinds k f"
      "read_pairs_loop (map fst kinds) reader n (Some p) b (st(k \<mapsto> f)) = Inr (st', r)"
    by blast
  have "read_borrowed_text bs = Inr (k, enc_field f @ b)"
    using k(1) text_keys table_key [OF k(3)] by (simp add: read_borrowed_text_Inr_iff)
  moreover have "reader k (enc_field f @ b) = Inr (f, b)"
    using k(4) reader_iff [OF table_key [OF k(3)]] by simp
  ultimately show ?L
    using k(2,3,5) by (auto simp: next_pos_def split: option.split)
qed

lemma map_add_entry:
  assumes "table_pos (map fst kinds) k = Some p" "subseq (map fst es) (drop (Suc p) (map fst kinds))"
  shows "st(k \<mapsto> f) ++ map_of es = st ++ map_of ((k, f) # es)"
proof -
  have p: "p < length (map fst kinds)" "map fst kinds ! p = k"
    using assms(1) distinct_keys by (simp_all add: table_pos_Some_iff)
  then have "k \<notin> set (drop (Suc p) (map fst kinds))"
    using distinct_keys by (metis Cons_nth_drop_Suc distinct.simps(2) distinct_drop)
  then have "map_of es k = None"
    using subseq_set [OF assms(2)] by (auto simp: map_of_eq_None_iff)
  then show ?thesis
    by (simp add: map_add_upd_left dom_def)
qed

lemma loop_iff:
  "read_pairs_loop (map fst kinds) reader n prev bs st = Inr (st', r) \<longleftrightarrow>
     (\<exists>es. length es = n \<and> subseq (map fst es) (drop (next_pos prev) (map fst kinds))
       \<and> (\<forall>(k, f) \<in> set es. of_kind kinds k f) \<and> bs = enc_entries es @ r \<and> st' = st ++ map_of es)"
proof (induction n arbitrary: prev bs st)
  case (Suc n)
  have np: "next_pos (Some p) = Suc p" for p
    by (simp add: next_pos_def)
  show ?case (is "?L \<longleftrightarrow> ?R")
  proof
    assume ?L
    then obtain k f p es where *: "bs = put_text k @ enc_field f @ enc_entries es @ r" "next_pos prev \<le> p"
        "table_pos (map fst kinds) k = Some p" "of_kind kinds k f" "length es = n"
        "subseq (map fst es) (drop (Suc p) (map fst kinds))"
        "\<forall>(k, f) \<in> set es. of_kind kinds k f" "st' = st(k \<mapsto> f) ++ map_of es"
      unfolding loop_step Suc.IH np by blast
    have "subseq (k # map fst es) (drop (next_pos prev) (map fst kinds))"
      using * distinct_keys by (auto simp: subseq_Cons_drop)
    moreover have "st' = st ++ map_of ((k, f) # es)"
      unfolding *(8) by (rule map_add_entry [OF *(3) *(6)])
    ultimately show ?R
      using * by (intro exI [of _ "(k, f) # es"]) (simp del: map_of.simps)
  next
    assume ?R
    then obtain es' where e: "length es' = Suc n"
        "subseq (map fst es') (drop (next_pos prev) (map fst kinds))"
        "\<forall>(k, f) \<in> set es'. of_kind kinds k f" "bs = enc_entries es' @ r" "st' = st ++ map_of es'"
      by blast
    then obtain k f es where es': "es' = (k, f) # es"
      by (cases es') auto
    have *: "length es = n" "subseq (k # map fst es) (drop (next_pos prev) (map fst kinds))"
        "of_kind kinds k f" "\<forall>(k, f) \<in> set es. of_kind kinds k f"
        "bs = put_text k @ enc_field f @ enc_entries es @ r"
      using e es' by simp_all
    then obtain p where p: "next_pos prev \<le> p" "table_pos (map fst kinds) k = Some p"
        "subseq (map fst es) (drop (Suc p) (map fst kinds))"
      using distinct_keys by (auto simp: subseq_Cons_drop)
    show ?L
      unfolding loop_step Suc.IH np
      using * p map_add_entry [OF p(2,3), of st f] e(5) unfolding es' by metis
  qed
qed auto

lemma read_map_iff:
  "read_map (map fst kinds) err reader bs = Inr (m, r) \<longleftrightarrow>
     fits kinds m \<and> bs = write_map (map fst kinds) m @ r"
proof
  assume "read_map (map fst kinds) err reader bs = Inr (m, r)"
  then obtain n :: u64 and es where n: "length es = unat n" "subseq (map fst es) (map fst kinds)"
      "\<forall>(k, f) \<in> set es. of_kind kinds k f" "bs = push_head 5 n @ enc_entries es @ r" "m = map_of es"
    by (auto simp: read_map_def bind_head_iff loop_iff next_pos_def split: if_splits)
  have "table_entries (map fst kinds) m = es"
    unfolding n(5) using n(2) distinct_keys by (rule table_entries_map_of)
  moreover have "of_nat (length es) = n"
    using n(1) by simp
  moreover have "fits kinds m"
    using n(3,5) by (auto simp: fits_def dest: map_of_SomeD)
  ultimately show "fits kinds m \<and> bs = write_map (map fst kinds) m @ r"
    using n(4) by (simp add: write_map_def)
next
  assume m: "fits kinds m \<and> bs = write_map (map fst kinds) m @ r"
  let ?es = "table_entries (map fst kinds) m"
  have "length ?es \<le> length kinds"
    using list_emb_length [OF subseq_table_entries [of "map fst kinds" m]] by simp
  then have len: "unat (of_nat (length ?es) :: u64) = length ?es"
    using small by (simp only: unat_of_nat_len)
  have "map_of ?es = m"
  proof
    fix k
    show "map_of ?es k = m k"
      using m of_kind_in [of kinds k] by (cases "m k") (auto simp: fits_def map_of_table_entries)
  qed
  moreover have "\<forall>(k, f) \<in> set ?es. of_kind kinds k f"
    using m by (auto simp: set_table_entries fits_def)
  ultimately show "read_map (map fst kinds) err reader bs = Inr (m, r)"
    using m len subseq_table_entries [of "map fst kinds" m]
    by (auto simp: read_map_def write_map_def loop_iff next_pos_def intro!: exI [of _ ?es])
qed

end

end
