(* ===== verification/Record_Codec.thy ===== *)
theory Record_Codec
  imports Field_Maps
begin

text \<open>
  Correctness of the record codec. The tables of the direct decoder are interpreted in the locale
  \<open>field_schema\<close>, one interpretation per record type (and one for the nested claim basis). The
  main lemma \<open>decode_Inr_iff\<close> says that \<open>decode\<close> accepts a byte string exactly when it is the
  encoding of a well-formed record for the same queue and key tag.
\<close>

section \<open>Kinds of the tables\<close>

definition format_kinds :: "(string \<times> kind) list" where
  "format_kinds = zip format_keys [KShard, KUint, KUint, KUint, KUint, KUint]"

definition job_kinds :: "(string \<times> kind) list" where
  "job_kinds = zip job_keys [KId, KText, KText, KUint, KDigest, KBytes, KUint, KUint, KUint]"

definition claim_kinds :: "(string \<times> kind) list" where
  "claim_kinds = zip claim_keys [KBasis, KId, KUint, KText, KUint, KId, KBool, KId, KUint]"

definition basis_kinds :: "(string \<times> kind) list" where
  "basis_kinds = zip basis_keys [KUint, KUint, KUint]"

definition fail_kinds :: "(string \<times> kind) list" where
  "fail_kinds = zip fail_keys [KId, KUint, KUint, KUint, KUint]"

definition receipt_kinds :: "(string \<times> kind) list" where
  "receipt_kinds = zip receipt_keys [KId, KUint, KText, KUint, KId, KDigests, KDigest]"

definition dead_kinds :: "(string \<times> kind) list" where
  "dead_kinds = zip dead_keys [KId, KUint, KUint, KUint]"

definition watermark_kinds :: "(string \<times> kind) list" where
  "watermark_kinds = zip watermark_keys [KUint, KUint]"

definition quarantine_kinds :: "(string \<times> kind) list" where
  "quarantine_kinds = zip quarantine_keys [KId, KUint, KUint, KText, KUint]"

lemmas keys_defs = format_keys_def job_keys_def claim_keys_def basis_keys_def fail_keys_def
  receipt_keys_def dead_keys_def watermark_keys_def quarantine_keys_def

lemmas kinds_defs = format_kinds_def job_kinds_def claim_kinds_def basis_kinds_def fail_kinds_def
  receipt_kinds_def dead_kinds_def watermark_kinds_def quarantine_kinds_def

lemma map_fst_kinds [simp]:
  "map fst format_kinds = format_keys" "map fst job_kinds = job_keys"
  "map fst claim_kinds = claim_keys" "map fst basis_kinds = basis_keys"
  "map fst fail_kinds = fail_keys" "map fst receipt_kinds = receipt_keys"
  "map fst dead_kinds = dead_keys" "map fst watermark_kinds = watermark_keys"
  "map fst quarantine_kinds = quarantine_keys"
  by (simp_all add: kinds_defs keys_defs)

lemma utf8_ascii: "list_all (\<lambda>c. (of_char c :: nat) < 0x80) t \<Longrightarrow> utf8_valid (as_bytes t)"
  by (induction t) (simp_all add: as_bytes_def word_less_nat_alt)

lemma valid_text_ascii:
  "list_all (\<lambda>c. (of_char c :: nat) < 0x80) t \<Longrightarrow> length t < 2 ^ 64 \<Longrightarrow> valid_text t"
  by (simp add: valid_text_def utf8_ascii)

lemma table_texts:
  "list_all valid_text format_keys" "list_all valid_text job_keys" "list_all valid_text claim_keys"
  "list_all valid_text basis_keys" "list_all valid_text fail_keys" "list_all valid_text receipt_keys"
  "list_all valid_text dead_keys" "list_all valid_text watermark_keys"
  "list_all valid_text quarantine_keys"
  by (simp_all add: keys_defs valid_text_ascii)

lemma tables_distinct:
  "distinct format_keys" "distinct job_keys" "distinct claim_keys" "distinct basis_keys"
  "distinct fail_keys" "distinct receipt_keys" "distinct dead_keys" "distinct watermark_keys"
  "distinct quarantine_keys"
  by (simp_all add: keys_defs)

section \<open>The claim basis\<close>

lemma read_field_Inr_iff:
  "read_field c rd bs = Inr (f, r) \<longleftrightarrow> (\<exists>x. rd bs = Inr (x, r) \<and> f = c x)"
  by (auto simp: read_field_def sum_bind_Inr_iff)

lemma uint_reader_kind:
  "uint_reader k bs = Inr (f, r) \<longleftrightarrow> has_kind KUint f \<and> bs = enc_field f @ r"
  by (auto simp: uint_reader_def read_field_Inr_iff read_uint_Inr_iff has_kind_iffs)

interpretation basis_schema: field_schema basis_kinds uint_reader
proof unfold_locales
  show "distinct (map fst basis_kinds)" "length basis_kinds < 2 ^ 64"
    by (simp_all add: tables_distinct) (simp add: kinds_defs keys_defs)
  show "\<And>k. k \<in> set (map fst basis_kinds) \<Longrightarrow> valid_text k"
    using table_texts by (simp add: list_all_iff)
  show "\<And>k \<kappa> bs f r. map_of basis_kinds k = Some \<kappa> \<Longrightarrow>
      uint_reader k bs = Inr (f, r) \<longleftrightarrow> has_kind \<kappa> f \<and> bs = enc_field f @ r"
    unfolding uint_reader_kind by (auto simp: kinds_defs keys_defs split: if_splits)
qed

definition basis_map :: "claim_basis \<Rightarrow> field_map" where
  "basis_map b =
     [''prev_duration_ns'' \<mapsto> FUint (basis_prev_duration_ns b),
      ''prev_store_time_ns'' \<mapsto> FUint (basis_prev_store_time_ns b),
      ''observed_watermark_ns'' \<mapsto> FUint (basis_observed_watermark_ns b)]"

lemma need_Inr_iffs:
  "need_uint m k = Inr n \<longleftrightarrow> m k = Some (FUint n)"
  "need_id m k = Inr i \<longleftrightarrow> m k = Some (FId i)"
  "need_digest m k = Inr d \<longleftrightarrow> m k = Some (FDigest d)"
  "need_text m k = Inr t \<longleftrightarrow> m k = Some (FText t)"
  "need_bool m k = Inr b \<longleftrightarrow> m k = Some (FBool b)"
  by (auto simp: need_uint_def need_id_def need_digest_def need_text_def need_bool_def
      split: option.splits field.splits)

lemma write_map_basis:
  assumes "finish_basis m = Inr b"
  shows "write_map basis_keys m = write_basis b"
  using assms
  by (auto simp: finish_basis_def sum_bind_Inr_iff need_Inr_iffs write_map_def keys_defs write_basis_def
      put_key_def)

lemma basis_map_facts:
  "fits basis_kinds (basis_map b)" "finish_basis (basis_map b) = Inr b"
  by (auto simp: fits_def of_kind_def basis_map_def kinds_defs keys_defs has_kind_iffs finish_basis_def
      need_uint_def split: if_splits)

lemma read_basis_Inr_iff: "read_basis bs = Inr (b, r) \<longleftrightarrow> bs = write_basis b @ r"
proof -
  have "read_basis bs = Inr (b, r) \<longleftrightarrow>
      (\<exists>m. fits basis_kinds m \<and> bs = write_map basis_keys m @ r \<and> finish_basis m = Inr b)"
    using basis_schema.read_map_iff by (auto simp: read_basis_def sum_bind_Inr_iff)
  also have "\<dots> \<longleftrightarrow> bs = write_basis b @ r"
    using write_map_basis basis_map_facts by metis
  finally show ?thesis .
qed

section \<open>The kinds\<close>

lemma read_kind_Inr_iff: "read_kind \<kappa> bs = Inr (f, r) \<longleftrightarrow> has_kind \<kappa> f \<and> bs = enc_field f @ r"
proof (cases \<kappa>)
  case KShard
  have "read_kind KShard bs = Inr (f, r) \<longleftrightarrow> (\<exists>v. bs = push_head 0 v @ r \<and> v \<le> 65536 \<and> f = FUint v)"
    unfolding read_kind.simps sum_bind_Inr_iff split_paired_Ex prod.case read_uint_Inr_iff
    by (intro iffI; clarsimp simp: not_less split: if_splits) blast
  then show ?thesis
    unfolding KShard has_kind_iffs by (metis enc_field.simps(1))
next
  case KUint
  then show ?thesis
    by (auto simp: read_field_Inr_iff has_kind_iffs read_uint_Inr_iff)
next
  case KId
  then show ?thesis
    by (auto simp: read_field_Inr_iff has_kind_iffs read_fixed_Inr_iff)
next
  case KDigest
  then show ?thesis
    by (auto simp: read_field_Inr_iff has_kind_iffs read_fixed_Inr_iff)
next
  case KBytes
  then show ?thesis
    by (auto simp: read_field_Inr_iff has_kind_iffs read_borrowed_bytes_Inr_iff)
next
  case KText
  then show ?thesis
    by (auto simp: read_field_Inr_iff has_kind_iffs read_borrowed_text_Inr_iff)
next
  case KBasis
  then show ?thesis
    by (auto simp: read_field_Inr_iff has_kind_iffs read_basis_Inr_iff)
next
  case KDigests
  then show ?thesis
    by (auto simp: read_field_Inr_iff has_kind_iffs read_digests_Inr_iff)
next
  case KBool
  show ?thesis
    unfolding KBool read_kind.simps read_field_Inr_iff has_kind_iffs read_bool_Inr_iff
    by (cases f; simp only: field.distinct field.inject enc_field.simps simp_thms; blast)
qed

lemma readers_of_kind:
  "map_of format_kinds k = Some \<kappa> \<Longrightarrow> format_reader k bs = read_kind \<kappa> bs"
  "map_of job_kinds k = Some \<kappa> \<Longrightarrow> job_reader k bs = read_kind \<kappa> bs"
  "map_of claim_kinds k = Some \<kappa> \<Longrightarrow> claim_reader k bs = read_kind \<kappa> bs"
  "map_of fail_kinds k = Some \<kappa> \<Longrightarrow> fail_reader k bs = read_kind \<kappa> bs"
  "map_of receipt_kinds k = Some \<kappa> \<Longrightarrow> receipt_reader k bs = read_kind \<kappa> bs"
  "map_of dead_kinds k = Some \<kappa> \<Longrightarrow> dead_reader k bs = read_kind \<kappa> bs"
  "map_of watermark_kinds k = Some \<kappa> \<Longrightarrow> uint_reader k bs = read_kind \<kappa> bs"
  "map_of quarantine_kinds k = Some \<kappa> \<Longrightarrow> quarantine_reader k bs = read_kind \<kappa> bs"
  by (auto simp: kinds_defs keys_defs format_reader_def job_reader_def claim_reader_def
      fail_reader_def receipt_reader_def dead_reader_def uint_reader_def quarantine_reader_def
      read_field_def split: if_splits)

lemma schema_by_kind:
  assumes "distinct (map fst kinds)" "list_all valid_text (map fst kinds)" "length kinds < 2 ^ 64"
    and "\<And>k \<kappa> bs. map_of kinds k = Some \<kappa> \<Longrightarrow> reader k bs = read_kind \<kappa> bs"
  shows "field_schema kinds reader"
  using assms by unfold_locales (auto simp: list_all_iff read_kind_Inr_iff)

lemma length_kinds:
  "length format_kinds = 6" "length job_kinds = 9" "length claim_kinds = 9" "length fail_kinds = 5"
  "length receipt_kinds = 7" "length dead_kinds = 4" "length watermark_kinds = 2"
  "length quarantine_kinds = 5"
  by (simp_all add: kinds_defs keys_defs)

interpretation format_schema: field_schema format_kinds format_reader
  by (rule schema_by_kind) (simp_all add: table_texts tables_distinct length_kinds readers_of_kind)

interpretation job_schema: field_schema job_kinds job_reader
  by (rule schema_by_kind) (simp_all add: table_texts tables_distinct length_kinds readers_of_kind)

interpretation claim_schema: field_schema claim_kinds claim_reader
  by (rule schema_by_kind) (simp_all add: table_texts tables_distinct length_kinds readers_of_kind)

interpretation fail_schema: field_schema fail_kinds fail_reader
  by (rule schema_by_kind) (simp_all add: table_texts tables_distinct length_kinds readers_of_kind)

interpretation receipt_schema: field_schema receipt_kinds receipt_reader
  by (rule schema_by_kind) (simp_all add: table_texts tables_distinct length_kinds readers_of_kind)

interpretation dead_schema: field_schema dead_kinds dead_reader
  by (rule schema_by_kind) (simp_all add: table_texts tables_distinct length_kinds readers_of_kind)

interpretation watermark_schema: field_schema watermark_kinds uint_reader
  by (rule schema_by_kind) (simp_all add: table_texts tables_distinct length_kinds readers_of_kind)

interpretation quarantine_schema: field_schema quarantine_kinds quarantine_reader
  by (rule schema_by_kind) (simp_all add: table_texts tables_distinct length_kinds readers_of_kind)

section \<open>Well-formed records\<close>

text \<open>What the types do not say of a record that can be stored: text is UTF-8, lengths fit 64 bits,
  and the alternatives of the source hold (inline payload or payload key, basis or custody
  token).\<close>

fun wf_record :: "stow_record \<Rightarrow> bool" where
  "wf_record (RecordFormat r) = (fmt_shard_count r \<le> 65536)"
| "wf_record (RecordJob r) =
     (valid_text (job_content_type r)
      \<and> (case job_payload_inline r of None \<Rightarrow> True | Some b \<Rightarrow> length b < 2 ^ 64)
      \<and> (case job_payload_key r of None \<Rightarrow> True | Some k \<Rightarrow> valid_text k)
      \<and> (job_payload_inline r \<noteq> None) \<noteq> (job_payload_key r \<noteq> None))"
| "wf_record (RecordClaim r) =
     (valid_text (claim_worker_id r)
      \<and> claim_continuation r = (claim_prev_token r \<noteq> None)
      \<and> claim_continuation r = (claim_basis_of r = None))"
| "wf_record (RecordFail r) = True"
| "wf_record (RecordReceipt r) =
     (valid_text (receipt_worker_id r) \<and> length (receipt_output_digests r) < 2 ^ 64)"
| "wf_record (RecordDead r) = True"
| "wf_record (RecordWatermark r) = True"
| "wf_record (RecordQuarantine r) = valid_text (quar_source_key r)"

fun field_map_of :: "stow_record \<Rightarrow> field_map" where
  "field_map_of (RecordFormat r) =
     [''shard_count'' \<mapsto> FUint (ucast (fmt_shard_count r)),
      ''inline_limit'' \<mapsto> FUint (fmt_inline_limit r),
      ''lease_bucket_width_ns'' \<mapsto> FUint (fmt_lease_bucket_width_ns r),
      ''required_feature_bits'' \<mapsto> FUint (fmt_required_feature_bits r),
      ''delayed_bucket_width_ns'' \<mapsto> FUint (fmt_delayed_bucket_width_ns r),
      ''terminal_bucket_width_ns'' \<mapsto> FUint (fmt_terminal_bucket_width_ns r)]"
| "field_map_of (RecordJob r) =
     [''job_id'' \<mapsto> FId (job_job_id r),
      ''content_type'' \<mapsto> FText (job_content_type r),
      ''payload_digest'' \<mapsto> FDigest (job_payload_digest r),
      ''payload_length'' \<mapsto> FUint (job_payload_length r),
      ''maximum_attempts'' \<mapsto> FUint (job_maximum_attempts r),
      ''created_store_time_ns'' \<mapsto> FUint (job_created_store_time_ns r)]
     (''payload_key'' := map_option FText (job_payload_key r),
      ''not_before_ns'' := map_option FUint (job_not_before_ns r),
      ''payload_inline'' := map_option FBytes (job_payload_inline r))"
| "field_map_of (RecordClaim r) =
     [''job_id'' \<mapsto> FId (claim_job_id r),
      ''attempt'' \<mapsto> FUint (claim_attempt r),
      ''worker_id'' \<mapsto> FText (claim_worker_id r),
      ''generation'' \<mapsto> FUint (claim_generation r),
      ''continuation'' \<mapsto> FBool (claim_continuation r),
      ''worker_token'' \<mapsto> FId (claim_worker_token r),
      ''lease_duration_ns'' \<mapsto> FUint (claim_lease_duration_ns r)]
     (''basis'' := map_option FBasis (claim_basis_of r),
      ''prev_token'' := map_option FId (claim_prev_token r))"
| "field_map_of (RecordFail r) =
     [''job_id'' \<mapsto> FId (fail_job_id r),
      ''reason'' \<mapsto> FUint (fail_reason r),
      ''attempt'' \<mapsto> FUint (fail_attempt r),
      ''generation'' \<mapsto> FUint (fail_generation r),
      ''retry_not_before_ns'' \<mapsto> FUint (fail_retry_not_before_ns r)]"
| "field_map_of (RecordReceipt r) =
     [''job_id'' \<mapsto> FId (receipt_job_id r),
      ''attempt'' \<mapsto> FUint (receipt_attempt r),
      ''worker_id'' \<mapsto> FText (receipt_worker_id r),
      ''generation'' \<mapsto> FUint (receipt_generation r),
      ''worker_token'' \<mapsto> FId (receipt_worker_token r),
      ''payload_digest'' \<mapsto> FDigest (receipt_payload_digest r)]
     (''output_digests'' :=
        (if receipt_output_digests r = [] then None else Some (FDigests (receipt_output_digests r))))"
| "field_map_of (RecordDead r) =
     [''job_id'' \<mapsto> FId (dead_job_id r),
      ''reason'' \<mapsto> FUint (dead_reason r),
      ''attempt'' \<mapsto> FUint (dead_attempt r),
      ''generation'' \<mapsto> FUint (dead_generation r)]"
| "field_map_of (RecordWatermark r) =
     [''sequence'' \<mapsto> FUint (wm_sequence r),
      ''highest_observed_wall_bucket'' \<mapsto> FUint (wm_highest_observed_wall_bucket r)]"
| "field_map_of (RecordQuarantine r) =
     [''qid'' \<mapsto> FId (quar_qid r),
      ''reason'' \<mapsto> FUint (quar_reason r),
      ''source_key'' \<mapsto> FText (quar_source_key r),
      ''observed_store_ns'' \<mapsto> FUint (quar_observed_store_ns r)]
     (''detail'' := map_option FUint (quar_detail r))"

lemma read_record_iff:
  assumes "field_schema kinds reader"
    and finished: "\<And>m rec. fits kinds m \<Longrightarrow> finish m = Inr rec \<Longrightarrow>
      good rec \<and> write_map (map fst kinds) m = write_fields rec"
    and covered: "\<And>rec. good rec \<Longrightarrow> fits kinds (field_map_of rec) \<and> finish (field_map_of rec) = Inr rec"
  shows "read_record (map fst kinds) reader finish bs = Inr (rec, r) \<longleftrightarrow>
    good rec \<and> bs = write_fields rec @ r"
proof -
  have "read_record (map fst kinds) reader finish bs = Inr (rec, r) \<longleftrightarrow>
      (\<exists>m. fits kinds m \<and> bs = write_map (map fst kinds) m @ r \<and> finish m = Inr rec)"
    using field_schema.read_map_iff [OF assms(1)] by (auto simp: read_record_def sum_bind_Inr_iff)
  then show ?thesis
    using finished covered by metis
qed

definition good_type :: "u64 \<Rightarrow> stow_record \<Rightarrow> bool" where
  "good_type t rec \<longleftrightarrow> wf_record rec \<and> type_number rec = t"

lemma fits_kind: "fits kinds m \<Longrightarrow> m k = Some f \<Longrightarrow> map_of kinds k = Some \<kappa> \<Longrightarrow> has_kind \<kappa> f"
  by (fastforce simp: fits_def of_kind_def)

lemma fits_opt:
  assumes "fits kinds m"
  shows "map_of kinds k = Some KUint \<Longrightarrow> m k = map_option FUint (opt_uint m k)"
    "map_of kinds k = Some KId \<Longrightarrow> m k = map_option FId (opt_id m k)"
    "map_of kinds k = Some KBytes \<Longrightarrow> m k = map_option FBytes (opt_bytes m k)"
    "map_of kinds k = Some KText \<Longrightarrow> m k = map_option FText (opt_text m k)"
    "map_of kinds k = Some KBasis \<Longrightarrow> m k = map_option FBasis (opt_basis m k)"
    "map_of kinds k = Some KDigests \<Longrightarrow> m k = map_option FDigests (opt_digests m k)"
  using fits_kind [OF assms, of k]
  by (cases "m k"; fastforce simp: has_kind_iffs opt_uint_def opt_id_def opt_bytes_def opt_text_def
      opt_basis_def opt_digests_def)+

lemma fits_bounds:
  assumes "fits kinds m"
  shows "map_of kinds k = Some KBytes \<Longrightarrow> opt_bytes m k = Some b \<Longrightarrow> length b < 2 ^ 64"
    "map_of kinds k = Some KText \<Longrightarrow> opt_text m k = Some t \<Longrightarrow> valid_text t"
    "map_of kinds k = Some KText \<Longrightarrow> m k = Some (FText t) \<Longrightarrow> valid_text t"
    "map_of kinds k = Some KShard \<Longrightarrow> m k = Some (FUint v) \<Longrightarrow> v \<le> 65536"
    "map_of kinds k = Some KDigests \<Longrightarrow> opt_digests m k = Some ds \<Longrightarrow> ds \<noteq> [] \<and> length ds < 2 ^ 64"
  using fits_kind [OF assms, of k] fits_opt [OF assms, of k]
  by (force simp: has_kind_iffs)+

lemma kind_of_keys:
  "map_of format_kinds ''shard_count'' = Some KShard"
  "map_of job_kinds ''payload_key'' = Some KText" "map_of job_kinds ''content_type'' = Some KText"
  "map_of job_kinds ''not_before_ns'' = Some KUint" "map_of job_kinds ''payload_inline'' = Some KBytes"
  "map_of claim_kinds ''basis'' = Some KBasis" "map_of claim_kinds ''worker_id'' = Some KText"
  "map_of claim_kinds ''prev_token'' = Some KId"
  "map_of receipt_kinds ''worker_id'' = Some KText" "map_of receipt_kinds ''output_digests'' = Some KDigests"
  "map_of quarantine_kinds ''source_key'' = Some KText" "map_of quarantine_kinds ''detail'' = Some KUint"
  by (simp_all add: kinds_defs keys_defs)

lemmas put_defs = put_key_def put_key_bytes_def put_key_text_def put_key_bool_def put_opt_def some_count_def

section \<open>From field maps to records\<close>

lemma finish_format_sound:
  assumes "fits format_kinds m" "finish_format m = Inr rec"
  shows "good_type 1 rec \<and> write_map (map fst format_kinds) m = write_fields rec"
proof -
  obtain sc where sc: "m ''shard_count'' = Some (FUint sc)"
    using assms(2) by (auto simp: finish_format_def sum_bind_Inr_iff need_Inr_iffs)
  have le: "unat sc \<le> 65536"
    using fits_bounds(4) [OF assms(1) kind_of_keys(1) sc] by (simp add: word_le_nat_alt)
  then have "ucast (ucast sc :: u32) = sc" "(ucast sc :: u32) \<le> 65536"
    by (simp_all add: ucast_back word_le_nat_alt unat_ucast_mod del: unsigned_ucast_eq)
  then show ?thesis
    using assms(2) sc
    by (auto simp: finish_format_def sum_bind_Inr_iff need_Inr_iffs good_type_def write_map_def keys_defs
        put_key_def)
qed

lemma finish_job_sound:
  assumes "fits job_kinds m" "finish_job m = Inr rec"
  shows "good_type 2 rec \<and> write_map (map fst job_kinds) m = write_fields rec"
proof -
  note opt = fits_opt(4) [OF assms(1) kind_of_keys(2)] fits_opt(1) [OF assms(1) kind_of_keys(4)]
    fits_opt(3) [OF assms(1) kind_of_keys(5)]
  note bounds = fits_bounds(1) [OF assms(1) kind_of_keys(5)] fits_bounds(2) [OF assms(1) kind_of_keys(2)]
    fits_bounds(3) [OF assms(1) kind_of_keys(3)]
  obtain job_id ma ct cr pd pl where m: "m ''job_id'' = Some (FId job_id)"
      "m ''maximum_attempts'' = Some (FUint ma)" "m ''content_type'' = Some (FText ct)"
      "m ''created_store_time_ns'' = Some (FUint cr)" "m ''payload_digest'' = Some (FDigest pd)"
      "m ''payload_length'' = Some (FUint pl)"
    and rec: "rec = RecordJob \<lparr>job_job_id = job_id, job_maximum_attempts = ma,
      job_content_type = ct, job_created_store_time_ns = cr,
      job_not_before_ns = opt_uint m ''not_before_ns'', job_payload_digest = pd, job_payload_length = pl,
      job_payload_inline = opt_bytes m ''payload_inline'', job_payload_key = opt_text m ''payload_key''\<rparr>"
    and alt: "(opt_bytes m ''payload_inline'' \<noteq> None) \<noteq> (opt_text m ''payload_key'' \<noteq> None)"
    using assms(2) unfolding finish_job_def
    by (simp only: sum_bind_Inr_iff need_Inr_iffs if_split_eq1 split: if_splits) blast
  have "good_type 2 rec"
    unfolding rec good_type_def using alt bounds m(3) by (simp split: option.split)
  moreover have "write_map (map fst job_kinds) m = write_fields rec"
    unfolding rec write_map_def
    by (simp add: keys_defs put_defs m opt split: option.split)
  ultimately show ?thesis ..
qed

lemma finish_claim_sound:
  assumes "fits claim_kinds m" "finish_claim m = Inr rec"
  shows "good_type 3 rec \<and> write_map (map fst claim_kinds) m = write_fields rec"
proof -
  note opt = fits_opt(5) [OF assms(1) kind_of_keys(6)] fits_opt(2) [OF assms(1) kind_of_keys(8)]
  obtain job_id gen att wid wt ld ct where m: "m ''job_id'' = Some (FId job_id)"
      "m ''generation'' = Some (FUint gen)" "m ''attempt'' = Some (FUint att)"
      "m ''worker_id'' = Some (FText wid)" "m ''worker_token'' = Some (FId wt)"
      "m ''lease_duration_ns'' = Some (FUint ld)" "m ''continuation'' = Some (FBool ct)"
    and rec: "rec = RecordClaim \<lparr>claim_job_id = job_id, claim_generation = gen, claim_attempt = att,
      claim_worker_id = wid, claim_worker_token = wt, claim_lease_duration_ns = ld,
      claim_continuation = ct, claim_basis_of = opt_basis m ''basis'',
      claim_prev_token = opt_id m ''prev_token''\<rparr>"
    and alt: "\<not> (ct = (opt_basis m ''basis'' \<noteq> None) \<or> ct \<noteq> (opt_id m ''prev_token'' \<noteq> None)
      \<or> (opt_basis m ''basis'' \<noteq> None) = (opt_id m ''prev_token'' \<noteq> None))"
    using assms(2) unfolding finish_claim_def Let_def
    by (simp only: sum_bind_Inr_iff need_Inr_iffs if_split_eq1 split: if_splits) blast
  have "good_type 3 rec"
    unfolding rec good_type_def using alt fits_bounds(3) [OF assms(1) kind_of_keys(7) m(4)] by auto
  moreover have "write_map (map fst claim_kinds) m = write_fields rec"
    unfolding rec write_map_def
    by (simp add: keys_defs put_defs m opt split: option.split)
  ultimately show ?thesis ..
qed

lemma finish_receipt_sound:
  assumes "fits receipt_kinds m" "finish_receipt m = Inr rec"
  shows "good_type 5 rec \<and> write_map (map fst receipt_kinds) m = write_fields rec"
proof -
  obtain job_id gen att wid wt pd where m: "m ''job_id'' = Some (FId job_id)"
      "m ''generation'' = Some (FUint gen)" "m ''attempt'' = Some (FUint att)"
      "m ''worker_id'' = Some (FText wid)" "m ''worker_token'' = Some (FId wt)"
      "m ''payload_digest'' = Some (FDigest pd)"
    and rec: "rec = RecordReceipt \<lparr>receipt_job_id = job_id, receipt_generation = gen,
      receipt_attempt = att, receipt_worker_id = wid, receipt_worker_token = wt,
      receipt_payload_digest = pd, receipt_output_digests =
        (case opt_digests m ''output_digests'' of None \<Rightarrow> [] | Some ds \<Rightarrow> ds)\<rparr>"
    using assms(2) unfolding finish_receipt_def
    by (simp only: sum_bind_Inr_iff need_Inr_iffs) blast
  note ds = fits_bounds(5) [OF assms(1) kind_of_keys(10)]
  have "good_type 5 rec"
    unfolding rec good_type_def using ds fits_bounds(3) [OF assms(1) kind_of_keys(9) m(4)]
    by (simp split: option.split)
  moreover have "write_map (map fst receipt_kinds) m = write_fields rec"
    unfolding rec write_map_def using ds
    by (simp add: keys_defs put_defs m fits_opt(6) [OF assms(1) kind_of_keys(10)] split: option.split)
  ultimately show ?thesis ..
qed

lemma finish_quarantine_sound:
  assumes "fits quarantine_kinds m" "finish_quarantine m = Inr rec"
  shows "good_type 8 rec \<and> write_map (map fst quarantine_kinds) m = write_fields rec"
  using assms(2) fits_opt(1) [OF assms(1) kind_of_keys(12)] fits_bounds(3) [OF assms(1) kind_of_keys(11)]
  by (auto simp: finish_quarantine_def sum_bind_Inr_iff need_Inr_iffs good_type_def write_map_def keys_defs
      put_defs split: option.splits)

lemma finish_plain_sound:
  "finish_fail m = Inr rec \<Longrightarrow>
     good_type 4 rec \<and> write_map (map fst fail_kinds) m = write_fields rec"
  "finish_dead m = Inr rec \<Longrightarrow>
     good_type 6 rec \<and> write_map (map fst dead_kinds) m = write_fields rec"
  "finish_watermark m = Inr rec \<Longrightarrow>
     good_type 7 rec \<and> write_map (map fst watermark_kinds) m = write_fields rec"
  by (auto simp: finish_fail_def finish_dead_def finish_watermark_def sum_bind_Inr_iff need_Inr_iffs
      good_type_def write_map_def keys_defs put_defs)

section \<open>From records to field maps\<close>

lemma fits_intros:
  "fits kinds Map.empty"
  "fits kinds m \<Longrightarrow> of_kind kinds k f \<Longrightarrow> fits kinds (m(k \<mapsto> f))"
  "fits kinds m \<Longrightarrow> (\<And>f. v = Some f \<Longrightarrow> of_kind kinds k f) \<Longrightarrow> fits kinds (m(k := v))"
  by (auto simp: fits_def)

lemma of_kindI: "map_of kinds k = Some \<kappa> \<Longrightarrow> has_kind \<kappa> f \<Longrightarrow> of_kind kinds k f"
  by (auto simp: of_kind_def)

lemmas need_defs = need_uint_def need_id_def need_digest_def need_text_def need_bool_def
  opt_uint_def opt_id_def opt_bytes_def opt_text_def opt_basis_def opt_digests_def

lemma ucast_shard: "(x :: u32) \<le> 65536 \<Longrightarrow> (ucast x :: u64) \<le> 65536"
  using ucast_up_down(2) [of x] by (simp add: word_le_nat_alt)

lemma field_map_fits:
  "wf_record (RecordFormat a) \<Longrightarrow> fits format_kinds (field_map_of (RecordFormat a))"
  "wf_record (RecordJob b) \<Longrightarrow> fits job_kinds (field_map_of (RecordJob b))"
  "wf_record (RecordClaim c) \<Longrightarrow> fits claim_kinds (field_map_of (RecordClaim c))"
  "fits fail_kinds (field_map_of (RecordFail d))"
  "wf_record (RecordReceipt e) \<Longrightarrow> fits receipt_kinds (field_map_of (RecordReceipt e))"
  "fits dead_kinds (field_map_of (RecordDead g))"
  "fits watermark_kinds (field_map_of (RecordWatermark h))"
  "wf_record (RecordQuarantine i) \<Longrightarrow> fits quarantine_kinds (field_map_of (RecordQuarantine i))"
  unfolding field_map_of.simps
  subgoal
    by (intro fits_intros) (simp_all add: of_kind_def kinds_defs keys_defs ucast_shard)
  subgoal
    by (intro fits_intros) (auto simp: of_kind_def kinds_defs keys_defs)
  subgoal
    by (intro fits_intros) (auto simp: of_kind_def kinds_defs keys_defs)
  subgoal
    by (intro fits_intros) (simp_all add: of_kind_def kinds_defs keys_defs)
  subgoal
    by (intro fits_intros) (auto simp: of_kind_def kinds_defs keys_defs split: if_splits)
  subgoal
    by (intro fits_intros) (simp_all add: of_kind_def kinds_defs keys_defs)
  subgoal
    by (intro fits_intros) (simp_all add: of_kind_def kinds_defs keys_defs)
  subgoal
    by (intro fits_intros) (auto simp: of_kind_def kinds_defs keys_defs)
  done

lemma field_map_finish:
  "finish_format (field_map_of (RecordFormat a)) = Inr (RecordFormat a)"
  "wf_record (RecordJob b) \<Longrightarrow> finish_job (field_map_of (RecordJob b)) = Inr (RecordJob b)"
  "wf_record (RecordClaim c) \<Longrightarrow> finish_claim (field_map_of (RecordClaim c)) = Inr (RecordClaim c)"
  "finish_fail (field_map_of (RecordFail d)) = Inr (RecordFail d)"
  "finish_receipt (field_map_of (RecordReceipt e)) = Inr (RecordReceipt e)"
  "finish_dead (field_map_of (RecordDead g)) = Inr (RecordDead g)"
  "finish_watermark (field_map_of (RecordWatermark h)) = Inr (RecordWatermark h)"
  "finish_quarantine (field_map_of (RecordQuarantine i)) = Inr (RecordQuarantine i)"
  subgoal
    by (simp add: finish_format_def need_defs ucast_up_down)
  subgoal
    by (cases "job_payload_inline b"; cases "job_payload_key b"; cases "job_not_before_ns b")
      (simp_all add: finish_job_def need_defs)
  subgoal
    by (cases "claim_basis_of c"; cases "claim_prev_token c") (simp_all add: finish_claim_def need_defs)
  subgoal
    by (simp add: finish_fail_def need_defs)
  subgoal
    by (simp add: finish_receipt_def need_defs)
  subgoal
    by (simp add: finish_dead_def need_defs)
  subgoal
    by (simp add: finish_watermark_def need_defs)
  subgoal
    by (cases "quar_detail i") (simp_all add: finish_quarantine_def need_defs)
  done

lemma good_type_cases:
  "good_type 1 rec \<longleftrightarrow> (\<exists>r. rec = RecordFormat r \<and> wf_record rec)"
  "good_type 2 rec \<longleftrightarrow> (\<exists>r. rec = RecordJob r \<and> wf_record rec)"
  "good_type 3 rec \<longleftrightarrow> (\<exists>r. rec = RecordClaim r \<and> wf_record rec)"
  "good_type 4 rec \<longleftrightarrow> (\<exists>r. rec = RecordFail r)"
  "good_type 5 rec \<longleftrightarrow> (\<exists>r. rec = RecordReceipt r \<and> wf_record rec)"
  "good_type 6 rec \<longleftrightarrow> (\<exists>r. rec = RecordDead r)"
  "good_type 7 rec \<longleftrightarrow> (\<exists>r. rec = RecordWatermark r)"
  "good_type 8 rec \<longleftrightarrow> (\<exists>r. rec = RecordQuarantine r \<and> wf_record rec)"
  by (cases rec; simp add: good_type_def)+

lemma read_records:
  "read_record format_keys format_reader finish_format bs = Inr (rec, r) \<longleftrightarrow>
     good_type 1 rec \<and> bs = write_fields rec @ r"
  "read_record job_keys job_reader finish_job bs = Inr (rec, r) \<longleftrightarrow>
     good_type 2 rec \<and> bs = write_fields rec @ r"
  "read_record claim_keys claim_reader finish_claim bs = Inr (rec, r) \<longleftrightarrow>
     good_type 3 rec \<and> bs = write_fields rec @ r"
  "read_record fail_keys fail_reader finish_fail bs = Inr (rec, r) \<longleftrightarrow>
     good_type 4 rec \<and> bs = write_fields rec @ r"
  "read_record receipt_keys receipt_reader finish_receipt bs = Inr (rec, r) \<longleftrightarrow>
     good_type 5 rec \<and> bs = write_fields rec @ r"
  "read_record dead_keys dead_reader finish_dead bs = Inr (rec, r) \<longleftrightarrow>
     good_type 6 rec \<and> bs = write_fields rec @ r"
  "read_record watermark_keys uint_reader finish_watermark bs = Inr (rec, r) \<longleftrightarrow>
     good_type 7 rec \<and> bs = write_fields rec @ r"
  "read_record quarantine_keys quarantine_reader finish_quarantine bs = Inr (rec, r) \<longleftrightarrow>
     good_type 8 rec \<and> bs = write_fields rec @ r"
proof -
  show "read_record format_keys format_reader finish_format bs = Inr (rec, r) \<longleftrightarrow>
      good_type 1 rec \<and> bs = write_fields rec @ r"
    using read_record_iff [OF format_schema.field_schema_axioms finish_format_sound] field_map_fits(1) field_map_finish(1)
    by (metis good_type_cases(1) map_fst_kinds(1))
  show "read_record job_keys job_reader finish_job bs = Inr (rec, r) \<longleftrightarrow>
      good_type 2 rec \<and> bs = write_fields rec @ r"
    using read_record_iff [OF job_schema.field_schema_axioms finish_job_sound] field_map_fits(2) field_map_finish(2)
    by (metis good_type_cases(2) map_fst_kinds(2))
  show "read_record claim_keys claim_reader finish_claim bs = Inr (rec, r) \<longleftrightarrow>
      good_type 3 rec \<and> bs = write_fields rec @ r"
    using read_record_iff [OF claim_schema.field_schema_axioms finish_claim_sound] field_map_fits(3) field_map_finish(3)
    by (metis good_type_cases(3) map_fst_kinds(3))
  show "read_record fail_keys fail_reader finish_fail bs = Inr (rec, r) \<longleftrightarrow>
      good_type 4 rec \<and> bs = write_fields rec @ r"
    using read_record_iff [OF fail_schema.field_schema_axioms finish_plain_sound(1)] field_map_fits(4) field_map_finish(4)
    by (metis good_type_cases(4) map_fst_kinds(5))
  show "read_record receipt_keys receipt_reader finish_receipt bs = Inr (rec, r) \<longleftrightarrow>
      good_type 5 rec \<and> bs = write_fields rec @ r"
    using read_record_iff [OF receipt_schema.field_schema_axioms finish_receipt_sound] field_map_fits(5) field_map_finish(5)
    by (metis good_type_cases(5) map_fst_kinds(6))
  show "read_record dead_keys dead_reader finish_dead bs = Inr (rec, r) \<longleftrightarrow>
      good_type 6 rec \<and> bs = write_fields rec @ r"
    using read_record_iff [OF dead_schema.field_schema_axioms finish_plain_sound(2)] field_map_fits(6) field_map_finish(6)
    by (metis good_type_cases(6) map_fst_kinds(7))
  show "read_record watermark_keys uint_reader finish_watermark bs = Inr (rec, r) \<longleftrightarrow>
      good_type 7 rec \<and> bs = write_fields rec @ r"
    using read_record_iff [OF watermark_schema.field_schema_axioms finish_plain_sound(3)] field_map_fits(7) field_map_finish(7)
    by (metis good_type_cases(7) map_fst_kinds(8))
  show "read_record quarantine_keys quarantine_reader finish_quarantine bs = Inr (rec, r) \<longleftrightarrow>
      good_type 8 rec \<and> bs = write_fields rec @ r"
    using read_record_iff [OF quarantine_schema.field_schema_axioms finish_quarantine_sound] field_map_fits(8) field_map_finish(8)
    by (metis good_type_cases(8) map_fst_kinds(9))
qed

section \<open>Decoding\<close>

lemma type_name_Some_iff:
  "(\<exists>n. type_name t = Some n) \<longleftrightarrow> t = 1 \<or> t = 2 \<or> t = 3 \<or> t = 4 \<or> t = 5 \<or> t = 6 \<or> t = 7 \<or> t = 8"
  by (simp add: type_name_def)

lemma type_name_type_number [simp]: "\<exists>n. type_name (type_number rec) = Some n"
  by (cases rec) (simp_all add: type_name_def)

lemma parse_fields_Inr_iff:
  "parse_fields t bs = Inr (rec, r) \<longleftrightarrow> wf_record rec \<and> type_number rec = t \<and> bs = write_fields rec @ r"
proof -
  consider "t = 1" | "t = 2" | "t = 3" | "t = 4" | "t = 5" | "t = 6" | "t = 7" | "t = 8"
    | "\<not> (\<exists>n. type_name t = Some n)"
    unfolding type_name_Some_iff by blast
  then show ?thesis
  proof cases
    case 9
    then have "type_number rec \<noteq> t"
      using type_name_type_number by metis
    moreover have "parse_fields t bs = Inl RecType"
      using 9 unfolding type_name_Some_iff by (simp add: parse_fields_def)
    ultimately show ?thesis by simp
  qed (simp_all add: parse_fields_def read_records good_type_def)
qed

lemma decode_body_Inr_iff:
  "decode_body H body tail q t = Inr rec \<longleftrightarrow>
     wf_record rec \<and> body = encode_body rec q t
     \<and> to_be_bytes (record_digest H (the (type_name (type_number rec))) body) = drop 2 tail"
  (is "?L \<longleftrightarrow> ?R")
proof
  assume ?L
  then obtain r0 magic r1 vj r2 vn r3 qid r4 ktag r5 rt r6 ts where
      *: "body = push_head 4 7 @ r0" "env_uint r0 = Inr (magic, r1)" "env_uint r1 = Inr (vj, r2)"
      "env_uint r2 = Inr (vn, r3)" "env_bytes r3 = Inr (qid, r4)" "env_bytes r4 = Inr (ktag, r5)"
      "env_uint r5 = Inr (rt, r6)" "magic = magic_number" "vj = major_version" "vn = minor_version"
      "type_name rt = Some ts" "to_be_bytes (record_digest H ts body) = drop 2 tail"
      "qid = to_be_bytes q" "ktag = to_be_bytes t" "parse_fields rt r6 = Inr (rec, [])"
    unfolding decode_body_def bind_head_iff
    by (auto simp: sum_bind_Inr_iff split: if_splits)
  then show ?R
    by (auto simp: env_uint_Inr_iff env_bytes_Inr_iff parse_fields_Inr_iff encode_body_def)
next
  assume R: ?R
  obtain ts where ts: "type_name (type_number rec) = Some ts"
    using type_name_type_number by blast
  have u: "env_uint (push_head 0 v @ r) = Inr (v, r)" for v r
    by (simp add: env_uint_Inr_iff)
  have b: "env_bytes (put_bytes b @ r) = Inr (b, r)" if "length b < 2 ^ 64" for b r
    using that by (simp add: env_bytes_Inr_iff)
  have p: "parse_fields (type_number rec) (write_fields rec) = Inr (rec, [])"
    using R by (simp add: parse_fields_Inr_iff)
  have e: "env_uint (push_head 0 (type_number rec) @ write_fields rec) = Inr (type_number rec, write_fields rec)"
    by (rule u)
  show ?L
    using R ts p unfolding decode_body_def by (auto simp: encode_body_def u b e)
qed

lemma decode_Inr_iff: "decode H data q t = Inr rec \<longleftrightarrow> wf_record rec \<and> data = encode H rec q t"
proof
  assume d: "decode H data q t = Inr rec"
  define body where "body = take (length data - 34) data"
  define tl where "tl = drop (length data - 34) data"
  have len: "\<not> length data < 34"
    using d by (simp add: decode_def split: if_splits)
  then have h: "tl ! 0 = 0x58" "tl ! 1 = 32" "decode_body H body tl q t = Inr rec"
    using d unfolding decode_def Let_def body_def [symmetric] tl_def [symmetric]
    by (simp_all split: if_splits)
  have "length tl = 34"
    using len by (simp add: tl_def)
  then have "tl = tl ! 0 # tl ! 1 # drop 2 tl"
    using Cons_nth_drop_Suc [of 0 tl] Cons_nth_drop_Suc [of 1 tl] by (simp add: numeral_2_eq_2)
  then have tl: "tl = 0x58 # 32 # drop 2 tl"
    unfolding h(1,2) .
  have "data = body @ tl"
    by (simp add: body_def tl_def)
  then have "data = body @ 0x58 # 32 # drop 2 tl"
    using tl by simp
  then show "wf_record rec \<and> data = encode H rec q t"
    using h(3) unfolding decode_body_Inr_iff encode_def record_digest_def Let_def
    by (clarify) simp
next
  assume r: "wf_record rec \<and> data = encode H rec q t"
  define body where "body = encode_body rec q t"
  define dg where "dg = record_digest H (the (type_name (type_number rec))) body"
  have data: "data = body @ 0x58 # 32 # to_be_bytes dg"
    using r by (simp add: encode_def Let_def body_def dg_def record_digest_def)
  have "decode_body H body (0x58 # 32 # to_be_bytes dg) q t = Inr rec"
    using r by (simp add: decode_body_Inr_iff body_def dg_def)
  then show "decode H data q t = Inr rec"
    by (simp add: decode_def data Let_def)
qed

section \<open>Properties\<close>

text \<open>C29. The record codec is exact: bytes decode to a record, for a queue and a key tag, if and only if
  the record is well formed and the bytes are its encoding for that queue and that tag. So
  decoding inverts encoding, every accepted object is byte-identical to what the encoder would
  write, and truncated, extended, re-ordered or foreign bytes are all rejected.\<close>

theorem record_codec_exact:
  "decode H data q t = Inr r \<longleftrightarrow> wf_record r \<and> data = encode H r q t"
  by (rule decode_Inr_iff)

end
