(* ===== verification/Value_Path.thy ===== *)
theory Value_Path
  imports Record_Codec "HOL-Library.Multiset"
begin

text \<open>
  The direct encoder against the reference encoder: \<open>value_encode\<close> builds a CBOR value with the
  fields in source order and sorts the map by encoded key; \<open>encode\<close> writes the fields in a fixed
  order. The tables of field names are strictly increasing in encoded-key order
  (\<open>tables_sorted\<close>), which makes the two byte-identical.
\<close>

section \<open>The tables are in canonical order\<close>

lemma sorted_wrt_subseq: "subseq xs ys \<Longrightarrow> sorted_wrt P ys \<Longrightarrow> sorted_wrt P xs"
proof (induction rule: list_emb.induct)
  case (list_emb_Cons2 x y xs ys)
  then show ?case
    using subseq_set [of xs ys] by auto
qed auto

lemma tables_sorted:
  "sorted_wrt (<) (map put_text format_keys)"
  "sorted_wrt (<) (map put_text job_keys)"
  "sorted_wrt (<) (map put_text claim_keys)"
  "sorted_wrt (<) (map put_text basis_keys)"
  "sorted_wrt (<) (map put_text fail_keys)"
  "sorted_wrt (<) (map put_text receipt_keys)"
  "sorted_wrt (<) (map put_text dead_keys)"
  "sorted_wrt (<) (map put_text watermark_keys)"
  "sorted_wrt (<) (map put_text quarantine_keys)"
  by (simp_all add: keys_defs put_text_def push_head_def as_bytes_def)

fun table_of :: "stow_record \<Rightarrow> string list" where
  "table_of (RecordFormat _) = format_keys"
| "table_of (RecordJob _) = job_keys"
| "table_of (RecordClaim _) = claim_keys"
| "table_of (RecordFail _) = fail_keys"
| "table_of (RecordReceipt _) = receipt_keys"
| "table_of (RecordDead _) = dead_keys"
| "table_of (RecordWatermark _) = watermark_keys"
| "table_of (RecordQuarantine _) = quarantine_keys"

lemma encode_map_perm:
  assumes "mset (map (\<lambda>p. (encode_into (fst p), encode_into (snd p))) ps) = mset ds"
    and "sorted_wrt (<) (map fst ds)"
  shows "encode_into (Map ps) = push_head 5 (of_nat (length ds)) @ concat (map (\<lambda>d. fst d @ snd d) ds)"
proof -
  let ?d = "map (\<lambda>p. (encode_into (fst p), encode_into (snd p))) ps"
  have "distinct (map fst ds)" "sorted (map fst ds)"
    using assms(2) by (simp_all add: strict_sorted_iff)
  moreover have "set ?d = set ds"
    using assms(1) by (rule mset_eq_setD)
  ultimately have inj: "inj_on fst (set ?d)" and sorted: "sorted (map fst ds)"
    by (simp_all add: distinct_map)
  have "sort_key fst ?d = ds"
    using assms(1) inj sorted by (rule sort_key_inj_key_eq)
  moreover have "length ps = length ds"
    using arg_cong [OF assms(1), of size] by (simp only: size_mset length_map)
  ultimately show ?thesis
    by simp
qed

definition entry_bytes :: "string \<times> field \<Rightarrow> bytes \<times> bytes" where
  "entry_bytes e = (put_text (fst e), enc_field (snd e))"

lemma encode_text [simp]: "encode_into (Text t) = put_text t"
  by (simp add: put_text_def)

lemma encode_bytes [simp]: "encode_into (Bytes b) = put_bytes b"
  by (simp add: put_bytes_def)

declare encode_into.simps(3,4) [simp del]

lemma encode_digests:
  "encode_into (Array (map (\<lambda>d. Bytes (to_be_bytes d)) ds)) = enc_field (FDigests ds)"
  by (simp add: comp_def)

lemma encode_map_table:
  assumes "mset (map (\<lambda>p. (encode_into (fst p), encode_into (snd p))) ps)
      = mset (map entry_bytes (table_entries table m))"
    and "sorted_wrt (<) (map put_text table)"
  shows "encode_into (Map ps) = write_map table m"
proof -
  let ?es = "table_entries table m"
  have "sorted_wrt (\<lambda>a b. put_text a < put_text b) (map fst ?es)"
    using sorted_wrt_subseq [OF subseq_table_entries] assms(2) [unfolded sorted_wrt_map] .
  then have "sorted_wrt (<) (map fst (map entry_bytes ?es))"
    by (simp add: sorted_wrt_map entry_bytes_def)
  from encode_map_perm [OF assms(1) this] show ?thesis
    by (simp add: write_map_def enc_entries_def entry_bytes_def comp_def)
qed

lemma encode_basis:
  "encode_into (Map (kv_u64 ''prev_store_time_ns'' (basis_prev_store_time_ns b)
      @ kv_u64 ''prev_duration_ns'' (basis_prev_duration_ns b)
      @ kv_u64 ''observed_watermark_ns'' (basis_observed_watermark_ns b))) = write_basis b"
proof -
  have "encode_into (Map (kv_u64 ''prev_store_time_ns'' (basis_prev_store_time_ns b)
      @ kv_u64 ''prev_duration_ns'' (basis_prev_duration_ns b)
      @ kv_u64 ''observed_watermark_ns'' (basis_observed_watermark_ns b)))
    = write_map basis_keys (basis_map b)"
    by (rule encode_map_table [OF _ tables_sorted(4)])
      (simp add: kv_u64_def entry_bytes_def keys_defs basis_map_def add_mset_commute)
  then show ?thesis
    using write_map_basis basis_map_facts by simp
qed

lemma write_fields_map: "write_fields r = write_map (table_of r) (field_map_of r)"
proof (cases r)
  case (RecordJob j)
  show ?thesis
    unfolding RecordJob
    by (cases "job_payload_inline j"; cases "job_payload_key j"; cases "job_not_before_ns j")
      (simp_all add: write_map_def keys_defs put_defs)
next
  case (RecordClaim c)
  show ?thesis
    unfolding RecordClaim
    by (cases "claim_basis_of c"; cases "claim_prev_token c") (simp_all add: write_map_def keys_defs put_defs)
next
  case (RecordQuarantine q)
  show ?thesis
    unfolding RecordQuarantine
    by (cases "quar_detail q") (simp_all add: write_map_def keys_defs put_defs)
next
  case (RecordReceipt q)
  show ?thesis
    unfolding RecordReceipt
    by (cases "receipt_output_digests q = []") (simp_all add: write_map_def keys_defs put_defs)
qed (simp_all add: write_map_def keys_defs put_defs)

lemmas kv_defs = kv_u64_def kv_bytes_def kv_text_def kv_bool_def kv_opt_def

lemma fields_entries:
  "mset (map (\<lambda>p. (encode_into (fst p), encode_into (snd p))) (fields r)) =
     mset (map entry_bytes (table_entries (table_of r) (field_map_of r)))"
proof (cases r)
  case (RecordJob j)
  show ?thesis
    unfolding RecordJob
    by (cases "job_payload_inline j"; cases "job_payload_key j"; cases "job_not_before_ns j")
      (simp_all add: kv_defs entry_bytes_def keys_defs add_mset_commute)
next
  case (RecordClaim c)
  show ?thesis
    unfolding RecordClaim using encode_basis
    by (cases "claim_basis_of c"; cases "claim_prev_token c")
     (simp_all add: kv_defs entry_bytes_def keys_defs add_mset_commute del: encode_into.simps(6))
next
  case (RecordQuarantine q)
  show ?thesis
    unfolding RecordQuarantine
    by (cases "quar_detail q") (simp_all add: kv_defs entry_bytes_def keys_defs add_mset_commute)
next
  case (RecordReceipt q)
  show ?thesis
    unfolding RecordReceipt using encode_digests [of "receipt_output_digests q"]
    by (cases "receipt_output_digests q = []")
      (simp_all add: kv_defs entry_bytes_def keys_defs add_mset_commute del: encode_into.simps(5))
qed (simp_all add: kv_defs entry_bytes_def keys_defs add_mset_commute)

lemma encode_fields: "encode_into (Map (fields r)) = write_fields r"
proof -
  have "sorted_wrt (<) (map put_text (table_of r))"
    by (cases r) (simp_all add: tables_sorted)
  from encode_map_table [OF fields_entries this] show ?thesis
    by (simp add: write_fields_map)
qed

lemma value_encode_eq: "value_encode H r q t = encode H r q t"
proof -
  have "cbor_encode (Array [Uint magic_number, Uint major_version, Uint minor_version,
      Bytes (to_be_bytes q), Bytes (to_be_bytes t), Uint (type_number r), Map (fields r)])
    = encode_body r q t"
    by (simp add: cbor_encode_def encode_body_def encode_fields del: encode_into.simps(6))
  then show ?thesis
    by (simp add: value_encode_def encode_def record_digest_def)
qed

section \<open>Properties\<close>

text \<open>C32. The direct encoder writes exactly the bytes of the reference encoder, which encodes the
  record as a CBOR value and sorts its fields, for every record of every type: the hand-written
  field orders are the canonical ones.\<close>

theorem encode_matches_reference: "encode H r q t = value_encode H r q t"
  by (simp only: value_encode_eq)

end
