(* ===== verification/Object_Store.thy ===== *)
theory Object_Store
  imports Stow_Prelude "HOL-Library.Sublist"
begin

text \<open>
  The store boundary of the crate \<open>stowq-store\<close> (\<open>lib.rs\<close>): objects, pages, outcomes, the error
  taxonomy, and the trait \<open>ObjectStore\<close> as a record of six state-passing operations. The locale
  \<open>store_contract\<close> states what the queue relies on: an answer describes the contents of the
  store, except that a call whose outcome is unknown may or may not have taken effect. The locale
  \<open>store_trait\<close> extends it by the rest of what the trait documents, the check of the digest and
  reads of a range. Both are interpreted on the in-memory store and on the fault injector.
\<close>

section \<open>Data\<close>

record meta =
  meta_version :: string
  meta_store_time_ns :: u64
  meta_size :: u64

record object =
  obj_meta :: meta
  obj_body :: bytes

record listing =
  item_key :: string
  item_meta :: meta

record page =
  page_items :: "listing list"
  page_next_after :: "string option"

datatype put_outcome = Committed string | Rejected

datatype ambiguity = Timeout | ConnectionLost | AmbiguousResponse

datatype transport_class = PreTransmit

datatype integrity_kind = DigestMismatch

datatype store_error =
    OutcomeUnknown ambiguity
  | NotFound
  | IntegrityViolation integrity_kind
  | ProfileViolation string
  | Transport transport_class

type_synonym 'a store_result = "store_error + 'a"

section \<open>The trait\<close>

record 's object_store =
  os_put_if_absent :: "'s \<Rightarrow> string \<Rightarrow> bytes \<Rightarrow> digest \<Rightarrow> put_outcome store_result \<times> 's"
  os_cas :: "'s \<Rightarrow> string \<Rightarrow> bytes \<Rightarrow> digest \<Rightarrow> string \<Rightarrow> put_outcome store_result \<times> 's"
  os_get :: "'s \<Rightarrow> string \<Rightarrow> (u64 \<times> u64) option \<Rightarrow> object store_result \<times> 's"
  os_head :: "'s \<Rightarrow> string \<Rightarrow> meta store_result \<times> 's"
  os_list :: "'s \<Rightarrow> string \<Rightarrow> string option \<Rightarrow> nat \<Rightarrow> page store_result \<times> 's"
  os_delete :: "'s \<Rightarrow> string \<Rightarrow> unit store_result \<times> 's"

section \<open>The contract\<close>

type_synonym contents = "string \<Rightarrow> object option"

definition is_unknown :: "store_error \<Rightarrow> bool" where
  "is_unknown e = (case e of OutcomeUnknown _ \<Rightarrow> True | _ \<Rightarrow> False)"

lemma is_unknown_simps [simp]:
  "is_unknown (OutcomeUnknown a)" "\<not> is_unknown NotFound" "\<not> is_unknown (IntegrityViolation i)"
  "\<not> is_unknown (ProfileViolation m)" "\<not> is_unknown (Transport t)"
  by (simp_all add: is_unknown_def)

text \<open>The keys a listing covers: those with the prefix, strictly after the cursor.\<close>

definition listed_keys :: "contents \<Rightarrow> string \<Rightarrow> string option \<Rightarrow> string set" where
  "listed_keys c p after =
     {k. c k \<noteq> None \<and> prefix p k \<and> (case after of None \<Rightarrow> True | Some a \<Rightarrow> a < k)}"

definition page_exact :: "contents \<Rightarrow> string \<Rightarrow> string option \<Rightarrow> nat \<Rightarrow> page \<Rightarrow> bool" where
  "page_exact c p after limit pg \<longleftrightarrow>
     (\<exists>ks. sorted_wrt (<) ks \<and> set ks = listed_keys c p after
       \<and> map item_key (page_items pg) = take limit ks
       \<and> (\<forall>it \<in> set (page_items pg). map_option obj_meta (c (item_key it)) = Some (item_meta it))
       \<and> page_next_after pg = (if limit = 0 \<or> length ks \<le> limit then None else Some (ks ! (limit - 1))))"

text \<open>How the contents may change over one call, by its answer.\<close>

definition put_change :: "contents \<Rightarrow> string \<Rightarrow> bytes \<Rightarrow> contents \<Rightarrow> bool" where
  "put_change c k b c' \<longleftrightarrow> c k = None \<and> (\<exists>m. c' = c(k \<mapsto> \<lparr>obj_meta = m, obj_body = b\<rparr>))"

definition cas_change :: "contents \<Rightarrow> string \<Rightarrow> bytes \<Rightarrow> string \<Rightarrow> contents \<Rightarrow> bool" where
  "cas_change c k b v c' \<longleftrightarrow>
     (\<exists>ob m. c k = Some ob \<and> meta_version (obj_meta ob) = v
        \<and> c' = c(k \<mapsto> \<lparr>obj_meta = m, obj_body = b\<rparr>))"

locale store_contract =
  fixes st :: "'s object_store" and contents :: "'s \<Rightarrow> contents" and inv :: "'s \<Rightarrow> bool"
  assumes inv_put: "inv s \<Longrightarrow> os_put_if_absent st s k b d = (r, s') \<Longrightarrow> inv s'"
    and inv_cas: "inv s \<Longrightarrow> os_cas st s k b d v = (r1, s') \<Longrightarrow> inv s'"
    and inv_get: "inv s \<Longrightarrow> os_get st s k rg = (r2, s') \<Longrightarrow> inv s'"
    and inv_head: "inv s \<Longrightarrow> os_head st s k = (r3, s') \<Longrightarrow> inv s'"
    and inv_list: "inv s \<Longrightarrow> os_list st s p after limit = (r4, s') \<Longrightarrow> inv s'"
    and inv_delete: "inv s \<Longrightarrow> os_delete st s k = (r5, s') \<Longrightarrow> inv s'"
    and put_committed: "inv s \<Longrightarrow> os_put_if_absent st s k b d = (Inr (Committed v), s') \<Longrightarrow>
      put_change (contents s) k b (contents s')"
    and put_rejected: "inv s \<Longrightarrow> os_put_if_absent st s k b d = (Inr Rejected, s') \<Longrightarrow>
      contents s k \<noteq> None \<and> contents s' = contents s"
    and put_failed: "inv s \<Longrightarrow> os_put_if_absent st s k b d = (Inl e, s') \<Longrightarrow>
      contents s' = contents s \<or> is_unknown e \<and> put_change (contents s) k b (contents s')"
    and cas_committed: "inv s \<Longrightarrow> os_cas st s k b d v = (Inr (Committed v'), s') \<Longrightarrow>
      cas_change (contents s) k b v (contents s')"
    and cas_rejected: "inv s \<Longrightarrow> os_cas st s k b d v = (Inr Rejected, s') \<Longrightarrow> contents s' = contents s"
    and cas_failed: "inv s \<Longrightarrow> os_cas st s k b d v = (Inl e, s') \<Longrightarrow>
      contents s' = contents s \<or> is_unknown e \<and> cas_change (contents s) k b v (contents s')"
    and get_keeps: "inv s \<Longrightarrow> os_get st s k rg = (r2, s') \<Longrightarrow> contents s' = contents s"
    and get_found: "inv s \<Longrightarrow> os_get st s k None = (Inr ob, s') \<Longrightarrow> contents s k = Some ob"
    and get_absent: "inv s \<Longrightarrow> os_get st s k None = (Inl NotFound, s') \<Longrightarrow> contents s k = None"
    and head_keeps: "inv s \<Longrightarrow> os_head st s k = (r3, s') \<Longrightarrow> contents s' = contents s"
    and head_found: "inv s \<Longrightarrow> os_head st s k = (Inr m, s') \<Longrightarrow>
      map_option obj_meta (contents s k) = Some m"
    and head_absent: "inv s \<Longrightarrow> os_head st s k = (Inl NotFound, s') \<Longrightarrow> contents s k = None"
    and list_keeps: "inv s \<Longrightarrow> os_list st s p after limit = (r4, s') \<Longrightarrow> contents s' = contents s"
    and list_exact: "inv s \<Longrightarrow> os_list st s p after limit = (Inr pg, s') \<Longrightarrow>
      page_exact (contents s) p after limit pg"
    and delete_done: "inv s \<Longrightarrow> os_delete st s k = (Inr (), s') \<Longrightarrow>
      contents s' = (contents s)(k := None)"
    and delete_failed: "inv s \<Longrightarrow> os_delete st s k = (Inl e, s') \<Longrightarrow>
      contents s' = contents s \<or> is_unknown e \<and> contents s' = (contents s)(k := None)"
begin

lemma put_cases:
  assumes "inv s" "os_put_if_absent st s k b d = (r, s')"
  shows "contents s' = contents s \<or> put_change (contents s) k b (contents s')"
proof (cases r)
  case (Inl e)
  then show ?thesis
    using put_failed assms by blast
next
  case (Inr o')
  then show ?thesis
    using put_committed put_rejected assms by (cases o') auto
qed

lemma cas_cases:
  assumes "inv s" "os_cas st s k b d v = (r, s')"
  shows "contents s' = contents s \<or> cas_change (contents s) k b v (contents s')"
proof (cases r)
  case (Inl e)
  then show ?thesis
    using cas_failed assms by blast
next
  case (Inr o')
  then show ?thesis
    using cas_committed cas_rejected assms by (cases o') auto
qed

text \<open>Whatever the answer, a conditional put never overwrites: an object that is there stays.\<close>

lemma put_preserves:
  assumes "inv s" "os_put_if_absent st s k b d = (r, s')" "contents s k' = Some ob"
  shows "contents s' k' = Some ob"
  using put_cases [OF assms(1,2)] assms(3) by (auto simp: put_change_def)

text \<open>Other keys are untouched by any call at a key.\<close>

lemma put_other:
  assumes "inv s" "os_put_if_absent st s k b d = (r, s')" "k' \<noteq> k"
  shows "contents s' k' = contents s k'"
  using put_cases [OF assms(1,2)] assms(3) by (auto simp: put_change_def)

lemma cas_other:
  assumes "inv s" "os_cas st s k b d v = (r, s')" "k' \<noteq> k"
  shows "contents s' k' = contents s k'"
  using cas_cases [OF assms(1,2)] assms(3) by (auto simp: cas_change_def)

lemma delete_other:
  assumes "inv s" "os_delete st s k = (r, s')" "k' \<noteq> k"
  shows "contents s' k' = contents s k'"
  using assms delete_done delete_failed by (cases r) fastforce+

end

text \<open>The whole trait. A write whose digest does not match its bytes fails without writing, with the
  violation as its error unless a fault hides it. A range is half open and must be neither empty nor
  inverted nor reach past the end; anything else is absence.\<close>

definition digest_error :: "store_error \<Rightarrow> bool" where
  "digest_error e \<longleftrightarrow> e = IntegrityViolation DigestMismatch \<or> is_unknown e \<or> e = Transport PreTransmit"

definition range_ok :: "object \<Rightarrow> u64 \<Rightarrow> u64 \<Rightarrow> bool" where
  "range_ok ob a b \<longleftrightarrow> a < b \<and> b \<le> of_nat (length (obj_body ob))"

definition range_of :: "object \<Rightarrow> u64 \<Rightarrow> u64 \<Rightarrow> object" where
  "range_of ob a b = ob\<lparr>obj_body := take (unat b - unat a) (drop (unat a) (obj_body ob))\<rparr>"

locale store_trait = store_contract st contents inv
  for st :: "'s object_store" and contents :: "'s \<Rightarrow> contents" and inv :: "'s \<Rightarrow> bool" +
  fixes H :: hash_fn
  assumes put_verified: "inv s \<Longrightarrow> os_put_if_absent st s k b d = (r, s') \<Longrightarrow> H b \<noteq> d \<Longrightarrow>
      contents s' = contents s \<and> (\<exists>e. r = Inl e \<and> digest_error e)"
    and cas_verified: "inv s \<Longrightarrow> os_cas st s k b d v = (r1, s') \<Longrightarrow> H b \<noteq> d \<Longrightarrow>
      contents s' = contents s \<and> (\<exists>e. r1 = Inl e \<and> digest_error e)"
    and range_found: "inv s \<Longrightarrow> os_get st s k (Some (x, y)) = (Inr ob, s') \<Longrightarrow>
      \<exists>full. contents s k = Some full \<and> range_ok full x y \<and> ob = range_of full x y"
    and range_absent: "inv s \<Longrightarrow> os_get st s k (Some (x, y)) = (Inl NotFound, s') \<Longrightarrow>
      \<forall>full. contents s k = Some full \<longrightarrow> \<not> range_ok full x y"
begin

text \<open>What a write changed has the digest it announced.\<close>

lemma put_digest:
  assumes "inv s" "os_put_if_absent st s k b d = (r, s')" "contents s' \<noteq> contents s"
  shows "H b = d \<and> (\<exists>ob. contents s' k = Some ob \<and> H (obj_body ob) = d)"
proof -
  have "H b = d"
    using put_verified [OF assms(1,2)] assms(3) by blast
  moreover have "put_change (contents s) k b (contents s')"
    using put_cases [OF assms(1,2)] assms(3) by blast
  ultimately show ?thesis
    by (auto simp: put_change_def)
qed

lemma cas_digest:
  assumes "inv s" "os_cas st s k b d v = (r, s')" "contents s' \<noteq> contents s"
  shows "H b = d \<and> (\<exists>ob. contents s' k = Some ob \<and> H (obj_body ob) = d)"
proof -
  have "H b = d"
    using cas_verified [OF assms(1,2)] assms(3) by blast
  moreover have "cas_change (contents s) k b v (contents s')"
    using cas_cases [OF assms(1,2)] assms(3) by blast
  ultimately show ?thesis
    by (auto simp: cas_change_def)
qed

end

end
