(* ===== verification/Prog.thy ===== *)
theory Prog
  imports Object_Store
begin

text \<open>
  Queue operations as programs over the store trait. An \<open>async fn\<close> that awaits store calls is a
  tree: a request to the store and, for every answer, how the operation goes on. The tree fixes
  the calls of the source, their order and what is done with each answer, and leaves open which
  store answers and what other clients do between two calls. Two external inputs are requests as
  well: \<open>Token\<close> (\<open>fresh_token\<close>, random bytes) and \<open>Clock\<close> (\<open>ElapsedClock\<close>).

  Three ways to read a tree are defined: \<open>exec\<close>, its executions against a store interleaved with
  steps of other clients; \<open>emits\<close>, that all its requests satisfy a predicate; and \<open>costs\<close>, that
  it makes at most a number of requests. Every tree is finite in depth, so every execution ends.
\<close>

named_theorems emits_rules \<open>requests of composed operations\<close>
named_theorems costs_rules \<open>cost of composed operations\<close>

section \<open>Programs\<close>

datatype 'a prog =
    Done 'a
  | Put string bytes digest "put_outcome store_result \<Rightarrow> 'a prog"
  | Cas string bytes digest string "put_outcome store_result \<Rightarrow> 'a prog"
  | Get string "object store_result \<Rightarrow> 'a prog"
  | Head string "meta store_result \<Rightarrow> 'a prog"
  | ListPage string "string option" nat "page store_result \<Rightarrow> 'a prog"
  | Delete string "unit store_result \<Rightarrow> 'a prog"
  | Token "id16 \<Rightarrow> 'a prog"
  | Clock "u64 \<Rightarrow> 'a prog"

primrec bind_prog :: "'a prog \<Rightarrow> ('a \<Rightarrow> 'b prog) \<Rightarrow> 'b prog" where
  "bind_prog (Done x) f = f x"
| "bind_prog (Put k b d c) f = Put k b d (\<lambda>r. bind_prog (c r) f)"
| "bind_prog (Cas k b d v c) f = Cas k b d v (\<lambda>r. bind_prog (c r) f)"
| "bind_prog (Get k c) f = Get k (\<lambda>r. bind_prog (c r) f)"
| "bind_prog (Head k c) f = Head k (\<lambda>r. bind_prog (c r) f)"
| "bind_prog (ListPage p a n c) f = ListPage p a n (\<lambda>r. bind_prog (c r) f)"
| "bind_prog (Delete k c) f = Delete k (\<lambda>r. bind_prog (c r) f)"
| "bind_prog (Token c) f = Token (\<lambda>t. bind_prog (c t) f)"
| "bind_prog (Clock c) f = Clock (\<lambda>t. bind_prog (c t) f)"

datatype request =
    ReqPut string bytes digest
  | ReqCas string bytes digest string
  | ReqGet string
  | ReqHead string
  | ReqList string "string option" nat
  | ReqDelete string

section \<open>Executions\<close>

text \<open>\<open>exec st R p s x s'\<close>: program \<open>p\<close>, started on store state \<open>s\<close>, can return \<open>x\<close> and leave \<open>s'\<close>,
  where between any two of its calls other clients may take steps of \<open>R\<close>.\<close>

inductive exec :: "'s object_store \<Rightarrow> ('s \<Rightarrow> 's \<Rightarrow> bool) \<Rightarrow> 'a prog \<Rightarrow> 's \<Rightarrow> 'a \<Rightarrow> 's \<Rightarrow> bool"
  for st :: "'s object_store" and R :: "'s \<Rightarrow> 's \<Rightarrow> bool" where
  exec_done: "exec st R (Done x) s x s"
| exec_env: "R s s1 \<Longrightarrow> exec st R p s1 x s' \<Longrightarrow> exec st R p s x s'"
| exec_put: "os_put_if_absent st s k b d = (r, s1) \<Longrightarrow> exec st R (c r) s1 x s' \<Longrightarrow>
    exec st R (Put k b d c) s x s'"
| exec_cas: "os_cas st s k b d v = (r, s1) \<Longrightarrow> exec st R (c r) s1 x s' \<Longrightarrow>
    exec st R (Cas k b d v c) s x s'"
| exec_get: "os_get st s k None = (r, s1) \<Longrightarrow> exec st R (c r) s1 x s' \<Longrightarrow>
    exec st R (Get k c) s x s'"
| exec_head: "os_head st s k = (r, s1) \<Longrightarrow> exec st R (c r) s1 x s' \<Longrightarrow>
    exec st R (Head k c) s x s'"
| exec_list: "os_list st s p a n = (r, s1) \<Longrightarrow> exec st R (c r) s1 x s' \<Longrightarrow>
    exec st R (ListPage p a n c) s x s'"
| exec_delete: "os_delete st s k = (r, s1) \<Longrightarrow> exec st R (c r) s1 x s' \<Longrightarrow>
    exec st R (Delete k c) s x s'"
| exec_token: "exec st R (c t) s x s' \<Longrightarrow> exec st R (Token c) s x s'"
| exec_clock: "exec st R (c u) s x s' \<Longrightarrow> exec st R (Clock c) s x s'"

text \<open>A deterministic run without interference, with the tokens to come and the reading of the clock; it
  returns the result, the tokens left and the store.\<close>

primrec run :: "'s object_store \<Rightarrow> 'a prog \<Rightarrow> id16 list \<Rightarrow> u64 \<Rightarrow> 's \<Rightarrow> 'a \<times> id16 list \<times> 's" where
  "run st (Done x) ts u s = (x, ts, s)"
| "run st (Put k b d c) ts u s = (case os_put_if_absent st s k b d of (r, s1) \<Rightarrow> run st (c r) ts u s1)"
| "run st (Cas k b d v c) ts u s = (case os_cas st s k b d v of (r, s1) \<Rightarrow> run st (c r) ts u s1)"
| "run st (Get k c) ts u s = (case os_get st s k None of (r, s1) \<Rightarrow> run st (c r) ts u s1)"
| "run st (Head k c) ts u s = (case os_head st s k of (r, s1) \<Rightarrow> run st (c r) ts u s1)"
| "run st (ListPage p a n c) ts u s = (case os_list st s p a n of (r, s1) \<Rightarrow> run st (c r) ts u s1)"
| "run st (Delete k c) ts u s = (case os_delete st s k of (r, s1) \<Rightarrow> run st (c r) ts u s1)"
| "run st (Token c) ts u s = (case ts of [] \<Rightarrow> run st (c 0) [] u s | t # ts' \<Rightarrow> run st (c t) ts' u s)"
| "run st (Clock c) ts u s = run st (c u) ts u s"

section \<open>Requests\<close>

text \<open>All requests satisfy \<open>G\<close>, whatever the answers; of a listing only the documented part is used,
  that it returns keys under the prefix asked for. \<open>emits_when A G\<close> assumes in addition that the
  answers about metadata satisfy \<open>A\<close>.\<close>

definition page_under :: "string \<Rightarrow> page store_result \<Rightarrow> bool" where
  "page_under p r = (case r of Inl _ \<Rightarrow> True | Inr pg \<Rightarrow> \<forall>it \<in> set (page_items pg). prefix p (item_key it))"

primrec emits_when :: "(string \<Rightarrow> meta store_result \<Rightarrow> bool) \<Rightarrow> (request \<Rightarrow> bool) \<Rightarrow> 'a prog \<Rightarrow> bool" where
  "emits_when A G (Done x) = True"
| "emits_when A G (Put k b d c) = (G (ReqPut k b d) \<and> (\<forall>r. emits_when A G (c r)))"
| "emits_when A G (Cas k b d v c) = (G (ReqCas k b d v) \<and> (\<forall>r. emits_when A G (c r)))"
| "emits_when A G (Get k c) = (G (ReqGet k) \<and> (\<forall>r. emits_when A G (c r)))"
| "emits_when A G (Head k c) = (G (ReqHead k) \<and> (\<forall>r. A k r \<longrightarrow> emits_when A G (c r)))"
| "emits_when A G (ListPage p a n c) = (G (ReqList p a n) \<and> (\<forall>r. page_under p r \<longrightarrow> emits_when A G (c r)))"
| "emits_when A G (Delete k c) = (G (ReqDelete k) \<and> (\<forall>r. emits_when A G (c r)))"
| "emits_when A G (Token c) = (\<forall>t. emits_when A G (c t))"
| "emits_when A G (Clock c) = (\<forall>u. emits_when A G (c u))"

abbreviation emits :: "(request \<Rightarrow> bool) \<Rightarrow> 'a prog \<Rightarrow> bool" where
  "emits \<equiv> emits_when (\<lambda>k r. True)"

text \<open>All results satisfy \<open>Q\<close>, whatever the answers.\<close>

primrec returns :: "('a \<Rightarrow> bool) \<Rightarrow> 'a prog \<Rightarrow> bool" where
  "returns Q (Done x) = Q x"
| "returns Q (Put k b d c) = (\<forall>r. returns Q (c r))"
| "returns Q (Cas k b d v c) = (\<forall>r. returns Q (c r))"
| "returns Q (Get k c) = (\<forall>r. returns Q (c r))"
| "returns Q (Head k c) = (\<forall>r. returns Q (c r))"
| "returns Q (ListPage p a n c) = (\<forall>r. returns Q (c r))"
| "returns Q (Delete k c) = (\<forall>r. returns Q (c r))"
| "returns Q (Token c) = (\<forall>t. returns Q (c t))"
| "returns Q (Clock c) = (\<forall>u. returns Q (c u))"

section \<open>Cost\<close>

text \<open>At most \<open>n\<close> requests along every path, and the result satisfies \<open>E m\<close> when \<open>m\<close> of them are
  left over.\<close>

primrec costs :: "(nat \<Rightarrow> 'a \<Rightarrow> bool) \<Rightarrow> 'a prog \<Rightarrow> nat \<Rightarrow> bool" where
  "costs E (Done x) n = E n x"
| "costs E (Put k b d c) n = (n > 0 \<and> (\<forall>r. costs E (c r) (n - 1)))"
| "costs E (Cas k b d v c) n = (n > 0 \<and> (\<forall>r. costs E (c r) (n - 1)))"
| "costs E (Get k c) n = (n > 0 \<and> (\<forall>r. costs E (c r) (n - 1)))"
| "costs E (Head k c) n = (n > 0 \<and> (\<forall>r. costs E (c r) (n - 1)))"
| "costs E (ListPage p a l c) n = (n > 0 \<and> (\<forall>r. costs E (c r) (n - 1)))"
| "costs E (Delete k c) n = (n > 0 \<and> (\<forall>r. costs E (c r) (n - 1)))"
| "costs E (Token c) n = (\<forall>t. costs E (c t) n)"
| "costs E (Clock c) n = (\<forall>u. costs E (c u) n)"

section \<open>Lemmas: composition\<close>

lemma bind_prog_assoc: "bind_prog (bind_prog p f) g = bind_prog p (\<lambda>x. bind_prog (f x) g)"
  by (induction p) simp_all

lemma emits_bind: "emits_when A G p \<Longrightarrow> (\<And>x. emits_when A G (f x)) \<Longrightarrow> emits_when A G (bind_prog p f)"
  by (induction p) simp_all

lemma emits_mono: "emits_when A G p \<Longrightarrow> (\<And>q. G q \<Longrightarrow> G' q) \<Longrightarrow> emits_when A G' p"
  by (induction p) auto

lemma returns_bind: "returns (\<lambda>x. returns Q (f x)) p \<Longrightarrow> returns Q (bind_prog p f)"
  by (induction p) simp_all

lemma returns_mono: "returns Q p \<Longrightarrow> (\<And>x. Q x \<Longrightarrow> Q' x) \<Longrightarrow> returns Q' p"
  by (induction p) auto

lemma returns_bindI:
  "returns Q' p \<Longrightarrow> (\<And>x. Q' x \<Longrightarrow> returns Q (f x)) \<Longrightarrow> returns Q (bind_prog p f)"
  by (rule returns_bind [OF returns_mono])

lemma returns_bind_all: "(\<And>x. returns Q (f x)) \<Longrightarrow> returns Q (bind_prog p f)"
  by (induction p) simp_all

lemma costs_bind: "costs (\<lambda>n x. costs E (f x) n) p n \<Longrightarrow> costs E (bind_prog p f) n"
  by (induction p arbitrary: n) simp_all

lemma costs_mono: "costs E p n \<Longrightarrow> (\<And>m x. E m x \<Longrightarrow> E' m x) \<Longrightarrow> costs E' p n"
  by (induction p arbitrary: n) auto

lemma costs_bindI:
  "costs E' p n \<Longrightarrow> (\<And>m x. E' m x \<Longrightarrow> costs E (f x) m) \<Longrightarrow> costs E (bind_prog p f) n"
  by (rule costs_bind [OF costs_mono])

lemma costs_more:
  assumes "\<And>m m' x. E m x \<Longrightarrow> m \<le> m' \<Longrightarrow> E m' x"
  shows "costs E p n \<Longrightarrow> n \<le> n' \<Longrightarrow> costs E p n'"
proof (induction p arbitrary: n n')
  case (Done x)
  then show ?case
    using assms by simp
qed (simp; metis rangeI diff_le_mono order_less_le_trans)+

section \<open>Lemmas: executions\<close>

lemma exec_envs: "R\<^sup>*\<^sup>* s s1 \<Longrightarrow> exec st R p s1 x s' \<Longrightarrow> exec st R p s x s'"
  by (induction rule: converse_rtranclp_induct) (auto intro: exec_env)

inductive_cases exec_DoneE: "exec st R (Done y) s x s'"
inductive_cases exec_PutE: "exec st R (Put k b d c) s x s'"
inductive_cases exec_CasE: "exec st R (Cas k b d v c) s x s'"
inductive_cases exec_GetE: "exec st R (Get k c) s x s'"
inductive_cases exec_HeadE: "exec st R (Head k c) s x s'"
inductive_cases exec_ListE: "exec st R (ListPage p a n c) s x s'"
inductive_cases exec_DeleteE: "exec st R (Delete k c) s x s'"

lemma run_exec: "run st p ts u s = (x, ts', s') \<Longrightarrow> exec st R p s x s'"
proof (induction p arbitrary: ts s)
  case (Token c)
  then show ?case
    by (cases ts) (auto intro: exec_token [of st R c 0] exec_token [of st R c "hd ts"])
next
  case (Clock c)
  then show ?case
    by (auto intro: exec_clock [of st R c u])
qed (auto intro: exec.intros split: prod.splits)

lemma run_bind: "run st (bind_prog p f) ts u s = (case run st p ts u s of (x, ts', s') \<Rightarrow> run st (f x) ts' u s')"
  by (induction p arbitrary: ts s) (auto split: prod.splits list.splits)

end
