(* ===== verification/Op_Monad.thy ===== *)
theory Op_Monad
  imports Prog Records
begin

text \<open>
  The shape of a method of \<open>Queue\<close>: a program that reads and updates the handle (the operation
  budget, the floor cache and the terminality memo) and returns a \<open>Result\<close>. \<open>and_then\<close> is sequencing
  with the question mark operator, \<open>attempt\<close> sequencing where the source matches on the result
  itself. The rules below carry three syntax-directed analyses through these combinators: which
  requests an operation emits, that it stays within its budget, and that its page loops end.
\<close>

section \<open>Errors and the handle\<close>

datatype queue_error =
    EStore store_error
  | ERecord string
  | ERecordFormat record_error
  | EKey string
  | BudgetExhausted
  | TransportExhausted
  | QueueIdMismatch
  | PayloadCorrupt
  | ReceiptEvidenceMismatch
  | OutputConflict digest
  | OutputEvidenceMismatch string
  | EInternal string
  | Panic
  | OutOfFuel

text \<open>\<open>ERecordFormat\<close> is \<open>Error::Record\<close> holding the text of a codec error; \<open>Panic\<close> is an assertion of
  the source that fails; \<open>OutOfFuel\<close> belongs to the model only and is proved unreachable.\<close>

record floor_cache =
  fc_floor_ns :: u64
  fc_established_at_ns :: u64

type_synonym terminal_memo = "((u16 \<times> id16) \<times> (string \<times> u64)) list"

record handle =
  max_ops :: nat
  h_floor :: floor_cache
  h_memo :: terminal_memo

type_synonym 'a op = "handle \<Rightarrow> ((queue_error + 'a) \<times> handle) prog"

section \<open>Combinators\<close>

definition ret :: "'a \<Rightarrow> 'a op" where
  "ret x = (\<lambda>h. Done (Inr x, h))"

definition fail :: "queue_error \<Rightarrow> 'a op" where
  "fail e = (\<lambda>h. Done (Inl e, h))"

definition and_then :: "'a op \<Rightarrow> ('a \<Rightarrow> 'b op) \<Rightarrow> 'b op" where
  "and_then m f = (\<lambda>h. bind_prog (m h) (\<lambda>(r, h'). case r of Inl e \<Rightarrow> Done (Inl e, h') | Inr x \<Rightarrow> f x h'))"

definition attempt :: "'a op \<Rightarrow> (queue_error + 'a \<Rightarrow> 'b op) \<Rightarrow> 'b op" where
  "attempt m f = (\<lambda>h. bind_prog (m h) (\<lambda>(r, h'). f r h'))"

definition of_result :: "queue_error + 'a \<Rightarrow> 'a op" where
  "of_result r = (case r of Inl e \<Rightarrow> fail e | Inr x \<Rightarrow> ret x)"

definition of_store :: "'a store_result \<Rightarrow> 'a op" where
  "of_store r = (case r of Inl e \<Rightarrow> fail (EStore e) | Inr x \<Rightarrow> ret x)"

definition get_handle :: "handle op" where
  "get_handle = (\<lambda>h. Done (Inr h, h))"

definition upd_handle :: "(handle \<Rightarrow> handle) \<Rightarrow> unit op" where
  "upd_handle f = (\<lambda>h. Done (Inr (), f h))"

definition put_req :: "string \<Rightarrow> bytes \<Rightarrow> digest \<Rightarrow> put_outcome store_result op" where
  "put_req k b d = (\<lambda>h. Put k b d (\<lambda>r. Done (Inr r, h)))"

definition cas_req :: "string \<Rightarrow> bytes \<Rightarrow> digest \<Rightarrow> string \<Rightarrow> put_outcome store_result op" where
  "cas_req k b d v = (\<lambda>h. Cas k b d v (\<lambda>r. Done (Inr r, h)))"

definition get_req :: "string \<Rightarrow> object store_result op" where
  "get_req k = (\<lambda>h. Get k (\<lambda>r. Done (Inr r, h)))"

definition head_req :: "string \<Rightarrow> meta store_result op" where
  "head_req k = (\<lambda>h. Head k (\<lambda>r. Done (Inr r, h)))"

definition list_req :: "string \<Rightarrow> string option \<Rightarrow> nat \<Rightarrow> page store_result op" where
  "list_req p a n = (\<lambda>h. ListPage p a n (\<lambda>r. Done (Inr r, h)))"

definition delete_req :: "string \<Rightarrow> unit store_result op" where
  "delete_req k = (\<lambda>h. Delete k (\<lambda>r. Done (Inr r, h)))"

definition fresh_token :: "id16 op" where
  "fresh_token = (\<lambda>h. Token (\<lambda>t. Done (Inr t, h)))"

definition elapsed_ns :: "u64 op" where
  "elapsed_ns = (\<lambda>h. Clock (\<lambda>u. Done (Inr u, h)))"

text \<open>\<open>OpBudget::spend\<close>.\<close>

definition spend :: "unit op" where
  "spend = (\<lambda>h. if max_ops h = 0 then Done (Inl BudgetExhausted, h)
                else Done (Inr (), h\<lparr>max_ops := max_ops h - 1\<rparr>))"

text \<open>A loop that spends in every round, with fuel for one round more than the budget allows.\<close>

definition fueled :: "(nat \<Rightarrow> 'a op) \<Rightarrow> 'a op" where
  "fueled f = (\<lambda>h. f (Suc (max_ops h)) h)"

section \<open>Analyses\<close>

definition emits_op_when ::
  "(string \<Rightarrow> meta store_result \<Rightarrow> bool) \<Rightarrow> (request \<Rightarrow> bool) \<Rightarrow> 'a op \<Rightarrow> bool" where
  "emits_op_when A G m \<longleftrightarrow> (\<forall>h. emits_when A G (m h))"

abbreviation emits_op :: "(request \<Rightarrow> bool) \<Rightarrow> 'a op \<Rightarrow> bool" where
  "emits_op \<equiv> emits_op_when (\<lambda>k r. True)"

text \<open>\<open>within c m\<close>: every request is paid for by the budget, given \<open>c\<close> requests paid in advance.\<close>

definition paid :: "nat \<Rightarrow> (queue_error + 'a) \<times> handle \<Rightarrow> bool" where
  "paid n x \<longleftrightarrow> max_ops (snd x) \<le> n"

definition within :: "nat \<Rightarrow> 'a op \<Rightarrow> bool" where
  "within c m \<longleftrightarrow> (\<forall>h n. max_ops h + c \<le> n \<longrightarrow> costs paid (m h) n)"

text \<open>\<open>ends n m\<close>: started with a budget below \<open>n\<close>, the operation does not run out of fuel and does
  not gain budget.\<close>

definition ended :: "nat \<Rightarrow> (queue_error + 'a) \<times> handle \<Rightarrow> bool" where
  "ended b x \<longleftrightarrow> fst x \<noteq> Inl OutOfFuel \<and> max_ops (snd x) \<le> b"

definition ends :: "nat \<Rightarrow> 'a op \<Rightarrow> bool" where
  "ends n m \<longleftrightarrow> (\<forall>h. max_ops h < n \<longrightarrow> returns (ended (max_ops h)) (m h))"

section \<open>Lemmas: structure\<close>

lemmas op_defs = ret_def fail_def and_then_def attempt_def of_result_def of_store_def get_handle_def
  upd_handle_def put_req_def cas_req_def get_req_def head_req_def list_req_def delete_req_def
  fresh_token_def elapsed_ns_def spend_def

lemma and_then_ret [simp]: "and_then (ret x) f = f x"
  by (simp add: and_then_def ret_def)

lemma and_then_fail [simp]: "and_then (fail e) f = fail e"
  by (simp add: and_then_def fail_def)

lemma attempt_ret [simp]: "attempt (ret x) f = f (Inr x)"
  by (simp add: attempt_def ret_def)

lemma and_then_assoc: "and_then (and_then m f) g = and_then m (\<lambda>x. and_then (f x) g)"
  by (rule ext) (auto simp: and_then_def bind_prog_assoc split: sum.splits intro!: arg_cong [of _ _ "bind_prog _"])

lemma of_result_simps [simp]: "of_result (Inl e) = fail e" "of_result (Inr x) = ret x"
  by (simp_all add: of_result_def)

lemma of_store_simps [simp]: "of_store (Inl e) = fail (EStore e)" "of_store (Inr x) = ret x"
  by (simp_all add: of_store_def)

section \<open>Lemmas: requests\<close>

lemma emits_op_ret [emits_rules]: "emits_op_when A G (ret x)"
  by (simp add: emits_op_when_def ret_def)

lemma emits_op_fail [emits_rules]: "emits_op_when A G (fail e)"
  by (simp add: emits_op_when_def fail_def)

lemma emits_op_then [emits_rules]:
  "emits_op_when A G m \<Longrightarrow> (\<And>x. emits_op_when A G (f x)) \<Longrightarrow> emits_op_when A G (and_then m f)"
  unfolding emits_op_when_def and_then_def by (auto intro!: emits_bind split: sum.splits)

lemma emits_op_attempt [emits_rules]:
  "emits_op_when A G m \<Longrightarrow> (\<And>r. emits_op_when A G (f r)) \<Longrightarrow> emits_op_when A G (attempt m f)"
  unfolding emits_op_when_def attempt_def by (auto intro!: emits_bind)

lemma emits_op_of_result [emits_rules]: "emits_op_when A G (of_result r)"
  by (simp add: emits_op_when_def op_defs split: sum.splits)

lemma emits_op_of_store [emits_rules]: "emits_op_when A G (of_store r)"
  by (simp add: emits_op_when_def op_defs split: sum.splits)

lemma emits_op_handle [emits_rules]: "emits_op_when A G get_handle" "emits_op_when A G (upd_handle f)"
    "emits_op_when A G fresh_token" "emits_op_when A G elapsed_ns" "emits_op_when A G spend"
  by (simp_all add: emits_op_when_def op_defs)

lemma emits_op_requests [emits_rules]:
  "G (ReqPut k b d) \<Longrightarrow> emits_op_when A G (put_req k b d)"
  "G (ReqCas k b d v) \<Longrightarrow> emits_op_when A G (cas_req k b d v)"
  "G (ReqGet k) \<Longrightarrow> emits_op_when A G (get_req k)"
  "G (ReqHead k) \<Longrightarrow> emits_op_when A G (head_req k)"
  "G (ReqList p a n) \<Longrightarrow> emits_op_when A G (list_req p a n)"
  "G (ReqDelete k) \<Longrightarrow> emits_op_when A G (delete_req k)"
  by (simp_all add: emits_op_when_def op_defs)

lemma emits_op_if [emits_rules]:
  "(b \<Longrightarrow> emits_op_when A G m) \<Longrightarrow> (\<not> b \<Longrightarrow> emits_op_when A G m') \<Longrightarrow> emits_op_when A G (if b then m else m')"
  by simp

lemma emits_op_mono: "emits_op_when A G m \<Longrightarrow> (\<And>q. G q \<Longrightarrow> G' q) \<Longrightarrow> emits_op_when A G' m"
  unfolding emits_op_when_def using emits_mono by blast

text \<open>The answer to a listing may be assumed to lie under its prefix.\<close>

lemma emits_op_list:
  "G (ReqList p a n) \<Longrightarrow> (\<And>r. page_under p r \<Longrightarrow> emits_op_when A G (f r)) \<Longrightarrow> emits_op_when A G (and_then (list_req p a n) f)"
  by (simp add: emits_op_when_def op_defs)

text \<open>The answer about metadata may be assumed to satisfy the condition.\<close>

lemma emits_op_head:
  "G (ReqHead k) \<Longrightarrow> (\<And>r. A k r \<Longrightarrow> emits_op_when A G (f r)) \<Longrightarrow> emits_op_when A G (and_then (head_req k) f)"
  by (simp add: emits_op_when_def op_defs)

section \<open>Lemmas: budget\<close>

lemma paid_more: "paid m x \<Longrightarrow> m \<le> m' \<Longrightarrow> paid m' x"
  by (simp add: paid_def)

lemma within_mono: "within c m \<Longrightarrow> c \<le> c' \<Longrightarrow> within c' m"
  by (simp add: within_def)

lemma within_any: "within 0 m \<Longrightarrow> within c m"
  using within_mono by blast

lemma within_ret [costs_rules]: "within c (ret x)"
  by (simp add: within_def ret_def paid_def)

lemma within_fail [costs_rules]: "within c (fail e)"
  by (simp add: within_def fail_def paid_def)

lemma within_of_result [costs_rules]: "within c (of_result r)"
  by (cases r) (simp_all add: costs_rules)

lemma within_of_store [costs_rules]: "within c (of_store r)"
  by (cases r) (simp_all add: costs_rules)

lemma within_handle [costs_rules]: "within c get_handle" "within c fresh_token" "within c elapsed_ns"
  by (simp_all add: within_def op_defs paid_def)

lemma within_upd_handle [costs_rules]: "(\<And>h. max_ops (f h) \<le> max_ops h) \<Longrightarrow> within c (upd_handle f)"
  unfolding within_def op_defs paid_def
  by (simp, meson add_leD1 le_trans)

lemma within_spend_only [costs_rules]: "within c spend"
  by (auto simp: within_def op_defs paid_def)

lemma within_then:
  assumes "within c m" "\<And>x. within 0 (f x)"
  shows "within c (and_then m f)"
  unfolding within_def and_then_def
proof (intro allI impI)
  fix h :: handle and n
  assume "max_ops h + c \<le> n"
  then have "costs paid (m h) n"
    using assms(1) by (simp add: within_def)
  then show "costs paid (bind_prog (m h) (\<lambda>(r, h'). case r of Inl e \<Rightarrow> Done (Inl e, h') | Inr x \<Rightarrow> f x h')) n"
    by (rule costs_bind [OF costs_mono])
      (use assms(2) in \<open>auto simp: within_def paid_def split: sum.splits\<close>)
qed

lemma within_attempt:
  assumes "within c m" "\<And>r. within 0 (f r)"
  shows "within c (attempt m f)"
  unfolding within_def attempt_def
proof (intro allI impI)
  fix h :: handle and n
  assume "max_ops h + c \<le> n"
  then have "costs paid (m h) n"
    using assms(1) by (simp add: within_def)
  then show "costs paid (bind_prog (m h) (\<lambda>(r, h'). f r h')) n"
    by (rule costs_bind [OF costs_mono]) (use assms(2) in \<open>auto simp: within_def paid_def\<close>)
qed

text \<open>A spend pays for one request to come; a request uses one paid in advance.\<close>

lemma within_spend: "within (Suc c) (f ()) \<Longrightarrow> within c (and_then spend f)"
  by (auto simp: within_def op_defs paid_def)

lemma within_attempt_spend:
  "within 0 (f (Inl BudgetExhausted)) \<Longrightarrow> within (Suc c) (f (Inr ())) \<Longrightarrow> within c (attempt spend f)"
  by (auto simp: within_def op_defs)

lemma within_pure:
  "(\<And>h. within c (f h)) \<Longrightarrow> within c (and_then get_handle f)"
  "(\<And>t. within c (g t)) \<Longrightarrow> within c (and_then fresh_token g)"
  "(\<And>u. within c (k u)) \<Longrightarrow> within c (and_then elapsed_ns k)"
  by (simp_all add: within_def op_defs)

lemma within_upd:
  "(\<And>h. max_ops (g h) \<le> max_ops h) \<Longrightarrow> within c (f ()) \<Longrightarrow> within c (and_then (upd_handle g) f)"
  unfolding within_def op_defs
  by (simp, meson add_le_mono1 le_trans)

lemma within_result:
  "(\<And>x. within c (f x)) \<Longrightarrow> within c (and_then (of_result r) f)"
  "(\<And>x. within c (g x)) \<Longrightarrow> within c (and_then (of_store r') g)"
  by (cases r, simp_all add: costs_rules) (cases r', simp_all add: costs_rules)

lemma within_requests:
  "(\<And>r. within c (f r)) \<Longrightarrow> within (Suc c) (and_then (put_req k b d) f)"
  "(\<And>r. within c (f r)) \<Longrightarrow> within (Suc c) (and_then (cas_req k b d v) f)"
  "(\<And>r. within c (g r)) \<Longrightarrow> within (Suc c) (and_then (get_req k) g)"
  "(\<And>r. within c (i r)) \<Longrightarrow> within (Suc c) (and_then (head_req k) i)"
  "(\<And>r. within c (l r)) \<Longrightarrow> within (Suc c) (and_then (list_req p a n) l)"
  "(\<And>r. within c (u r)) \<Longrightarrow> within (Suc c) (and_then (delete_req k) u)"
  by (auto simp: within_def op_defs)

lemma within_if: "(b \<Longrightarrow> within c m) \<Longrightarrow> (\<not> b \<Longrightarrow> within c m') \<Longrightarrow> within c (if b then m else m')"
  by simp

lemmas within_rules = within_spend within_requests within_pure within_result
  within_if within_attempt within_then

section \<open>Lemmas: termination\<close>

lemma ends_le: "ends n m \<Longrightarrow> n' \<le> n \<Longrightarrow> ends n' m"
  by (simp add: ends_def)

lemma endsD: "ends n m \<Longrightarrow> max_ops h < n \<Longrightarrow> returns (ended (max_ops h)) (m h)"
  by (simp add: ends_def)

lemma ends_ret [simp]: "ends n (ret x)"
  by (simp add: ends_def ret_def ended_def)

lemma ends_fail [simp]: "ends n (fail e) \<longleftrightarrow> e \<noteq> OutOfFuel \<or> n = 0"
  by (auto simp: ends_def fail_def ended_def intro: exI [of _ "undefined\<lparr>max_ops := 0\<rparr>"])

lemma ends_of_result [simp]: "ends n (of_result r) \<longleftrightarrow> r \<noteq> Inl OutOfFuel \<or> n = 0"
  by (cases r) simp_all

lemma ends_of_store [simp]: "ends n (of_store r)"
  by (cases r) simp_all

lemma ends_basic [simp]: "ends n get_handle" "ends n fresh_token" "ends n elapsed_ns" "ends n spend"
    "ends n (put_req k b d)" "ends n (cas_req k b d v)" "ends n (get_req k)" "ends n (head_req k)"
    "ends n (list_req p a l)" "ends n (delete_req k)"
  by (simp_all add: ends_def ended_def op_defs)

lemma ends_upd_handle: "(\<And>h. max_ops (f h) \<le> max_ops h) \<Longrightarrow> ends n (upd_handle f)"
  by (simp add: ends_def ended_def op_defs)

lemma ended_trans: "ended b x \<Longrightarrow> b \<le> b' \<Longrightarrow> ended b' x"
  by (simp add: ended_def)

lemma ends_attempt:
  assumes "ends n m" "\<And>r. r \<noteq> Inl OutOfFuel \<Longrightarrow> ends n (f r)"
  shows "ends n (attempt m f)"
  unfolding ends_def attempt_def
proof (intro allI impI returns_bind)
  fix h :: handle
  assume "max_ops h < n"
  then have "returns (ended (max_ops h)) (m h)"
    using assms(1) by (simp add: ends_def)
  then show "returns (\<lambda>x. returns (ended (max_ops h)) (case x of (r, h') \<Rightarrow> f r h')) (m h)"
  proof (rule returns_mono)
    fix x :: "(queue_error + 'a) \<times> handle"
    assume "ended (max_ops h) x"
    then have x: "fst x \<noteq> Inl OutOfFuel" "max_ops (snd x) \<le> max_ops h"
      by (simp_all add: ended_def)
    then have "returns (ended (max_ops (snd x))) (f (fst x) (snd x))"
      using assms(2) [of "fst x"] \<open>max_ops h < n\<close> by (simp add: ends_def)
    then show "returns (ended (max_ops h)) (case x of (r, h') \<Rightarrow> f r h')"
      unfolding case_prod_beta by (rule returns_mono) (use x ended_trans in blast)
  qed
qed

lemma and_then_attempt: "and_then m f = attempt m (\<lambda>r. case r of Inl e \<Rightarrow> fail e | Inr x \<Rightarrow> f x)"
  by (rule ext) (auto simp: and_then_def attempt_def fail_def split: sum.splits
    intro!: arg_cong [of _ _ "bind_prog _"])

lemma ends_then:
  assumes "ends n m" "\<And>x. ends n (f x)"
  shows "ends n (and_then m f)"
  unfolding and_then_attempt using assms by (intro ends_attempt) (auto split: sum.splits)

lemma ends_attempt_spend:
  assumes "ends (Suc n) (f (Inl BudgetExhausted))" "ends n (f (Inr ()))"
  shows "ends (Suc n) (attempt spend f)"
  unfolding ends_def
proof (intro allI impI)
  fix h :: handle
  assume h: "max_ops h < Suc n"
  show "returns (ended (max_ops h)) (attempt spend f h)"
  proof (cases "max_ops h = 0")
    case True
    have "returns (ended (max_ops h)) (f (Inl BudgetExhausted) h)"
      using assms(1) h by (simp add: ends_def)
    then show ?thesis
      using True by (simp add: attempt_def spend_def)
  next
    case False
    then have "returns (ended (max_ops h - 1)) (f (Inr ()) (h\<lparr>max_ops := max_ops h - 1\<rparr>))"
      using endsD [OF assms(2), of "h\<lparr>max_ops := max_ops h - 1\<rparr>"] h by auto
    then have "returns (ended (max_ops h)) (f (Inr ()) (h\<lparr>max_ops := max_ops h - 1\<rparr>))"
      by (rule returns_mono) (auto simp: ended_def)
    then show ?thesis
      using False by (simp add: attempt_def spend_def)
  qed
qed

lemma ends_spend: "ends n (f ()) \<Longrightarrow> ends (Suc n) (and_then spend f)"
  unfolding and_then_attempt by (rule ends_attempt_spend) simp_all

lemma ends_if: "(b \<Longrightarrow> ends n m) \<Longrightarrow> (\<not> b \<Longrightarrow> ends n m') \<Longrightarrow> ends n (if b then m else m')"
  by simp

lemmas ends_rules = ends_spend ends_then ends_attempt ends_if

text \<open>A loop that spends in each round and starts with fuel above the budget ends.\<close>

lemma ends_fueled: "(\<And>k. ends k (f k)) \<Longrightarrow> ends n (fueled f)"
  by (simp add: ends_def fueled_def)

lemma emits_fueled [emits_rules]: "(\<And>n. emits_op_when A G (f n)) \<Longrightarrow> emits_op_when A G (fueled f)"
  by (simp add: emits_op_when_def fueled_def)

lemma within_fueled: "(\<And>n. within 0 (f n)) \<Longrightarrow> within c (fueled f)"
  by (simp add: within_def fueled_def)

end
