(* ===== verification/Memory_Store.thy ===== *)
theory Memory_Store
  imports Object_Store
begin

text \<open>
  The in-memory store of the crate \<open>stowq-store\<close> (\<open>memory.rs\<close>). The ordered map of the source is
  an association list in strictly increasing key order; versions and store times come from two
  counters. The hash (crate \<open>sha2\<close>) is the parameter \<open>H\<close>. The store is an interpretation of
  \<open>store_contract\<close>.
\<close>

section \<open>Ordered maps\<close>

fun bt_insert :: "string \<Rightarrow> 'v \<Rightarrow> (string \<times> 'v) list \<Rightarrow> (string \<times> 'v) list" where
  "bt_insert k v [] = [(k, v)]"
| "bt_insert k v ((k', v') # m) =
     (if k < k' then (k, v) # (k', v') # m
      else if k = k' then (k, v) # m
      else (k', v') # bt_insert k v m)"

definition bt_remove :: "string \<Rightarrow> (string \<times> 'v) list \<Rightarrow> (string \<times> 'v) list" where
  "bt_remove k m = filter (\<lambda>e. fst e \<noteq> k) m"

text \<open>Decimal printing, as \<open>u64::to_string\<close>.\<close>

fun dec_string :: "nat \<Rightarrow> string" where
  "dec_string n =
     (if n < 10 then [char_of (48 + n)] else dec_string (n div 10) @ [char_of (48 + n mod 10)])"

declare dec_string.simps [simp del]

definition version_string :: "u64 \<Rightarrow> string" where
  "version_string v = dec_string (unat v)"

section \<open>State\<close>

record stored =
  stored_body :: bytes
  stored_version :: u64
  stored_time_ns :: u64

record memory_store =
  mem_objects :: "(string \<times> stored) list"
  mem_version_counter :: u64
  mem_clock :: u64
  mem_tick_step_ns :: u64

text \<open>\<open>None\<close> is the panic on a zero step.\<close>

definition with_tick_step_ns :: "u64 \<Rightarrow> memory_store option" where
  "with_tick_step_ns step =
     (if step > 0
      then Some \<lparr>mem_objects = [], mem_version_counter = 1, mem_clock = 1, mem_tick_step_ns = step\<rparr>
      else None)"

definition new_memory_store :: memory_store where
  "new_memory_store = the (with_tick_step_ns 1)"

type_synonym snapshot_entry = "string \<times> bytes \<times> u64 \<times> u64"

definition snapshot_raw :: "memory_store \<Rightarrow> snapshot_entry list \<times> u64 \<times> u64" where
  "snapshot_raw s =
     (map (\<lambda>(k, o'). (k, stored_body o', stored_version o', stored_time_ns o')) (mem_objects s),
      mem_version_counter s, mem_clock s)"

definition restore_raw :: "snapshot_entry list \<Rightarrow> u64 \<Rightarrow> u64 \<Rightarrow> memory_store \<Rightarrow> memory_store" where
  "restore_raw objs next_version clock s =
     s\<lparr>mem_objects := foldl (\<lambda>m (k, body, v, t).
           bt_insert k \<lparr>stored_body = body, stored_version = v, stored_time_ns = t\<rparr> m) (mem_objects s) objs,
       mem_version_counter := next_version, mem_clock := clock\<rparr>"

definition advance_clock_to :: "u64 \<Rightarrow> memory_store \<Rightarrow> memory_store" where
  "advance_clock_to ns s = s\<lparr>mem_clock := max (mem_clock s) ns\<rparr>"

definition next_version :: "memory_store \<Rightarrow> u64 \<times> memory_store" where
  "next_version s = (mem_version_counter s, s\<lparr>mem_version_counter := mem_version_counter s + 1\<rparr>)"

definition next_time :: "memory_store \<Rightarrow> u64 \<times> memory_store" where
  "next_time s =
     (mem_clock s + mem_tick_step_ns s, s\<lparr>mem_clock := mem_clock s + mem_tick_step_ns s\<rparr>)"

definition verify_digest :: "hash_fn \<Rightarrow> bytes \<Rightarrow> digest \<Rightarrow> unit store_result" where
  "verify_digest H body sha256 =
     (if H body \<noteq> sha256 then Inl (IntegrityViolation DigestMismatch) else Inr ())"

section \<open>Operations\<close>

definition stored_meta :: "stored \<Rightarrow> meta" where
  "stored_meta o' =
     \<lparr>meta_version = version_string (stored_version o'), meta_store_time_ns = stored_time_ns o',
      meta_size = of_nat (length (stored_body o'))\<rparr>"

definition mem_write :: "memory_store \<Rightarrow> string \<Rightarrow> bytes \<Rightarrow> put_outcome store_result \<times> memory_store" where
  "mem_write s key body =
     (let (version, s1) = next_version s; (t, s2) = next_time s1
      in (Inr (Committed (version_string version)),
          s2\<lparr>mem_objects := bt_insert key
               \<lparr>stored_body = body, stored_version = version, stored_time_ns = t\<rparr> (mem_objects s2)\<rparr>))"

definition mem_put_if_absent ::
  "hash_fn \<Rightarrow> memory_store \<Rightarrow> string \<Rightarrow> bytes \<Rightarrow> digest \<Rightarrow> put_outcome store_result \<times> memory_store" where
  "mem_put_if_absent H s key body sha256 =
     (case verify_digest H body sha256 of
        Inl e \<Rightarrow> (Inl e, s)
      | Inr _ \<Rightarrow>
          if map_of (mem_objects s) key \<noteq> None then (Inr Rejected, s)
          else mem_write s key body)"

definition mem_cas ::
  "hash_fn \<Rightarrow> memory_store \<Rightarrow> string \<Rightarrow> bytes \<Rightarrow> digest \<Rightarrow> string
     \<Rightarrow> put_outcome store_result \<times> memory_store" where
  "mem_cas H s key body sha256 if_match =
     (case verify_digest H body sha256 of
        Inl e \<Rightarrow> (Inl e, s)
      | Inr _ \<Rightarrow>
          (case map_of (mem_objects s) key of
             None \<Rightarrow> (Inl NotFound, s)
           | Some o' \<Rightarrow>
               if version_string (stored_version o') \<noteq> if_match then (Inr Rejected, s)
               else mem_write s key body))"

definition mem_get ::
  "memory_store \<Rightarrow> string \<Rightarrow> (u64 \<times> u64) option \<Rightarrow> object store_result \<times> memory_store" where
  "mem_get s key rng =
     (case map_of (mem_objects s) key of
        None \<Rightarrow> (Inl NotFound, s)
      | Some o' \<Rightarrow>
          (case rng of
             None \<Rightarrow> (Inr \<lparr>obj_meta = stored_meta o', obj_body = stored_body o'\<rparr>, s)
           | Some (a, b) \<Rightarrow>
               if a \<ge> b \<or> b > of_nat (length (stored_body o')) then (Inl NotFound, s)
               else (Inr \<lparr>obj_meta = stored_meta o',
                      obj_body = take (unat b - unat a) (drop (unat a) (stored_body o'))\<rparr>, s)))"

definition mem_head :: "memory_store \<Rightarrow> string \<Rightarrow> meta store_result \<times> memory_store" where
  "mem_head s key =
     (case map_of (mem_objects s) key of
        None \<Rightarrow> (Inl NotFound, s)
      | Some o' \<Rightarrow> (Inr (stored_meta o'), s))"

fun mem_list_loop :: "string \<Rightarrow> string option \<Rightarrow> nat \<Rightarrow> listing list \<Rightarrow> string option
    \<Rightarrow> (string \<times> stored) list \<Rightarrow> page" where
  "mem_list_loop p after limit items last_key [] =
     \<lparr>page_items = items, page_next_after = None\<rparr>"
| "mem_list_loop p after limit items last_key ((k, o') # rest) =
     (if (case after of None \<Rightarrow> False | Some a \<Rightarrow> k \<le> a) \<or> \<not> prefix p k
      then mem_list_loop p after limit items last_key rest
      else if length items = limit then \<lparr>page_items = items, page_next_after = last_key\<rparr>
      else mem_list_loop p after limit
             (items @ [\<lparr>item_key = k, item_meta = stored_meta o'\<rparr>]) (Some k) rest)"

definition mem_list ::
  "memory_store \<Rightarrow> string \<Rightarrow> string option \<Rightarrow> nat \<Rightarrow> page store_result \<times> memory_store" where
  "mem_list s p after limit =
     (Inr (mem_list_loop p after limit [] None
        (filter (\<lambda>e. (case after of None \<Rightarrow> [] | Some a \<Rightarrow> a) \<le> fst e) (mem_objects s))), s)"

definition mem_delete :: "memory_store \<Rightarrow> string \<Rightarrow> unit store_result \<times> memory_store" where
  "mem_delete s key = (Inr (), s\<lparr>mem_objects := bt_remove key (mem_objects s)\<rparr>)"

definition memory_ops :: "hash_fn \<Rightarrow> memory_store object_store" where
  "memory_ops H =
     \<lparr>os_put_if_absent = mem_put_if_absent H, os_cas = mem_cas H, os_get = mem_get,
      os_head = mem_head, os_list = mem_list, os_delete = mem_delete\<rparr>"

section \<open>Lemmas: ordered maps\<close>

lemma map_of_bt_insert [simp]: "map_of (bt_insert k v m) = (map_of m)(k \<mapsto> v)"
  by (induction k v m rule: bt_insert.induct) (auto simp: fun_eq_iff)

lemma keys_bt_insert: "fst ` set (bt_insert k v m) = insert k (fst ` set m)"
  by (induction k v m rule: bt_insert.induct) auto

lemma sorted_bt_insert:
  "sorted_wrt (<) (map fst m) \<Longrightarrow> sorted_wrt (<) (map fst (bt_insert k v m))"
proof (induction k v m rule: bt_insert.induct)
  case (2 k v k' v' m)
  have "a \<in> insert k (fst ` set m)" if "(a, b) \<in> set (bt_insert k v m)" for a b
    using that keys_bt_insert [of k v m] by force
  with 2 show ?case
    by (force simp: sorted_wrt_map)
qed simp

lemma map_of_bt_remove [simp]: "map_of (bt_remove k m) = (map_of m)(k := None)"
  by (induction m) (auto simp: bt_remove_def fun_eq_iff)

lemma sorted_bt_remove:
  "sorted_wrt (<) (map fst m) \<Longrightarrow> sorted_wrt (<) (map fst (bt_remove k m))"
  by (simp add: bt_remove_def sorted_wrt_map sorted_wrt_filter)

lemma map_of_sorted_Some_iff:
  fixes m :: "(string \<times> 'v) list"
  shows "sorted_wrt (<) (map fst m) \<Longrightarrow> map_of m k = Some v \<longleftrightarrow> (k, v) \<in> set m"
  by (simp add: strict_sorted_iff)

section \<open>Lemmas: the store\<close>

definition mem_contents :: "memory_store \<Rightarrow> contents" where
  "mem_contents s k =
     map_option (\<lambda>o'. \<lparr>obj_meta = stored_meta o', obj_body = stored_body o'\<rparr>) (map_of (mem_objects s) k)"

definition mem_inv :: "memory_store \<Rightarrow> bool" where
  "mem_inv s \<longleftrightarrow> sorted_wrt (<) (map fst (mem_objects s))"

lemma mem_write_props:
  assumes "mem_write s k b = (r, s')"
  shows "\<exists>m. mem_contents s' = (mem_contents s)(k \<mapsto> \<lparr>obj_meta = m, obj_body = b\<rparr>)"
    "mem_inv s \<Longrightarrow> mem_inv s'" "\<exists>v. r = Inr (Committed v)"
proof -
  let ?o = "\<lparr>stored_body = b, stored_version = mem_version_counter s,
    stored_time_ns = mem_clock s + mem_tick_step_ns s\<rparr>"
  have s': "mem_objects s' = bt_insert k ?o (mem_objects s)" and r: "\<exists>v. r = Inr (Committed v)"
    using assms by (auto simp: mem_write_def next_version_def next_time_def)
  show "\<exists>m. mem_contents s' = (mem_contents s)(k \<mapsto> \<lparr>obj_meta = m, obj_body = b\<rparr>)"
    by (intro exI [of _ "stored_meta ?o"]) (simp add: mem_contents_def fun_eq_iff s')
  show "mem_inv s \<Longrightarrow> mem_inv s'"
    by (simp add: mem_inv_def s' sorted_bt_insert)
  show "\<exists>v. r = Inr (Committed v)" by (rule r)
qed

definition list_match :: "string \<Rightarrow> string option \<Rightarrow> string \<times> stored \<Rightarrow> bool" where
  "list_match p after e \<longleftrightarrow> prefix p (fst e) \<and> (case after of None \<Rightarrow> True | Some a \<Rightarrow> a < fst e)"

definition listing_of :: "string \<times> stored \<Rightarrow> listing" where
  "listing_of e = \<lparr>item_key = fst e, item_meta = stored_meta (snd e)\<rparr>"

lemma mem_list_loop_eq:
  assumes "length items \<le> limit" "lk = (if items = [] then None else Some (item_key (last items)))"
  shows "mem_list_loop p after limit items lk entries =
    (let all = items @ map listing_of (filter (list_match p after) entries)
     in \<lparr>page_items = take limit all,
         page_next_after =
           (if limit = 0 \<or> length all \<le> limit then None else Some (item_key (all ! (limit - 1))))\<rparr>)"
  using assms
proof (induction entries arbitrary: items lk)
  case (Cons e entries)
  obtain k o' where e: "e = (k, o')" by (cases e)
  have match: "(case after of None \<Rightarrow> False | Some a \<Rightarrow> k \<le> a) \<or> \<not> prefix p k \<longleftrightarrow> \<not> list_match p after e"
    by (auto simp: list_match_def e split: option.split)
  show ?case
  proof (cases "list_match p after e")
    case False
    then show ?thesis
      using Cons match by (simp add: e)
  next
    case True
    show ?thesis
    proof (cases "length items = limit")
      case full: True
      have "item_key (last items) = item_key (items ! (limit - 1))" if "items \<noteq> []"
        using that full by (simp add: last_conv_nth)
      then show ?thesis
        using True match Cons.prems full by (auto simp: e Let_def nth_append)
    next
      case False
      have "mem_list_loop p after limit items lk (e # entries) =
          mem_list_loop p after limit (items @ [listing_of e]) (Some k) entries"
        using True False match by (simp add: e listing_of_def)
      also have "\<dots> = (let all = (items @ [listing_of e]) @ map listing_of (filter (list_match p after) entries)
          in \<lparr>page_items = take limit all,
              page_next_after =
                (if limit = 0 \<or> length all \<le> limit then None else Some (item_key (all ! (limit - 1))))\<rparr>)"
        using Cons.prems False by (intro Cons.IH) (auto simp: e listing_of_def)
      finally show ?thesis
        using True by simp
    qed
  qed
qed (auto simp: Let_def)

lemma mem_list_eq:
  "mem_list s p after limit =
    (let all = map listing_of (filter (list_match p after) (mem_objects s))
     in (Inr \<lparr>page_items = take limit all,
         page_next_after =
           (if limit = 0 \<or> length all \<le> limit then None else Some (item_key (all ! (limit - 1))))\<rparr>, s))"
proof -
  have "list_match p after e \<and> (case after of None \<Rightarrow> [] | Some a \<Rightarrow> a) \<le> fst e \<longleftrightarrow> list_match p after e"
    for e :: "string \<times> stored"
    by (auto simp: list_match_def split: option.splits)
  then show ?thesis
    by (simp add: mem_list_def mem_list_loop_eq Let_def conj_commute)
qed

lemma mem_list_exact:
  assumes "mem_inv s" "mem_list s p after limit = (Inr pg, s')"
  shows "page_exact (mem_contents s) p after limit pg \<and> s' = s"
proof -
  let ?ms = "filter (list_match p after) (mem_objects s)"
  have sorted: "sorted_wrt (<) (map fst (mem_objects s))"
    using assms(1) by (simp add: mem_inv_def)
  have pg: "pg = (let all = map listing_of ?ms
     in \<lparr>page_items = take limit all, page_next_after =
           (if limit = 0 \<or> length all \<le> limit then None else Some (item_key (all ! (limit - 1))))\<rparr>)"
    and s': "s' = s"
    using assms(2) unfolding mem_list_eq Let_def by auto
  have "sorted_wrt (<) (map fst ?ms)"
    using sorted by (simp add: sorted_wrt_map sorted_wrt_filter)
  moreover have "set (map fst ?ms) = listed_keys (mem_contents s) p after"
    by (force simp: listed_keys_def list_match_def mem_contents_def map_of_eq_None_iff)
  moreover have "map item_key (page_items pg) = take limit (map fst ?ms)"
    by (simp add: pg Let_def take_map listing_of_def comp_def)
  moreover have "\<forall>it \<in> set (page_items pg).
      map_option obj_meta (mem_contents s (item_key it)) = Some (item_meta it)"
  proof
    fix it
    assume "it \<in> set (page_items pg)"
    then obtain k v where kv: "(k, v) \<in> set (mem_objects s)" "it = listing_of (k, v)"
      by (auto simp: pg Let_def dest!: in_set_takeD)
    then have "map_of (mem_objects s) k = Some v"
      using sorted by (simp add: map_of_sorted_Some_iff)
    then show "map_option obj_meta (mem_contents s (item_key it)) = Some (item_meta it)"
      by (simp add: kv(2) mem_contents_def listing_of_def)
  qed
  moreover have "page_next_after pg =
      (if limit = 0 \<or> length (map fst ?ms) \<le> limit then None else Some (map fst ?ms ! (limit - 1)))"
    by (auto simp: pg Let_def listing_of_def)
  ultimately show ?thesis
    unfolding page_exact_def s' by blast
qed

lemma mem_contents_None_iff: "mem_contents s k = None \<longleftrightarrow> map_of (mem_objects s) k = None"
  by (simp add: mem_contents_def)

lemma mem_put_cases:
  assumes "mem_put_if_absent H s k b d = (r, s')"
  obtains (bad) "r = Inl (IntegrityViolation DigestMismatch)" "s' = s" "H b \<noteq> d"
    | (rejected) "r = Inr Rejected" "s' = s" "mem_contents s k \<noteq> None" "H b = d"
    | (committed) "mem_write s k b = (r, s')" "mem_contents s k = None" "H b = d"
proof (cases "H b = d")
  case True
  then show ?thesis
    using assms rejected committed
    by (cases "mem_contents s k = None")
      (simp_all add: mem_put_if_absent_def verify_digest_def mem_contents_None_iff)
next
  case False
  then show ?thesis
    using assms bad by (simp add: mem_put_if_absent_def verify_digest_def)
qed

lemma mem_cas_cases:
  assumes "mem_cas H s k b d v = (r, s')"
  obtains (bad) "r = Inl (IntegrityViolation DigestMismatch)" "s' = s" "H b \<noteq> d"
    | (absent) "r = Inl NotFound" "s' = s" "mem_contents s k = None"
    | (rejected) "r = Inr Rejected" "s' = s"
    | (committed) ob where "mem_write s k b = (r, s')" "mem_contents s k = Some ob"
        "meta_version (obj_meta ob) = v"
proof (cases "H b = d")
  case True
  show ?thesis
  proof (cases "map_of (mem_objects s) k")
    case None
    then show ?thesis
      using assms True absent by (simp add: mem_cas_def verify_digest_def mem_contents_def)
  next
    case (Some o')
    then show ?thesis
      using assms True rejected committed
      by (cases "version_string (stored_version o') = v")
        (simp_all add: mem_cas_def verify_digest_def mem_contents_def stored_meta_def)
  qed
next
  case False
  then show ?thesis
    using assms bad by (simp add: mem_cas_def verify_digest_def)
qed

interpretation mem: store_contract "memory_ops H" mem_contents mem_inv for H
proof (unfold_locales, goal_cases)
  case (1 s k b d r s')
  then show ?case
    by (auto simp: memory_ops_def elim!: mem_put_cases dest: mem_write_props(2))
next
  case (2 s k b d v r s')
  then show ?case
    by (auto simp: memory_ops_def elim!: mem_cas_cases dest: mem_write_props(2))
next
  case (3 s k rg r s')
  then show ?case
    by (auto simp: memory_ops_def mem_get_def split: option.splits if_splits)
next
  case (4 s k r s')
  then show ?case
    by (auto simp: memory_ops_def mem_head_def split: option.splits)
next
  case (5 s p after limit r s')
  then show ?case
    by (auto simp: memory_ops_def mem_list_def)
next
  case (6 s k r s')
  then show ?case
    by (auto simp: memory_ops_def mem_delete_def mem_inv_def sorted_bt_remove)
next
  case (7 s k b d v s')
  then show ?case
    by (auto simp: memory_ops_def put_change_def elim!: mem_put_cases dest: mem_write_props(1))
next
  case (8 s k b d s')
  then show ?case
    by (auto simp: memory_ops_def elim!: mem_put_cases dest: mem_write_props(3))
next
  case (9 s k b d e s')
  then show ?case
    by (auto simp: memory_ops_def elim!: mem_put_cases dest: mem_write_props(3))
next
  case (10 s k b d v v' s')
  then show ?case
    by (auto simp: memory_ops_def cas_change_def elim!: mem_cas_cases dest: mem_write_props(1))
next
  case (11 s k b d v s')
  then show ?case
    by (auto simp: memory_ops_def elim!: mem_cas_cases dest: mem_write_props(3))
next
  case (12 s k b d v e s')
  then show ?case
    by (auto simp: memory_ops_def elim!: mem_cas_cases dest: mem_write_props(3))
next
  case (13 s k rg r s')
  then show ?case
    by (auto simp: memory_ops_def mem_get_def split: option.splits if_splits)
next
  case (14 s k ob s')
  then show ?case
    by (auto simp: memory_ops_def mem_get_def mem_contents_def split: option.splits)
next
  case (15 s k s')
  then show ?case
    by (auto simp: memory_ops_def mem_get_def mem_contents_def split: option.splits)
next
  case (16 s k r s')
  then show ?case
    by (auto simp: memory_ops_def mem_head_def split: option.splits)
next
  case (17 s k m s')
  then show ?case
    by (auto simp: memory_ops_def mem_head_def mem_contents_def split: option.splits)
next
  case (18 s k s')
  then show ?case
    by (auto simp: memory_ops_def mem_head_def mem_contents_def split: option.splits)
next
  case (19 s p after limit r s')
  then show ?case
    by (auto simp: memory_ops_def mem_list_def)
next
  case (20 s p after limit pg s')
  then show ?case
    using mem_list_exact [of s p after limit pg s'] by (simp add: memory_ops_def)
next
  case (21 s k s')
  then show ?case
    by (auto simp: memory_ops_def mem_delete_def mem_contents_def fun_eq_iff)
next
  case (22 s k e s')
  then show ?case
    by (auto simp: memory_ops_def mem_delete_def)
qed

interpretation mem_trait: store_trait "memory_ops H" mem_contents mem_inv H for H
proof (unfold_locales, goal_cases)
  case (1 s k b d r s')
  then show ?case
    by (auto simp: memory_ops_def mem_put_if_absent_def verify_digest_def digest_error_def)
next
  case (2 s k b d v r s')
  then show ?case
    by (auto simp: memory_ops_def mem_cas_def verify_digest_def digest_error_def)
next
  case (3 s k x y ob s')
  then show ?case
    by (auto simp: memory_ops_def mem_get_def mem_contents_def range_ok_def range_of_def split: option.splits if_splits)
next
  case (4 s k x y s')
  then show ?case
    by (auto simp: memory_ops_def mem_get_def mem_contents_def range_ok_def split: option.splits if_splits)
qed

end
