(* ===== verification/Fault_Injector.thy ===== *)
theory Fault_Injector
  imports Memory_Store
begin

text \<open>
  The fault injector of the crate \<open>stowq-store\<close> (\<open>injector.rs\<close>): a wrapper around any store that
  fails scripted calls before transmission, after transmission, or after the store applied
  them. Wrapping a store keeps the contract \<open>store_contract\<close> (\<open>injector_contract\<close>); the
  interpretation is over the in-memory store.
\<close>

section \<open>State\<close>

datatype fault = FaultPreTransmit | FaultPostTransmit | FaultPostTransmitAfter

datatype store_op = OpPutIfAbsent | OpCas | OpGet | OpHead | OpList | OpDelete

datatype action = Pass | Fail store_error | FailAfter

record fault_plan =
  plan_op :: store_op
  plan_at :: "nat list"
  plan_fault :: fault

record plan_state =
  ps_count :: nat
  ps_remaining :: "nat list"
  ps_fired :: nat

record 's injector =
  inj_store :: 's
  inj_plans :: "(fault_plan \<times> plan_state) list"
  inj_calls :: nat

definition new_injector :: "'s \<Rightarrow> fault_plan list \<Rightarrow> 's injector" where
  "new_injector s plans =
     \<lparr>inj_store = s,
      inj_plans = map (\<lambda>p. (p, \<lparr>ps_count = 0, ps_remaining = remdups_adj (sort (plan_at p)), ps_fired = 0\<rparr>)) plans,
      inj_calls = 0\<rparr>"

definition inj_fired :: "'s injector \<Rightarrow> nat list" where
  "inj_fired s = map (\<lambda>p. ps_fired (snd p)) (inj_plans s)"

section \<open>Deciding a call\<close>

definition fault_action :: "fault \<Rightarrow> action" where
  "fault_action f =
     (case f of
        FaultPreTransmit \<Rightarrow> Fail (Transport PreTransmit)
      | FaultPostTransmit \<Rightarrow> Fail (OutcomeUnknown ConnectionLost)
      | FaultPostTransmitAfter \<Rightarrow> FailAfter)"

fun check_plans :: "store_op \<Rightarrow> (fault_plan \<times> plan_state) list
    \<Rightarrow> action \<times> (fault_plan \<times> plan_state) list" where
  "check_plans op [] = (Pass, [])"
| "check_plans op ((plan, state) # rest) =
     (if plan_op plan \<noteq> op then
        let (a, rest') = check_plans op rest in (a, (plan, state) # rest')
      else
        let this_call = ps_count state; counted = state\<lparr>ps_count := this_call + 1\<rparr>
        in if ps_remaining state \<noteq> [] \<and> hd (ps_remaining state) = this_call then
             (fault_action (plan_fault plan),
              (plan, counted\<lparr>ps_remaining := tl (ps_remaining state), ps_fired := ps_fired state + 1\<rparr>) # rest)
           else let (a, rest') = check_plans op rest in (a, (plan, counted) # rest'))"

definition inj_check :: "store_op \<Rightarrow> 's injector \<Rightarrow> action \<times> 's injector" where
  "inj_check op s =
     (let (a, plans) = check_plans op (inj_plans s)
      in (a, s\<lparr>inj_plans := plans, inj_calls := inj_calls s + 1\<rparr>))"

section \<open>Operations\<close>

definition inj_call :: "store_op \<Rightarrow> ('s \<Rightarrow> 'a store_result \<times> 's) \<Rightarrow> 's injector
    \<Rightarrow> 'a store_result \<times> 's injector" where
  "inj_call op f s =
     (let (a, s1) = inj_check op s
      in case a of
           Fail e \<Rightarrow> (Inl e, s1)
         | FailAfter \<Rightarrow>
             (let (r, st') = f (inj_store s1)
              in (case r of Inl e \<Rightarrow> Inl e | Inr _ \<Rightarrow> Inl (OutcomeUnknown ConnectionLost),
                  s1\<lparr>inj_store := st'\<rparr>))
         | Pass \<Rightarrow> (let (r, st') = f (inj_store s1) in (r, s1\<lparr>inj_store := st'\<rparr>)))"

definition injector_ops :: "'s object_store \<Rightarrow> 's injector object_store" where
  "injector_ops st =
     \<lparr>os_put_if_absent = (\<lambda>s k b d. inj_call OpPutIfAbsent (\<lambda>x. os_put_if_absent st x k b d) s),
      os_cas = (\<lambda>s k b d v. inj_call OpCas (\<lambda>x. os_cas st x k b d v) s),
      os_get = (\<lambda>s k rg. inj_call OpGet (\<lambda>x. os_get st x k rg) s),
      os_head = (\<lambda>s k. inj_call OpHead (\<lambda>x. os_head st x k) s),
      os_list = (\<lambda>s p a l. inj_call OpList (\<lambda>x. os_list st x p a l) s),
      os_delete = (\<lambda>s k. inj_call OpDelete (\<lambda>x. os_delete st x k) s)\<rparr>"

section \<open>Lemmas\<close>

lemma inj_check_store: "inj_check op s = (a, s1) \<Longrightarrow> inj_store s1 = inj_store s"
  by (auto simp: inj_check_def split: prod.splits)

lemma check_plans_action:
  "fst (check_plans op ps) \<in> {Pass, FailAfter, Fail (Transport PreTransmit), Fail (OutcomeUnknown ConnectionLost)}"
  by (induction op ps rule: check_plans.induct)
    (auto simp: fault_action_def Let_def split: prod.splits fault.splits)

lemma inj_call_cases:
  assumes "inj_call op f s = (r, s')"
  obtains (refused) e where "r = Inl e" "e = Transport PreTransmit \<or> e = OutcomeUnknown ConnectionLost"
      "inj_store s' = inj_store s"
    | (lost) x where "f (inj_store s) = (Inr x, inj_store s')" "r = Inl (OutcomeUnknown ConnectionLost)"
    | (passed) "f (inj_store s) = (r, inj_store s')"
proof -
  obtain a s1 where a: "inj_check op s = (a, s1)"
    by (cases "inj_check op s")
  obtain r' st' where f: "f (inj_store s) = (r', st')"
    by (cases "f (inj_store s)")
  have s1: "inj_store s1 = inj_store s"
    using a by (rule inj_check_store)
  show ?thesis
  proof (cases a)
    case Pass
    then have "f (inj_store s) = (r, inj_store s')"
      using assms a f s1 by (auto simp: inj_call_def)
    then show ?thesis
      by (rule passed)
  next
    case (Fail e)
    then have "e = Transport PreTransmit \<or> e = OutcomeUnknown ConnectionLost"
      using a check_plans_action [of op "inj_plans s"]
      by (auto simp: inj_check_def split: prod.splits)
    moreover have "r = Inl e" "inj_store s' = inj_store s"
      using assms a Fail s1 by (auto simp: inj_call_def)
    ultimately show ?thesis
      using refused by blast
  next
    case FailAfter
    then have s': "inj_store s' = st'"
        and r: "r = (case r' of Inl e \<Rightarrow> Inl e | Inr _ \<Rightarrow> Inl (OutcomeUnknown ConnectionLost))"
      using assms a f s1 by (auto simp: inj_call_def)
    show ?thesis
    proof (cases r')
      case (Inl e)
      then show ?thesis
        using r s' f passed by simp
    next
      case (Inr x)
      then show ?thesis
        using r s' f lost by simp
    qed
  qed
qed

lemma injector_contract:
  assumes "store_contract st contents I"
  shows "store_contract (injector_ops st) (\<lambda>s. contents (inj_store s)) (\<lambda>s. I (inj_store s))"
proof (unfold_locales, goal_cases)
  case (1 s k b d r s')
  then show ?case
    by (auto simp: injector_ops_def elim!: inj_call_cases dest: store_contract.inv_put [OF assms])
next
  case (2 s k b d v r s')
  then show ?case
    by (auto simp: injector_ops_def elim!: inj_call_cases dest: store_contract.inv_cas [OF assms])
next
  case (3 s k rg r s')
  then show ?case
    by (auto simp: injector_ops_def elim!: inj_call_cases dest: store_contract.inv_get [OF assms])
next
  case (4 s k r s')
  then show ?case
    by (auto simp: injector_ops_def elim!: inj_call_cases dest: store_contract.inv_head [OF assms])
next
  case (5 s p after limit r s')
  then show ?case
    by (auto simp: injector_ops_def elim!: inj_call_cases dest: store_contract.inv_list [OF assms])
next
  case (6 s k r s')
  then show ?case
    by (auto simp: injector_ops_def elim!: inj_call_cases dest: store_contract.inv_delete [OF assms])
next
  case (7 s k b d v s')
  then show ?case
    by (auto simp: injector_ops_def elim!: inj_call_cases dest: store_contract.put_committed [OF assms])
next
  case (8 s k b d s')
  then show ?case
    by (auto simp: injector_ops_def elim!: inj_call_cases dest: store_contract.put_rejected [OF assms])
next
  case (9 s k b d e s')
  then show ?case
    by (auto simp: injector_ops_def elim!: inj_call_cases
        dest: store_contract.put_failed [OF assms] store_contract.put_cases [OF assms])
next
  case (10 s k b d v v' s')
  then show ?case
    by (auto simp: injector_ops_def elim!: inj_call_cases dest: store_contract.cas_committed [OF assms])
next
  case (11 s k b d v s')
  then show ?case
    by (auto simp: injector_ops_def elim!: inj_call_cases dest: store_contract.cas_rejected [OF assms])
next
  case (12 s k b d v e s')
  then show ?case
    by (auto simp: injector_ops_def elim!: inj_call_cases
        dest: store_contract.cas_failed [OF assms] store_contract.cas_cases [OF assms])
next
  case (13 s k rg r s')
  then show ?case
    by (auto simp: injector_ops_def elim!: inj_call_cases dest: store_contract.get_keeps [OF assms])
next
  case (14 s k ob s')
  then show ?case
    by (auto simp: injector_ops_def elim!: inj_call_cases dest: store_contract.get_found [OF assms])
next
  case (15 s k s')
  then show ?case
    by (auto simp: injector_ops_def elim!: inj_call_cases dest: store_contract.get_absent [OF assms])
next
  case (16 s k r s')
  then show ?case
    by (auto simp: injector_ops_def elim!: inj_call_cases dest: store_contract.head_keeps [OF assms])
next
  case (17 s k m s')
  then show ?case
    by (auto simp: injector_ops_def elim!: inj_call_cases dest: store_contract.head_found [OF assms])
next
  case (18 s k s')
  then show ?case
    by (auto simp: injector_ops_def elim!: inj_call_cases dest: store_contract.head_absent [OF assms])
next
  case (19 s p after limit r s')
  then show ?case
    by (auto simp: injector_ops_def elim!: inj_call_cases dest: store_contract.list_keeps [OF assms])
next
  case (20 s p after limit pg s')
  then show ?case
    by (auto simp: injector_ops_def elim!: inj_call_cases dest: store_contract.list_exact [OF assms])
next
  case (21 s k s')
  then show ?case
    by (auto simp: injector_ops_def elim!: inj_call_cases dest: store_contract.delete_done [OF assms])
next
  case (22 s k e s')
  then show ?case
    by (auto simp: injector_ops_def elim!: inj_call_cases
        dest: store_contract.delete_failed [OF assms] store_contract.delete_done [OF assms])
qed

interpretation inj: store_contract "injector_ops (memory_ops H)"
    "\<lambda>s. mem_contents (inj_store s)" "\<lambda>s. mem_inv (inj_store s)" for H
  by (rule injector_contract) unfold_locales

lemma injector_trait:
  assumes "store_trait st contents I H"
  shows "store_trait (injector_ops st) (\<lambda>s. contents (inj_store s)) (\<lambda>s. I (inj_store s)) H"
proof (rule store_trait.intro [OF injector_contract [OF store_trait.axioms(1) [OF assms]]], unfold_locales, goal_cases)
  case (1 s k b d r s')
  then show ?case
    by (auto simp: injector_ops_def digest_error_def elim!: inj_call_cases dest: store_trait.put_verified [OF assms])
next
  case (2 s k b d v r s')
  then show ?case
    by (auto simp: injector_ops_def digest_error_def elim!: inj_call_cases dest: store_trait.cas_verified [OF assms])
next
  case (3 s k x y ob s')
  then show ?case
    by (auto simp: injector_ops_def elim!: inj_call_cases dest: store_trait.range_found [OF assms])
next
  case (4 s k x y s')
  then show ?case
    by (auto simp: injector_ops_def elim!: inj_call_cases dest: store_trait.range_absent [OF assms])
qed

interpretation inj_trait: store_trait "injector_ops (memory_ops H)"
    "\<lambda>s. mem_contents (inj_store s)" "\<lambda>s. mem_inv (inj_store s)" H for H
  by (rule injector_trait) unfold_locales

end
