(* ===== verification/Interference.thy ===== *)
theory Interference
  imports Op_Monad Fault_Injector
begin

text \<open>
  Concurrent clients. Other workers share the store and act between any two calls of an
  operation. What is fixed is which keys they leave alone once written: \<open>client_step\<close> lets
  another client do anything but overwrite or delete a protected key. \<open>awp\<close> is the weakest
  precondition of a program on the abstract contents of a store, under such interference and
  with every answer the store contract allows; \<open>exec_sound\<close> shows that every store meeting the
  contract refines it. \<open>triple\<close> is the program logic the queue proofs use.
\<close>

named_theorems stays_rules \<open>facts that interference preserves\<close>

section \<open>Protected keys\<close>

definition grows :: "(string \<Rightarrow> bool) \<Rightarrow> contents \<Rightarrow> contents \<Rightarrow> bool" where
  "grows prot c c' \<longleftrightarrow> (\<forall>k ob. prot k \<longrightarrow> c k = Some ob \<longrightarrow> c' k = Some ob)"

definition stays :: "(string \<Rightarrow> bool) \<Rightarrow> (contents \<Rightarrow> bool) \<Rightarrow> bool" where
  "stays prot P \<longleftrightarrow> (\<forall>c c'. P c \<longrightarrow> grows prot c c' \<longrightarrow> P c')"

text \<open>A request that leaves protected keys alone.\<close>

fun harmless :: "(string \<Rightarrow> bool) \<Rightarrow> request \<Rightarrow> bool" where
  "harmless prot (ReqCas k b d v) = (\<not> prot k)"
| "harmless prot (ReqDelete k) = (\<not> prot k)"
| "harmless prot _ = True"

text \<open>A request that at most removes unprotected keys.\<close>

fun prunes :: "(string \<Rightarrow> bool) \<Rightarrow> request \<Rightarrow> bool" where
  "prunes prot (ReqPut k b d) = False"
| "prunes prot (ReqCas k b d v) = False"
| "prunes prot (ReqDelete k) = (\<not> prot k)"
| "prunes prot _ = True"

inductive client_step :: "'s object_store \<Rightarrow> (string \<Rightarrow> bool) \<Rightarrow> 's \<Rightarrow> 's \<Rightarrow> bool"
  for st :: "'s object_store" and prot :: "string \<Rightarrow> bool" where
  step_put: "os_put_if_absent st s k b d = (r, s') \<Longrightarrow> client_step st prot s s'"
| step_cas: "os_cas st s k b d v = (r, s') \<Longrightarrow> \<not> prot k \<Longrightarrow> client_step st prot s s'"
| step_get: "os_get st s k rg = (r, s') \<Longrightarrow> client_step st prot s s'"
| step_head: "os_head st s k = (r, s') \<Longrightarrow> client_step st prot s s'"
| step_list: "os_list st s p a n = (r, s') \<Longrightarrow> client_step st prot s s'"
| step_delete: "os_delete st s k = (r, s') \<Longrightarrow> \<not> prot k \<Longrightarrow> client_step st prot s s'"

section \<open>Answers on the contents\<close>

definition put_ans :: "contents \<Rightarrow> string \<Rightarrow> bytes \<Rightarrow> put_outcome store_result \<Rightarrow> contents \<Rightarrow> bool" where
  "put_ans c k b r c' = (case r of
     Inr (Committed v) \<Rightarrow> put_change c k b c'
   | Inr Rejected \<Rightarrow> c k \<noteq> None \<and> c' = c
   | Inl e \<Rightarrow> c' = c \<or> is_unknown e \<and> put_change c k b c')"

definition cas_ans ::
  "contents \<Rightarrow> string \<Rightarrow> bytes \<Rightarrow> string \<Rightarrow> put_outcome store_result \<Rightarrow> contents \<Rightarrow> bool" where
  "cas_ans c k b v r c' = (case r of
     Inr (Committed v') \<Rightarrow> cas_change c k b v c'
   | Inr Rejected \<Rightarrow> c' = c
   | Inl e \<Rightarrow> c' = c \<or> is_unknown e \<and> cas_change c k b v c')"

definition get_ans :: "contents \<Rightarrow> string \<Rightarrow> object store_result \<Rightarrow> bool" where
  "get_ans c k r = (case r of Inr ob \<Rightarrow> c k = Some ob | Inl e \<Rightarrow> e = NotFound \<longrightarrow> c k = None)"

definition head_ans :: "contents \<Rightarrow> string \<Rightarrow> meta store_result \<Rightarrow> bool" where
  "head_ans c k r = (case r of Inr m \<Rightarrow> map_option obj_meta (c k) = Some m | Inl e \<Rightarrow> e = NotFound \<longrightarrow> c k = None)"

definition list_ans :: "contents \<Rightarrow> string \<Rightarrow> string option \<Rightarrow> nat \<Rightarrow> page store_result \<Rightarrow> bool" where
  "list_ans c p a n r = (case r of Inr pg \<Rightarrow> page_exact c p a n pg | Inl e \<Rightarrow> True)"

definition delete_ans :: "contents \<Rightarrow> string \<Rightarrow> unit store_result \<Rightarrow> contents \<Rightarrow> bool" where
  "delete_ans c k r c' = (case r of
     Inr _ \<Rightarrow> c' = c(k := None)
   | Inl e \<Rightarrow> c' = c \<or> is_unknown e \<and> c' = c(k := None))"

section \<open>Weakest preconditions on the contents\<close>

primrec awp :: "(string \<Rightarrow> bool) \<Rightarrow> 'a prog \<Rightarrow> ('a \<Rightarrow> contents \<Rightarrow> bool) \<Rightarrow> contents \<Rightarrow> bool" where
  "awp prot (Done x) Q c = (\<forall>c'. grows prot c c' \<longrightarrow> Q x c')"
| "awp prot (Put k b d f) Q c =
     (\<forall>c0 r c1. grows prot c c0 \<longrightarrow> put_ans c0 k b r c1 \<longrightarrow> awp prot (f r) Q c1)"
| "awp prot (Cas k b d v f) Q c =
     (\<forall>c0 r c1. grows prot c c0 \<longrightarrow> cas_ans c0 k b v r c1 \<longrightarrow> awp prot (f r) Q c1)"
| "awp prot (Get k f) Q c =
     (\<forall>c0 r. grows prot c c0 \<longrightarrow> get_ans c0 k r \<longrightarrow> awp prot (f r) Q c0)"
| "awp prot (Head k f) Q c =
     (\<forall>c0 r. grows prot c c0 \<longrightarrow> head_ans c0 k r \<longrightarrow> awp prot (f r) Q c0)"
| "awp prot (ListPage p a n f) Q c =
     (\<forall>c0 r. grows prot c c0 \<longrightarrow> list_ans c0 p a n r \<longrightarrow> awp prot (f r) Q c0)"
| "awp prot (Delete k f) Q c =
     (\<forall>c0 r c1. grows prot c c0 \<longrightarrow> delete_ans c0 k r c1 \<longrightarrow> awp prot (f r) Q c1)"
| "awp prot (Token f) Q c = (\<forall>t. awp prot (f t) Q c)"
| "awp prot (Clock f) Q c = (\<forall>u. awp prot (f u) Q c)"

text \<open>\<open>triple prot P m Q\<close>: started where \<open>P\<close> holds, whatever the handle, the store's answers and the
  other clients, \<open>m\<close> returns a result and contents that satisfy \<open>Q\<close>.\<close>

definition triple ::
  "(string \<Rightarrow> bool) \<Rightarrow> (contents \<Rightarrow> bool) \<Rightarrow> 'a op \<Rightarrow> (queue_error + 'a \<Rightarrow> contents \<Rightarrow> bool) \<Rightarrow> bool" where
  "triple prot P m Q \<longleftrightarrow> (\<forall>h c. P c \<longrightarrow> awp prot (m h) (\<lambda>x. Q (fst x)) c)"

text \<open>\<open>holds_on\<close> is the triple on the executions of one store. \<open>keeps_on\<close> is an invariance: among clients
  that keep \<open>I\<close> and the protected keys, so does the operation. \<open>achieves_on\<close> is both: among such
  clients the operation keeps \<open>I\<close> and its results satisfy \<open>Q\<close>.\<close>

definition holds_on ::
  "'s object_store \<Rightarrow> ('s \<Rightarrow> contents) \<Rightarrow> ('s \<Rightarrow> bool) \<Rightarrow> (string \<Rightarrow> bool) \<Rightarrow> (contents \<Rightarrow> bool) \<Rightarrow> 'a op
    \<Rightarrow> (queue_error + 'a \<Rightarrow> contents \<Rightarrow> bool) \<Rightarrow> bool" where
  "holds_on st cont ok prot P m Q \<longleftrightarrow> (\<forall>h s r h' s'.
     exec st (client_step st prot) (m h) s (r, h') s' \<longrightarrow> ok s \<longrightarrow> P (cont s) \<longrightarrow>
     ok s' \<and> Q r (cont s'))"

definition keeps_on ::
  "'s object_store \<Rightarrow> ('s \<Rightarrow> contents) \<Rightarrow> ('s \<Rightarrow> bool) \<Rightarrow> (string \<Rightarrow> bool) \<Rightarrow> (contents \<Rightarrow> bool) \<Rightarrow> 'a op
    \<Rightarrow> bool" where
  "keeps_on st cont ok prot I m \<longleftrightarrow> (\<forall>R h s x s'.
     (\<forall>s s'. R s s' \<longrightarrow> ok s \<longrightarrow> I (cont s) \<longrightarrow> ok s' \<and> I (cont s') \<and> grows prot (cont s) (cont s')) \<longrightarrow>
     exec st R (m h) s x s' \<longrightarrow> ok s \<longrightarrow> I (cont s) \<longrightarrow>
     ok s' \<and> I (cont s') \<and> grows prot (cont s) (cont s'))"

definition achieves_on ::
  "'s object_store \<Rightarrow> ('s \<Rightarrow> contents) \<Rightarrow> ('s \<Rightarrow> bool) \<Rightarrow> (string \<Rightarrow> bool) \<Rightarrow> (contents \<Rightarrow> bool) \<Rightarrow> 'a op
    \<Rightarrow> (queue_error + 'a \<Rightarrow> contents \<Rightarrow> bool) \<Rightarrow> bool" where
  "achieves_on st cont ok prot I m Q \<longleftrightarrow> (\<forall>R h s r h' s'.
     (\<forall>s s'. R s s' \<longrightarrow> ok s \<longrightarrow> I (cont s) \<longrightarrow> ok s' \<and> I (cont s') \<and> grows prot (cont s) (cont s')) \<longrightarrow>
     exec st R (m h) s (r, h') s' \<longrightarrow> ok s \<longrightarrow> I (cont s) \<longrightarrow>
     ok s' \<and> I (cont s') \<and> Q r (cont s'))"

text \<open>Requests that keep a fact of the contents, should they take effect.\<close>

fun keeps_fact :: "(contents \<Rightarrow> bool) \<Rightarrow> request \<Rightarrow> bool" where
  "keeps_fact I (ReqPut k b d) = (\<forall>c m. I c \<longrightarrow> c k = None \<longrightarrow> I (c(k \<mapsto> \<lparr>obj_meta = m, obj_body = b\<rparr>)))"
| "keeps_fact I (ReqCas k b d v) = (\<forall>c m. I c \<longrightarrow> I (c(k \<mapsto> \<lparr>obj_meta = m, obj_body = b\<rparr>)))"
| "keeps_fact I (ReqDelete k) = (\<forall>c. I c \<longrightarrow> I (c(k := None)))"
| "keeps_fact I _ = True"

section \<open>Lemmas: growth\<close>

lemma grows_refl [simp]: "grows prot c c"
  by (simp add: grows_def)

lemma grows_trans: "grows prot c c1 \<Longrightarrow> grows prot c1 c2 \<Longrightarrow> grows prot c c2"
  by (simp add: grows_def)

lemma growsD: "grows prot c c' \<Longrightarrow> prot k \<Longrightarrow> c k = Some ob \<Longrightarrow> c' k = Some ob"
  by (simp add: grows_def)

lemma grows_put_change: "put_change c k b c' \<Longrightarrow> grows prot c c'"
  by (auto simp: put_change_def grows_def)

lemma grows_put_ans: "put_ans c k b r c' \<Longrightarrow> grows prot c c'"
  by (auto simp: put_ans_def grows_put_change split: sum.splits put_outcome.splits)

lemma grows_cas_ans: "cas_ans c k b v r c' \<Longrightarrow> \<not> prot k \<Longrightarrow> grows prot c c'"
  by (auto simp: cas_ans_def cas_change_def grows_def split: sum.splits put_outcome.splits)

lemma grows_delete_ans: "delete_ans c k r c' \<Longrightarrow> \<not> prot k \<Longrightarrow> grows prot c c'"
  by (auto simp: delete_ans_def grows_def split: sum.splits)

lemma stays_True [simp, stays_rules]: "stays prot (\<lambda>c. True)"
  by (simp add: stays_def)

lemma stays_const [simp, stays_rules]: "stays prot (\<lambda>c. b)"
  by (simp add: stays_def)

lemma stays_object [simp, stays_rules]: "prot k \<Longrightarrow> stays prot (\<lambda>c. c k = Some ob)"
  by (auto simp: stays_def grows_def)

lemma stays_ex [stays_rules]: "(\<And>x. stays prot (P x)) \<Longrightarrow> stays prot (\<lambda>c. \<exists>x. P x c)"
  unfolding stays_def by blast

lemma stays_conj [stays_rules]: "stays prot P \<Longrightarrow> stays prot Q \<Longrightarrow> stays prot (\<lambda>c. P c \<and> Q c)"
  unfolding stays_def by blast

lemma stays_disj [stays_rules]: "stays prot P \<Longrightarrow> stays prot Q \<Longrightarrow> stays prot (\<lambda>c. P c \<or> Q c)"
  unfolding stays_def by blast

lemma stays_imp [stays_rules]: "stays prot Q \<Longrightarrow> stays prot (\<lambda>c. b \<longrightarrow> Q c)"
  unfolding stays_def by blast

lemma stays_all [stays_rules]: "(\<And>x. stays prot (P x)) \<Longrightarrow> stays prot (\<lambda>c. \<forall>x. P x c)"
  unfolding stays_def by blast

lemma stays_some [stays_rules]: "prot k \<Longrightarrow> stays prot (\<lambda>c. c k \<noteq> None)"
  by (fastforce simp: stays_def grows_def)

lemma staysD: "stays prot P \<Longrightarrow> P c \<Longrightarrow> grows prot c c' \<Longrightarrow> P c'"
  unfolding stays_def by blast

section \<open>Lemmas: the abstract precondition\<close>

lemma awp_grows: "awp prot p Q c \<Longrightarrow> grows prot c c1 \<Longrightarrow> awp prot p Q c1"
  by (induction p) (auto intro: grows_trans)

lemma awp_mono: "awp prot p Q c \<Longrightarrow> (\<And>x c. Q x c \<Longrightarrow> Q' x c) \<Longrightarrow> awp prot p Q' c"
  by (induction p arbitrary: c) (auto)

lemma awp_True: "awp prot p (\<lambda>x c. True) c"
  by (induction p arbitrary: c) auto

lemma awp_bind: "awp prot p (\<lambda>x. awp prot (f x) Q) c \<Longrightarrow> awp prot (bind_prog p f) Q c"
  by (induction p arbitrary: c) auto

section \<open>Stores that meet the contract refine it\<close>

context store_contract
begin

lemma put_answer:
  "inv s \<Longrightarrow> os_put_if_absent st s k b d = (r, s') \<Longrightarrow> put_ans (contents s) k b r (contents s')"
  using put_committed put_rejected put_failed
  by (auto simp: put_ans_def split: sum.splits put_outcome.splits) blast+

lemma cas_answer:
  "inv s \<Longrightarrow> os_cas st s k b d v = (r, s') \<Longrightarrow> cas_ans (contents s) k b v r (contents s')"
  using cas_committed cas_rejected cas_failed
  by (auto simp: cas_ans_def split: sum.splits put_outcome.splits) blast+

lemma get_answer: "inv s \<Longrightarrow> os_get st s k None = (r, s') \<Longrightarrow> get_ans (contents s) k r"
  using get_found get_absent by (auto simp: get_ans_def split: sum.splits)

lemma head_answer: "inv s \<Longrightarrow> os_head st s k = (r, s') \<Longrightarrow> head_ans (contents s) k r"
  using head_found head_absent by (fastforce simp: head_ans_def split: sum.splits)

lemma list_answer: "inv s \<Longrightarrow> os_list st s p a n = (r, s') \<Longrightarrow> list_ans (contents s) p a n r"
  using list_exact by (auto simp: list_ans_def split: sum.splits)

lemma delete_answer:
  "inv s \<Longrightarrow> os_delete st s k = (r, s') \<Longrightarrow> delete_ans (contents s) k r (contents s')"
  using delete_done delete_failed by (auto simp: delete_ans_def split: sum.splits)

lemma client_step_grows:
  assumes "client_step st prot s s'" "inv s"
  shows "inv s' \<and> grows prot (contents s) (contents s')"
  using assms
proof cases
  case (step_put k b d r)
  then show ?thesis
    using assms inv_put grows_put_ans [OF put_answer] by blast
next
  case (step_cas k b d v r)
  then show ?thesis
    using assms inv_cas grows_cas_ans [OF cas_answer] by blast
next
  case (step_get k rg r)
  then show ?thesis
    using assms inv_get get_keeps by fastforce
next
  case (step_head k r)
  then show ?thesis
    using assms inv_head head_keeps by fastforce
next
  case (step_list p a n r)
  then show ?thesis
    using assms inv_list list_keeps by fastforce
next
  case (step_delete k r)
  then show ?thesis
    using assms inv_delete grows_delete_ans [OF delete_answer] by blast
qed

lemma client_steps_grow:
  "(client_step st prot)\<^sup>*\<^sup>* s s' \<Longrightarrow> inv s \<Longrightarrow> inv s' \<and> grows prot (contents s) (contents s')"
  by (induction rule: rtranclp_induct) (auto dest: client_step_grows intro: grows_trans)

text \<open>The refinement: what the abstract precondition promises holds of every execution.\<close>

lemma exec_sound:
  "exec st (client_step st prot) p s x s' \<Longrightarrow> inv s \<Longrightarrow> awp prot p Q (contents s) \<Longrightarrow>
    inv s' \<and> Q x (contents s')"
proof (induction rule: exec.induct)
  case (exec_env s s1 p x s')
  then show ?case
    using client_step_grows awp_grows by blast
next
  case (exec_put s k b d r s1 f x s')
  then show ?case
    using inv_put put_answer grows_refl by (metis awp.simps(2))
next
  case (exec_cas s k b d v r s1 f x s')
  then show ?case
    using inv_cas cas_answer grows_refl by (metis awp.simps(3))
next
  case (exec_get s k r s1 f x s')
  then show ?case
    using inv_get get_answer get_keeps grows_refl by (metis awp.simps(4))
next
  case (exec_head s k r s1 f x s')
  then show ?case
    using inv_head head_answer head_keeps grows_refl by (metis awp.simps(5))
next
  case (exec_list s p a n r s1 f x s')
  then show ?case
    using inv_list list_answer list_keeps grows_refl by (metis awp.simps(6))
next
  case (exec_delete s k r s1 f x s')
  then show ?case
    using inv_delete delete_answer grows_refl by (metis awp.simps(7))
qed auto

lemma list_page_under:
  "inv s \<Longrightarrow> os_list st s p a n = (r, s') \<Longrightarrow> page_under p r"
proof (cases r)
  case (Inr pg)
  assume "inv s" "os_list st s p a n = (r, s')"
  then have "page_exact (contents s) p a n pg"
    using Inr list_exact by blast
  then have "set (map item_key (page_items pg)) \<subseteq> listed_keys (contents s) p a"
    unfolding page_exact_def by (metis set_take_subset)
  then show "page_under p r"
    using Inr by (auto simp: page_under_def listed_keys_def)
qed (simp add: page_under_def)

text \<open>Among clients that keep a fact as well, an operation whose requests keep it does both.\<close>

lemma exec_achieves:
  assumes env: "\<And>s s'. R s s' \<Longrightarrow> inv s \<Longrightarrow> I (contents s) \<Longrightarrow>
      inv s' \<and> I (contents s') \<and> grows prot (contents s) (contents s')"
  shows "exec st R p s x s' \<Longrightarrow> inv s \<Longrightarrow> I (contents s) \<Longrightarrow> emits (keeps_fact I) p \<Longrightarrow>
    awp prot p Q (contents s) \<Longrightarrow> inv s' \<and> I (contents s') \<and> Q x (contents s')"
proof (induction rule: exec.induct)
  case (exec_env s s1 p x s')
  then show ?case
    using env awp_grows by blast
next
  case (exec_put s k b d r s1 f x s')
  then have ans: "put_ans (contents s) k b r (contents s1)" "inv s1"
    using put_answer inv_put by blast+
  then have "I (contents s1)"
    using exec_put.prems by (auto simp: put_ans_def put_change_def split: sum.splits put_outcome.splits)
  then show ?case
    using exec_put ans grows_refl by (metis awp.simps(2) emits_when.simps(2))
next
  case (exec_cas s k b d v r s1 f x s')
  then have ans: "cas_ans (contents s) k b v r (contents s1)" "inv s1"
    using cas_answer inv_cas by blast+
  then have "I (contents s1)"
    using exec_cas.prems by (auto simp: cas_ans_def cas_change_def split: sum.splits put_outcome.splits)
  then show ?case
    using exec_cas ans grows_refl by (metis awp.simps(3) emits_when.simps(3))
next
  case (exec_get s k r s1 f x s')
  then show ?case
    using inv_get get_answer get_keeps grows_refl by (metis awp.simps(4) emits_when.simps(4))
next
  case (exec_head s k r s1 f x s')
  then show ?case
    using inv_head head_answer head_keeps grows_refl by (metis awp.simps(5) emits_when.simps(5))
next
  case (exec_list s p a n r s1 f x s')
  then show ?case
    using inv_list list_answer list_keeps list_page_under grows_refl by (metis awp.simps(6) emits_when.simps(6))
next
  case (exec_delete s k r s1 f x s')
  then have ans: "delete_ans (contents s) k r (contents s1)" "inv s1"
    using delete_answer inv_delete by blast+
  then have "I (contents s1)"
    using exec_delete.prems by (auto simp: delete_ans_def split: sum.splits)
  then show ?case
    using exec_delete ans grows_refl by (metis awp.simps(7) emits_when.simps(7))
qed auto

lemma triple_achieves_on:
  assumes "triple prot (\<lambda>c. True) m Q" "emits_op (keeps_fact I) m" "\<And>r c. Q r c \<Longrightarrow> I c \<Longrightarrow> Q' r c"
  shows "achieves_on st contents inv prot I m Q'"
  unfolding achieves_on_def
proof (intro allI impI)
  fix R h s r h' s'
  assume env: "\<forall>s s'. R s s' \<longrightarrow> inv s \<longrightarrow> I (contents s) \<longrightarrow> inv s' \<and> I (contents s') \<and> grows prot (contents s) (contents s')"
    and run: "exec st R (m h) s (r, h') s'" "inv s" "I (contents s)"
  have "inv s' \<and> I (contents s') \<and> Q (fst (r, h')) (contents s')"
    by (rule exec_achieves [where R = R and I = I and prot = prot, OF _ run])
      (use env assms(1,2) in \<open>auto simp: triple_def emits_op_when_def\<close>)
  then show "inv s' \<and> I (contents s') \<and> Q' r (contents s')"
    using assms(3) by simp
qed

lemma keeps_fact_keeps_on:
  assumes "emits_op (keeps_fact I) m"
  shows "keeps_on st contents inv (\<lambda>k. False) I m"
  unfolding keeps_on_def
proof (intro allI impI)
  fix R h s x s'
  assume env: "\<forall>s s'. R s s' \<longrightarrow> inv s \<longrightarrow> I (contents s) \<longrightarrow>
      inv s' \<and> I (contents s') \<and> grows (\<lambda>k. False) (contents s) (contents s')"
    and run: "exec st R (m h) s x s'" "inv s" "I (contents s)"
  have "inv s' \<and> I (contents s') \<and> True"
    by (rule exec_achieves [where R = R and I = I and prot = "\<lambda>k. False", OF _ run _ awp_True])
      (use env assms in \<open>auto simp: emits_op_when_def\<close>)
  then show "inv s' \<and> I (contents s') \<and> grows (\<lambda>k. False) (contents s) (contents s')"
    by (simp add: grows_def)
qed

lemma triple_sound:
  assumes "exec st (client_step st prot) (m h) s (r, h') s'" "inv s" "P (contents s)" "triple prot P m Q"
  shows "inv s' \<and> Q r (contents s')"
  using exec_sound [OF assms(1,2), of "\<lambda>x. Q (fst x)"] assms(3,4) by (auto simp: triple_def)

lemma triple_holds_on: "triple prot P m Q \<Longrightarrow> holds_on st contents inv prot P m Q"
  unfolding holds_on_def using triple_sound by blast

text \<open>An operation whose requests are harmless is itself a sequence of client steps: operations of
  several workers may be interleaved at will.\<close>

lemma exec_client:
  "exec st (client_step st prot) p s x s' \<Longrightarrow> inv s \<Longrightarrow> emits (harmless prot) p \<Longrightarrow>
    (client_step st prot)\<^sup>*\<^sup>* s s'"
proof (induction rule: exec.induct)
  case (exec_env s s1 p x s')
  then show ?case
    using client_step_grows by (meson converse_rtranclp_into_rtranclp)
next
  case (exec_put s k b d r s1 f x s')
  then show ?case
    using inv_put step_put converse_rtranclp_into_rtranclp by (metis emits_when.simps(2))
next
  case (exec_cas s k b d v r s1 f x s')
  then show ?case
    using inv_cas step_cas converse_rtranclp_into_rtranclp by (metis emits_when.simps(3) harmless.simps(1))
next
  case (exec_get s k r s1 f x s')
  then show ?case
    using inv_get step_get converse_rtranclp_into_rtranclp by (metis emits_when.simps(4))
next
  case (exec_head s k r s1 f x s')
  then show ?case
    using inv_head step_head converse_rtranclp_into_rtranclp by (metis emits_when.simps(5))
next
  case (exec_list s p a n r s1 f x s')
  then show ?case
    using inv_list step_list converse_rtranclp_into_rtranclp list_page_under by (metis emits_when.simps(6))
next
  case (exec_delete s k r s1 f x s')
  then show ?case
    using inv_delete step_delete converse_rtranclp_into_rtranclp by (metis emits_when.simps(7) harmless.simps(2))
qed auto

text \<open>An operation that only removes unprotected keys as long as a fact \<open>I\<close> holds of the contents, among
  clients that keep \<open>I\<close> and the protected keys, keeps both.\<close>

lemma exec_prunes:
  assumes env: "\<And>s s'. R s s' \<Longrightarrow> inv s \<Longrightarrow> I (contents s) \<Longrightarrow>
      inv s' \<and> I (contents s') \<and> grows prot (contents s) (contents s')"
    and del: "\<And>c k. I c \<Longrightarrow> \<not> prot k \<Longrightarrow> I (c(k := None))"
    and head: "\<And>c k r. I c \<Longrightarrow> head_ans c k r \<Longrightarrow> A k r"
  shows "exec st R p s x s' \<Longrightarrow> inv s \<Longrightarrow> I (contents s) \<Longrightarrow> emits_when A (prunes prot) p \<Longrightarrow>
    inv s' \<and> I (contents s') \<and> grows prot (contents s) (contents s')"
proof (induction rule: exec.induct)
  case (exec_env s s1 p x s')
  then show ?case
    using env grows_trans by blast
next
  case (exec_get s k r s1 f x s')
  then show ?case
    using inv_get get_keeps by (metis emits_when.simps(4))
next
  case (exec_head s k r s1 f x s')
  then show ?case
    using inv_head head_keeps head head_answer by (metis emits_when.simps(5))
next
  case (exec_list s p a n r s1 f x s')
  then show ?case
    using inv_list list_keeps list_page_under by (metis emits_when.simps(6))
next
  case (exec_delete s k r s1 f x s')
  then have k: "\<not> prot k" "delete_ans (contents s) k r (contents s1)" "inv s1"
    using delete_answer inv_delete by auto
  then have "grows prot (contents s) (contents s1)"
    by (intro grows_delete_ans)
  moreover from k have "I (contents s1)"
    using exec_delete.prems(2) del by (auto simp: delete_ans_def split: sum.splits)
  ultimately show ?case
    using exec_delete k grows_trans by (metis emits_when.simps(7))
qed auto

lemma prunes_keeps_on:
  assumes "emits_op_when A (prunes prot) m" "\<And>c k. I c \<Longrightarrow> \<not> prot k \<Longrightarrow> I (c(k := None))"
    and "\<And>c k r. I c \<Longrightarrow> head_ans c k r \<Longrightarrow> A k r"
  shows "keeps_on st contents inv prot I m"
  unfolding keeps_on_def
proof (intro allI impI)
  fix R h s x s'
  assume R: "\<forall>s s'. R s s' \<longrightarrow> inv s \<longrightarrow> I (contents s) \<longrightarrow>
      inv s' \<and> I (contents s') \<and> grows prot (contents s) (contents s')"
    and ex: "exec st R (m h) s x s'" "inv s" "I (contents s)"
  have m: "emits_when A (prunes prot) (m h)"
    using assms(1) by (simp add: emits_op_when_def)
  show "inv s' \<and> I (contents s') \<and> grows prot (contents s) (contents s')"
  proof (rule exec_prunes [where R = R and I = I and A = A])
    fix s s' assume "R s s'" "inv s" "I (contents s)"
    with R show "inv s' \<and> I (contents s') \<and> grows prot (contents s) (contents s')"
      by blast
  qed (fact assms(2) assms(3) ex m)+
qed

end

section \<open>Lemmas: the program logic\<close>

lemma triple_weaken:
  assumes "triple prot P m Q" "\<And>c. P' c \<Longrightarrow> P c" "\<And>r c. Q r c \<Longrightarrow> Q' r c"
  shows "triple prot P' m Q'"
  using assms unfolding triple_def by (blast intro: awp_mono)

lemma triple_pre: "triple prot P m Q \<Longrightarrow> (\<And>c. P' c \<Longrightarrow> P c) \<Longrightarrow> triple prot P' m Q"
  by (rule triple_weaken)

lemma triple_ret:
  "stays prot (Q (Inr x)) \<Longrightarrow> (\<And>c. P c \<Longrightarrow> Q (Inr x) c) \<Longrightarrow> triple prot P (ret x) Q"
  by (auto simp: triple_def ret_def dest: staysD)

lemma triple_fail:
  "stays prot (Q (Inl e)) \<Longrightarrow> (\<And>c. P c \<Longrightarrow> Q (Inl e) c) \<Longrightarrow> triple prot P (fail e) Q"
  by (auto simp: triple_def fail_def dest: staysD)

lemma triple_attempt:
  assumes "triple prot P m M" "\<And>r. triple prot (M r) (f r) Q"
  shows "triple prot P (attempt m f) Q"
  unfolding triple_def attempt_def
proof (intro allI impI awp_bind)
  fix h c
  assume "P c"
  then have "awp prot (m h) (\<lambda>x. M (fst x)) c"
    using assms(1) by (simp add: triple_def)
  then show "awp prot (m h) (\<lambda>x. awp prot (case x of (r, h') \<Rightarrow> f r h') (\<lambda>x. Q (fst x))) c"
    by (rule awp_mono) (use assms(2) in \<open>simp add: triple_def case_prod_beta\<close>)
qed

lemma triple_then:
  assumes "triple prot P m M" "\<And>x. triple prot (M (Inr x)) (f x) Q"
    and "\<And>e. stays prot (Q (Inl e))" "\<And>e c. M (Inl e) c \<Longrightarrow> Q (Inl e) c"
  shows "triple prot P (and_then m f) Q"
  unfolding and_then_attempt
  using assms by (intro triple_attempt [OF assms(1)]) (auto intro: triple_fail split: sum.splits)

lemma triple_handle:
  "(\<And>h. triple prot P (f h) Q) \<Longrightarrow> triple prot P (and_then get_handle f) Q"
  "triple prot P (g ()) Q \<Longrightarrow> triple prot P (and_then (upd_handle u) g) Q"
  "(\<And>t. triple prot P (i t) Q) \<Longrightarrow> triple prot P (and_then fresh_token i) Q"
  "(\<And>t. triple prot P (j t) Q) \<Longrightarrow> triple prot P (and_then elapsed_ns j) Q"
  by (auto simp: triple_def op_defs)

lemma triple_spend:
  "triple prot P (f ()) Q \<Longrightarrow> stays prot (Q (Inl BudgetExhausted)) \<Longrightarrow>
    (\<And>c. P c \<Longrightarrow> Q (Inl BudgetExhausted) c) \<Longrightarrow> triple prot P (and_then spend f) Q"
  by (auto simp: triple_def op_defs dest: staysD)

lemma triple_put:
  assumes "stays prot P" "\<And>r. triple prot (\<lambda>c1. \<exists>c0. P c0 \<and> put_ans c0 k b r c1) (f r) Q"
  shows "triple prot P (and_then (put_req k b d) f) Q"
  using assms unfolding triple_def op_defs by simp (meson staysD)

lemma triple_cas:
  assumes "stays prot P" "\<And>r. triple prot (\<lambda>c1. \<exists>c0. P c0 \<and> cas_ans c0 k b v r c1) (f r) Q"
  shows "triple prot P (and_then (cas_req k b d v) f) Q"
  using assms unfolding triple_def op_defs by simp (meson staysD)

lemma triple_get:
  assumes "stays prot P" "\<And>r. triple prot (\<lambda>c. P c \<and> get_ans c k r) (f r) Q"
  shows "triple prot P (and_then (get_req k) f) Q"
  using assms unfolding triple_def op_defs by simp (meson staysD)

lemma triple_head:
  assumes "stays prot P" "\<And>r. triple prot (\<lambda>c. P c \<and> head_ans c k r) (f r) Q"
  shows "triple prot P (and_then (head_req k) f) Q"
  using assms unfolding triple_def op_defs by simp (meson staysD)

lemma triple_list:
  assumes "stays prot P" "\<And>r. triple prot (\<lambda>c. P c \<and> list_ans c p a n r) (f r) Q"
  shows "triple prot P (and_then (list_req p a n) f) Q"
  using assms unfolding triple_def op_defs by simp (meson staysD)

lemma triple_delete:
  assumes "stays prot P" "\<And>r. triple prot (\<lambda>c1. \<exists>c0. P c0 \<and> delete_ans c0 k r c1) (f r) Q"
  shows "triple prot P (and_then (delete_req k) f) Q"
  using assms unfolding triple_def op_defs by simp (meson staysD)

lemma triple_fueled: "(\<And>n. triple prot P (f n) Q) \<Longrightarrow> triple prot P (fueled f) Q"
  by (simp add: triple_def fueled_def)

text \<open>An operation whose only effect on protected keys is to write absent ones preserves every stable
  fact, whatever it returns.\<close>

lemma awp_harmless: "emits (harmless prot) p \<Longrightarrow> stays prot P \<Longrightarrow> P c \<Longrightarrow> awp prot p (\<lambda>x. P) c"
proof (induction p arbitrary: c)
  case (ListPage p a n f)
  have "page_under p r" if "list_ans c0 p a n r" for c0 r
  proof (cases r)
    case (Inr pg)
    then have "set (map item_key (page_items pg)) \<subseteq> listed_keys c0 p a"
      using that unfolding list_ans_def page_exact_def by simp (metis set_map set_take_subset)
    then show ?thesis
      using Inr by (auto simp: page_under_def listed_keys_def)
  qed (simp add: page_under_def)
  then show ?case
    using ListPage by (auto dest: staysD)
next
  case (Put k b d f)
  have "P c1" if "grows prot c c0" "put_ans c0 k b r c1" for c0 r c1
    using that Put.prems grows_put_ans staysD by metis
  then show ?case
    using Put by auto
next
  case (Cas k b d v f)
  have "P c1" if "grows prot c c0" "cas_ans c0 k b v r c1" for c0 r c1
    using that Cas.prems grows_cas_ans staysD by (metis emits_when.simps(3) harmless.simps(1))
  then show ?case
    using Cas by auto
next
  case (Delete k f)
  have "P c1" if "grows prot c c0" "delete_ans c0 k r c1" for c0 r c1
    using that Delete.prems grows_delete_ans staysD by (metis emits_when.simps(7) harmless.simps(2))
  then show ?case
    using Delete by auto
qed (auto dest: staysD)

lemma triple_harmless:
  "emits_op (harmless prot) m \<Longrightarrow> stays prot P \<Longrightarrow> triple prot P m (\<lambda>r. P)"
  by (simp add: triple_def emits_op_when_def awp_harmless)

lemma triple_if:
  "(b \<Longrightarrow> triple prot P m Q) \<Longrightarrow> (\<not> b \<Longrightarrow> triple prot P m' Q) \<Longrightarrow> triple prot P (if b then m else m') Q"
  by simp

lemma triple_of_store:
  assumes "\<And>x. r = Inr x \<Longrightarrow> triple prot P (f x) Q" "\<And>e. stays prot (Q (Inl e))"
    and "\<And>e c. P c \<Longrightarrow> Q (Inl e) c"
  shows "triple prot P (and_then (of_store r) f) Q"
  using assms by (cases r) (auto intro: triple_fail)

lemma triple_then_harmless:
  assumes "emits_op (harmless prot) m" "stays prot P" "\<And>x. triple prot P (f x) Q"
    and "\<And>e. stays prot (Q (Inl e))" "\<And>e c. P c \<Longrightarrow> Q (Inl e) c"
  shows "triple prot P (and_then m f) Q"
  using triple_then [OF triple_harmless [OF assms(1,2)] assms(3-5)] by simp

lemma triple_head_any:
  "stays prot P \<Longrightarrow> (\<And>r. triple prot P (f r) Q) \<Longrightarrow> triple prot P (and_then (head_req k) f) Q"
  by (rule triple_head, assumption, rule triple_pre [where P = P]) auto

lemma awp_conj: "awp prot p Q c \<Longrightarrow> awp prot p Q' c \<Longrightarrow> awp prot p (\<lambda>x c. Q x c \<and> Q' x c) c"
  by (induction p arbitrary: c) auto

lemma awp_grown: "awp prot p Q c \<Longrightarrow> awp prot p (\<lambda>x c. \<forall>c'. grows prot c c' \<longrightarrow> Q x c') c"
  by (induction p arbitrary: c) (auto intro: grows_trans)

lemma triple_frame:
  assumes "triple prot P m Q" "emits_op (harmless prot) m" "stays prot F"
  shows "triple prot (\<lambda>c. P c \<and> F c) m (\<lambda>r c. Q r c \<and> F c)"
  unfolding triple_def
proof (intro allI impI)
  fix h c
  assume "P c \<and> F c"
  then have "awp prot (m h) (\<lambda>x. Q (fst x)) c" "awp prot (m h) (\<lambda>x. F) c"
    using assms by (auto simp: triple_def emits_op_when_def intro: awp_harmless)
  then show "awp prot (m h) (\<lambda>x c. Q (fst x) c \<and> F c) c"
    by (rule awp_conj)
qed

end
