(* ===== verification/Bucket_Math.thy ===== *)
theory Bucket_Math
  imports Stow_Prelude
begin

text \<open>
  The crate \<open>stowq-math\<close>: floor and ceiling bucket arithmetic on store times, the retry
  policy, the exponential backoff with deterministic equal jitter, and the floors and
  deadlines derived from them. Every function works on 64-bit words; zero widths and
  overflow are \<open>None\<close>, as in the source. The hash (crate \<open>sha2\<close>) is the parameter \<open>H\<close>.
\<close>

section \<open>Bucket arithmetic\<close>

definition bucket_number :: "u64 \<Rightarrow> u64 \<Rightarrow> u64 option" where
  "bucket_number timestamp_ns bucket_width_ns =
     (if bucket_width_ns = 0 then None else Some (timestamp_ns div bucket_width_ns))"

definition ceiling_bucket :: "u64 \<Rightarrow> u64 \<Rightarrow> u64 option" where
  "ceiling_bucket timestamp_ns bucket_width_ns =
     (if bucket_width_ns = 0 then None
      else let q = timestamp_ns div bucket_width_ns;
               r = timestamp_ns mod bucket_width_ns
           in if r \<noteq> 0 then checked_add q 1 else Some q)"

definition eligibility_bucket_and_ns :: "u64 \<Rightarrow> u64 \<Rightarrow> (u64 \<times> u64) option" where
  "eligibility_bucket_and_ns requested_ns bucket_width_ns =
     Option.bind (ceiling_bucket requested_ns bucket_width_ns)
       (\<lambda>bucket. Option.bind (checked_mul bucket bucket_width_ns) (\<lambda>ns. Some (bucket, ns)))"

definition bucket_start_ns :: "u64 \<Rightarrow> u64 \<Rightarrow> u64 option" where
  "bucket_start_ns bucket bucket_width_ns = checked_mul bucket bucket_width_ns"

definition bucket_end_ns :: "u64 \<Rightarrow> u64 \<Rightarrow> u64 option" where
  "bucket_end_ns bucket bucket_width_ns =
     Option.bind (bucket_start_ns bucket bucket_width_ns) (\<lambda>s. checked_add s bucket_width_ns)"

section \<open>Retry policy and backoff\<close>

record retry_policy =
  base_ms :: u64
  cap_ms :: u64
  use_jitter :: bool
  max_delay_ms :: "u64 option"

datatype retry_error = ZeroBase | CapTooSmall | RetryOverflow

definition effective_cap_ms :: "retry_policy \<Rightarrow> u64" where
  "effective_cap_ms p =
     (case max_delay_ms p of Some m \<Rightarrow> min (cap_ms p) m | None \<Rightarrow> cap_ms p)"

definition retry_validate :: "retry_policy \<Rightarrow> retry_error + unit" where
  "retry_validate p =
     (if base_ms p = 0 then Inl ZeroBase
      else if effective_cap_ms p < base_ms p then Inl CapTooSmall
      else Inr ())"

definition retry_policy_new ::
  "u64 \<Rightarrow> u64 \<Rightarrow> bool \<Rightarrow> u64 option \<Rightarrow> retry_error + retry_policy" where
  "retry_policy_new b c j m =
     (let p = \<lparr>base_ms = b, cap_ms = c, use_jitter = j, max_delay_ms = m\<rparr>
      in sum_bind (retry_validate p) (\<lambda>_. Inr p))"

definition saturating_double :: "u64 \<Rightarrow> u32 \<Rightarrow> u64" where
  "saturating_double base exp =
     (if exp = 0 \<or> base = 0 then base
      else if exp > 64 then - 1
      else let shift = unat (exp - 1)
           in if base > drop_bit shift (- 1) then - 1 else push_bit shift base)"

definition sample_threshold :: "u64 \<Rightarrow> u64" where
  "sample_threshold span = (- span) mod span"

function sample_loop :: "u64 \<Rightarrow> (u32 \<Rightarrow> u64) \<Rightarrow> nat \<Rightarrow> u64" where
  "sample_loop span draw counter =
     (let x = draw (of_nat counter)
      in if sample_threshold span \<le> x then x mod span
         else if Suc counter \<ge> 64 then span div 2
         else sample_loop span draw (Suc counter))"
  by pat_completeness auto
termination
  by (relation "measure (\<lambda>(span, draw, counter). 64 - counter)") auto

declare sample_loop.simps [simp del]

definition sample_offset :: "u64 \<Rightarrow> (u32 \<Rightarrow> u64) \<Rightarrow> u64" where
  "sample_offset span draw = sample_loop span draw 0"

definition jitter_draw :: "hash_fn \<Rightarrow> id16 \<Rightarrow> id16 \<Rightarrow> u32 \<Rightarrow> u32 \<Rightarrow> u64" where
  "jitter_draw H queue_id job_id attempt counter =
     from_be_bytes (take 8 (to_be_bytes
       (H (as_bytes ''StowQ-1-jitter'' @ [0] @ to_be_bytes queue_id @ to_be_bytes job_id
           @ to_be_bytes attempt @ to_be_bytes counter))))"

definition retry_delay_ms ::
  "hash_fn \<Rightarrow> id16 \<Rightarrow> id16 \<Rightarrow> u32 \<Rightarrow> retry_policy \<Rightarrow> retry_error + u64" where
  "retry_delay_ms H queue_id job_id attempt policy =
     sum_bind (retry_validate policy) (\<lambda>_.
       if attempt = 0 then Inr 0
       else let cap = effective_cap_ms policy;
                ceiling = min cap (saturating_double (base_ms policy) attempt)
            in if \<not> use_jitter policy then Inr ceiling
               else let lower = ceiling div 2 + ceiling mod 2;
                        span = ceiling - lower + 1;
                        offset = sample_offset span (jitter_draw H queue_id job_id attempt)
                    in Inr (lower + offset))"

section \<open>Deadlines and floors\<close>

definition retry_not_before :: "u64 \<Rightarrow> u64 \<Rightarrow> u64 option" where
  "retry_not_before floor_ns delay_ns =
     Option.bind (checked_add floor_ns delay_ns)
       (\<lambda>deadline. if deadline > 0x7FFFFFFFFFFFFFFF then None else Some deadline)"

definition effective_floor :: "u64 \<Rightarrow> u64 \<Rightarrow> u64 \<Rightarrow> u64 option" where
  "effective_floor floor_ns watermark_bucket bucket_width_ns =
     (if bucket_width_ns = 0 then None
      else Option.bind (checked_mul watermark_bucket bucket_width_ns)
             (\<lambda>watermark_ns. Some (max floor_ns watermark_ns)))"

section \<open>Lemmas\<close>

lemma unat_pos_iff: "0 < unat (w :: 'a::len word) \<longleftrightarrow> w \<noteq> 0"
  using unat_eq_zero [of w] by auto

lemma unat_div_word: "unat (a div b :: u64) = unat a div unat b"
  by (rule unat_div)

lemma unat_mod_word: "unat (a mod b :: u64) = unat a mod unat b"
  by (rule unat_mod)

lemma floor_unique:
  fixes t w b :: nat
  assumes "0 < w"
  shows "b = t div w \<longleftrightarrow> b * w \<le> t \<and> t < Suc b * w"
  using assms
  by (metis div_mult_mod_eq le_add1 add.commute div_nat_eqI mod_less_divisor mult.commute
      mult_Suc nat_add_left_cancel_less)

lemma ceiling_bucket_Some_iff:
  "ceiling_bucket t w = Some b \<longleftrightarrow>
     w \<noteq> 0 \<and> unat t \<le> unat b * unat w \<and> unat b * unat w < unat t + unat w"
proof (cases "w = 0")
  case False
  define q r where "q = unat t div unat w" and "r = unat t mod unat w"
  have w: "0 < unat w"
    using False by (simp add: unat_pos_iff)
  have t: "unat t = q * unat w + r" and r: "r < unat w"
    using w by (simp_all add: q_def r_def)
  have "ceiling_bucket t w = Some b \<longleftrightarrow> unat b = (if r = 0 then q else q + 1)"
  proof -
    have "t mod w \<noteq> 0 \<longleftrightarrow> r \<noteq> 0"
      by (simp add: r_def unat_mod_word flip: unat_eq_zero)
    then show ?thesis
      using False
      by (auto simp: ceiling_bucket_def Let_def checked_add_Some_iff q_def unat_div_word
          word_unat_eq_iff)
  qed
  also have "\<dots> \<longleftrightarrow> unat t \<le> unat b * unat w \<and> unat b * unat w < unat t + unat w"
  proof
    assume "unat b = (if r = 0 then q else q + 1)"
    then show "unat t \<le> unat b * unat w \<and> unat b * unat w < unat t + unat w"
      using t r w by (auto split: if_splits)
  next
    assume *: "unat t \<le> unat b * unat w \<and> unat b * unat w < unat t + unat w"
    then have "q * unat w \<le> unat b * unat w" and "unat b * unat w < (q + 2) * unat w"
      using t r by (simp_all only: add_mult_distrib) linarith+
    then have "q \<le> unat b" and "unat b < q + 2"
      using w by (simp, metis mult_less_cancel2)
    then consider "unat b = q" | "unat b = q + 1"
      by linarith
    then show "unat b = (if r = 0 then q else q + 1)"
      using * t by cases (auto split: if_splits)
  qed
  finally show ?thesis
    using False by simp
qed (simp add: ceiling_bucket_def)

lemma unat_saturating_double:
  "unat (saturating_double b e) =
     (if e = 0 then unat b else min (unat b * 2 ^ (unat e - 1)) (2 ^ 64 - 1))"
proof (cases "e = 0 \<or> b = 0")
  case False
  then have b: "0 < unat b" and e: "0 < unat e"
    by (auto simp: unat_pos_iff)
  have e1: "unat (e - 1) = unat e - 1"
    using False by (simp add: unat_minus_one)
  show ?thesis
  proof (cases "e > 64")
    case True
    then have "64 \<le> unat e - 1"
      by (simp add: word_less_nat_alt)
    then have "(2::nat) ^ 64 \<le> 2 ^ (unat e - 1)"
      by (intro power_increasing) auto
    also have "\<dots> \<le> unat b * 2 ^ (unat e - 1)"
      using b by simp
    finally show ?thesis
      using True False by (simp add: saturating_double_def unat_max_word min_def)
  next
    case small: False
    define s where "s = unat e - Suc 0"
    have "unat (drop_bit s (- 1 :: u64)) = (2 ^ 64 - 1) div 2 ^ s"
      by (simp only: unat_drop_bit_eq unat_max_word) (simp add: drop_bit_eq_div)
    then have gt: "b > drop_bit s (- 1) \<longleftrightarrow> 2 ^ 64 - 1 < unat b * 2 ^ s"
      by (simp add: word_less_nat_alt div_less_iff_less_mult)
    have push: "unat (push_bit s b) = unat b * 2 ^ s" if "unat b * 2 ^ s \<le> 2 ^ 64 - 1"
      using that by (simp only: unsigned_push_bit_eq) (simp add: push_bit_eq_mult take_bit_eq_mod)
    show ?thesis
      using small False gt push
      by (auto simp: saturating_double_def Let_def e1 unat_max_word min_def simp flip: s_def)
  qed
qed (auto simp: saturating_double_def)

lemma sample_loop_less: "span \<noteq> 0 \<Longrightarrow> sample_loop span draw counter < span"
proof (induction span draw counter rule: sample_loop.induct)
  case (1 span draw counter)
  have "span div 2 < span"
    using "1.prems" by (simp add: word_less_nat_alt unat_div_word unat_pos_iff)
  moreover have "x mod span < span" for x
    using "1.prems" by (simp add: word_less_nat_alt unat_mod_word unat_pos_iff)
  ultimately show ?case
    using 1 by (subst sample_loop.simps) (simp add: Let_def)
qed

lemma sample_offset_less: "span \<noteq> 0 \<Longrightarrow> sample_offset span draw < span"
  by (simp add: sample_offset_def sample_loop_less)

lemma sample_offset_accepted:
  "sample_threshold span \<le> draw 0 \<Longrightarrow> sample_offset span draw = draw 0 mod span"
  by (simp add: sample_offset_def sample_loop.simps Let_def)

lemma mod_sum_zero:
  fixes a b m :: nat
  assumes "(a + b) mod m = 0" and "0 < a" and "a < m" and "b < m"
  shows "b = m - a"
proof (cases "a + b < m")
  case False
  with assms have "(a + b) mod m = a + b - m"
    by (simp add: le_mod_geq)
  with False assms show ?thesis by simp
qed (use assms in simp)

lemma unat_sample_threshold:
  assumes "span \<noteq> 0"
  shows "unat (sample_threshold span) = 2 ^ 64 mod unat span"
proof -
  have le: "unat span \<le> 2 ^ 64"
    using unat_lt_exp [of span] by simp
  have "unat (- span) = 2 ^ 64 - unat span"
  proof -
    have "(unat span + unat (- span)) mod 2 ^ 64 = unat (span + - span)"
      by (simp only: unat_word_ariths) simp
    then have "(unat span + unat (- span)) mod 2 ^ 64 = 0"
      by simp
    moreover have "0 < unat span" "unat span < 2 ^ 64" "unat (- span) < 2 ^ 64"
      using assms unat_lt_exp [of span] unat_lt_exp [of "- span"] by (simp_all add: unat_pos_iff)
    ultimately show ?thesis by (rule mod_sum_zero)
  qed
  then have "unat (sample_threshold span) = (2 ^ 64 - unat span) mod unat span"
    by (simp only: sample_threshold_def unat_mod_word)
  also have "\<dots> = 2 ^ 64 mod unat span"
    using le by (metis le_mod_geq)
  finally show ?thesis .
qed

lemma card_residue_block:
  fixes a s r :: nat
  assumes "r < s"
  shows "card {x \<in> {a..<a + s}. x mod s = r} = 1"
proof -
  have s: "0 < s" using assms by simp
  define y where "y = a + (r + s - a mod s) mod s"
  have "y \<in> {a..<a + s}"
    using s by (simp add: y_def)
  have "y mod s = (a mod s + (r + s - a mod s)) mod s"
    by (simp add: y_def mod_simps)
  also have "\<dots> = (r + s) mod s"
    using s by (simp add: less_imp_le trans_le_add2)
  finally have "y mod s = r"
    using assms by simp
  have "x = y" if "x \<in> {a..<a + s}" and "x mod s = r" for x
  proof -
    have "x mod s = y mod s" and "\<bar>int x - int y\<bar> < int s"
      using that \<open>y \<in> _\<close> \<open>y mod s = r\<close> by auto
    then have "int s dvd int x - int y"
      by (metis mod_eq_dvd_iff of_nat_mod)
    with \<open>\<bar>_\<bar> < _\<close> show "x = y"
      by (metis zdvd_imp_le abs_dvd_iff dvd_abs_iff eq_iff_diff_eq_0 not_less of_nat_eq_iff
          zero_less_abs_iff)
  qed
  then have "{x \<in> {a..<a + s}. x mod s = r} = {y}"
    using \<open>y \<in> _\<close> \<open>y mod s = r\<close> by blast
  then show ?thesis by simp
qed

lemma card_residue_blocks:
  fixes a s r k :: nat
  assumes "r < s"
  shows "card {x \<in> {a..<a + k * s}. x mod s = r} = k"
proof (induction k)
  case (Suc k)
  have "{x \<in> {a..<a + Suc k * s}. x mod s = r} =
      {x \<in> {a..<a + k * s}. x mod s = r} \<union> {x \<in> {a + k * s..<a + k * s + s}. x mod s = r}"
    by auto
  also have "card \<dots> = k + 1"
    using Suc card_residue_block [OF assms] by (subst card_Un_disjoint) auto
  finally show ?case by simp
qed simp

lemma card_accepted_residue:
  fixes span r :: u64
  assumes "r < span"
  shows "card {x. sample_threshold span \<le> x \<and> x mod span = r} = 2 ^ 64 div unat span"
proof -
  have span: "span \<noteq> 0" and r: "unat r < unat span"
    using assms by (auto simp: word_less_nat_alt)
  let ?t = "2 ^ 64 mod unat span" and ?k = "2 ^ 64 div unat span"
  have "?t + ?k * unat span = 2 ^ 64"
    by simp
  moreover have "unat x < 18446744073709551616" for x :: u64
    using unat_lt_exp [of x] by simp
  ultimately have "bij_betw unat {x. sample_threshold span \<le> x \<and> x mod span = r}
      {n \<in> {?t..<?t + ?k * unat span}. n mod unat span = unat r}"
    by (intro bij_betw_byWitness [where f' = word_of_nat])
      (auto simp: word_le_nat_alt unat_sample_threshold [OF span] unat_mod_word unat_of_nat
        word_unat_eq_iff simp del: unsigned_of_nat)
  then show ?thesis
    using card_residue_blocks [OF r] by (simp only: bij_betw_same_card)
qed

lemma fits_unat: "n \<le> unat (x :: u64) \<Longrightarrow> \<exists>y :: u64. unat y = n"
  using unat_lt_exp [of x] by (intro exI [of _ "word_of_nat n"]) (simp add: unat_of_nat)

lemma bucket_number_Some_iff:
  "bucket_number t w = Some b \<longleftrightarrow>
     w \<noteq> 0 \<and> unat b * unat w \<le> unat t \<and> unat t < unat b * unat w + unat w"
proof (cases "w = 0")
  case False
  have "bucket_number t w = Some b \<longleftrightarrow> unat t div unat w = unat b"
    using False by (simp only: bucket_number_def if_False option.inject word_unat_eq_iff unat_div_word)
  also have "\<dots> \<longleftrightarrow> unat b * unat w \<le> unat t \<and> unat t < unat b * unat w + unat w"
    using False floor_unique [of "unat w" "unat b" "unat t"]
    by (simp only: simp_thms unat_pos_iff mult_Suc add.commute eq_commute [of "unat b"])
  finally show ?thesis using False by simp
qed (simp add: bucket_number_def)

section \<open>Properties\<close>

text \<open>C37. The delayed-scheduling bucket is the least bucket boundary at or after the requested
  time: the returned pair is exactly the bucket and its start, never before the request and less
  than one width after it, and the function fails exactly when no such boundary is a 64-bit
  time (or the width is zero).\<close>

theorem eligibility_bucket_spec:
  "eligibility_bucket_and_ns requested width = Some (bucket, ns) \<longleftrightarrow>
     width \<noteq> 0 \<and> unat ns = unat bucket * unat width
     \<and> unat requested \<le> unat ns \<and> unat ns < unat requested + unat width"
  by (auto simp: eligibility_bucket_and_ns_def ceiling_bucket_Some_iff checked_mul_Some_iff
      bind_eq_Some_conv)

text \<open>C39. A timestamp lies in its own bucket: the floor bucket is the unique one whose half-open
  interval from \<open>bucket_start_ns\<close> to one width later holds the timestamp; \<open>bucket_end_ns\<close> is that
  later end, defined exactly when it is a 64-bit time.\<close>

theorem bucket_number_brackets:
  "(bucket_number t w = Some b \<longleftrightarrow>
      w \<noteq> 0 \<and> (\<exists>s. bucket_start_ns b w = Some s \<and> s \<le> t \<and> unat t < unat s + unat w))
   \<and> (bucket_end_ns b w = Some e \<longleftrightarrow> unat e = Suc (unat b) * unat w)"
proof
  have "bucket_number t w = Some b \<longleftrightarrow>
      w \<noteq> 0 \<and> unat b * unat w \<le> unat t \<and> unat t < unat b * unat w + unat w"
    by (rule bucket_number_Some_iff)
  also have "\<dots> \<longleftrightarrow>
      w \<noteq> 0 \<and> (\<exists>s. unat s = unat b * unat w \<and> s \<le> t \<and> unat t < unat s + unat w)"
    unfolding word_le_nat_alt using fits_unat [of "unat b * unat w" t] by metis
  finally show "bucket_number t w = Some b \<longleftrightarrow>
      w \<noteq> 0 \<and> (\<exists>s. bucket_start_ns b w = Some s \<and> s \<le> t \<and> unat t < unat s + unat w)"
    by (simp only: bucket_start_ns_def checked_mul_Some_iff)
next
  have "bucket_end_ns b w = Some e \<longleftrightarrow>
      (\<exists>s :: u64. unat s = unat b * unat w \<and> unat e = unat s + unat w)"
    by (simp only: bucket_end_ns_def bucket_start_ns_def checked_mul_Some_iff checked_add_Some_iff
        bind_eq_Some_conv)
  also have "\<dots> \<longleftrightarrow> unat e = unat b * unat w + unat w"
    using fits_unat [of "unat b * unat w" e] by (metis le_add1)
  finally show "bucket_end_ns b w = Some e \<longleftrightarrow> unat e = Suc (unat b) * unat w"
    by (simp only: mult_Suc add.commute)
qed

text \<open>C36. Equal jitter: for a valid policy and a positive attempt the backoff is always defined and
  lies between half of the exponential ceiling (rounded up) and the ceiling, where the ceiling is
  \<open>base * 2 ^ (attempt - 1)\<close> clamped to the effective cap; without jitter it is the ceiling.\<close>

theorem retry_delay_in_band:
  fixes policy :: retry_policy and attempt :: u32
  defines "c \<equiv> min (unat (effective_cap_ms policy)) (unat (base_ms policy) * 2 ^ (unat attempt - 1))"
  assumes valid: "retry_validate policy = Inr ()" and attempt: "attempt \<noteq> 0"
  shows "\<exists>d. retry_delay_ms H queue_id job_id attempt policy = Inr d
      \<and> (c + 1) div 2 \<le> unat d \<and> unat d \<le> c \<and> (\<not> use_jitter policy \<longrightarrow> unat d = c)"
proof -
  define ceil where "ceil = min (effective_cap_ms policy) (saturating_double (base_ms policy) attempt)"
  define lower where "lower = ceil div 2 + ceil mod 2"
  define span where "span = ceil - lower + 1"
  define off where "off = sample_offset span (jitter_draw H queue_id job_id attempt)"
  have cap: "unat (effective_cap_ms policy) \<le> 2 ^ 64 - 1"
    using unat_lt_exp [of "effective_cap_ms policy"] by simp
  have "unat ceil = min (unat (effective_cap_ms policy)) (unat (saturating_double (base_ms policy) attempt))"
    by (simp add: ceil_def min_def word_le_nat_alt)
  also have "\<dots> = c"
    using cap attempt by (simp add: c_def unat_saturating_double)
  finally have c: "unat ceil = c" .
  have lt: "c < 2 ^ 64"
    using unat_lt_exp [of ceil] c by simp
  have half: "c div 2 + c mod 2 = (c + 1) div 2"
    by presburger
  have "unat lower = (c div 2 + c mod 2) mod 2 ^ 64"
    by (simp only: lower_def unat_word_ariths unat_div_word unat_mod_word c) (simp add: mod_simps)
  then have lower: "unat lower = (c + 1) div 2"
    unfolding half using lt by simp
  have le: "lower \<le> ceil"
    using lower c by (simp add: word_le_nat_alt)
  have span: "unat span = c - (c + 1) div 2 + 1"
    using le lt by (simp add: span_def unat_word_ariths unat_sub lower c)
  then have "span \<noteq> 0" by (auto simp flip: unat_pos_iff)
  then have "unat off < unat span"
    using sample_offset_less by (simp add: off_def word_less_nat_alt)
  then have off: "unat off \<le> c - (c + 1) div 2"
    using span by simp
  then have sum: "unat (lower + off) = (c + 1) div 2 + unat off"
    using lt lower by (simp add: unat_word_ariths)
  have "retry_delay_ms H queue_id job_id attempt policy =
      Inr (if use_jitter policy then lower + off else ceil)"
    using valid attempt
    by (simp add: retry_delay_ms_def Let_def ceil_def lower_def span_def off_def)
  then show ?thesis
    using sum off c by auto
qed

theorem retry_delay_in_band_witness:
  "\<exists>d. retry_delay_ms (\<lambda>_. 0) 1 2 3
        \<lparr>base_ms = 100, cap_ms = 60000, use_jitter = True, max_delay_ms = None\<rparr> = Inr d
      \<and> 200 \<le> unat d \<and> unat d \<le> 400"
proof -
  let ?p = "\<lparr>base_ms = 100, cap_ms = 60000, use_jitter = True, max_delay_ms = None\<rparr>"
  have "retry_validate ?p = Inr ()"
    by (simp add: retry_validate_def effective_cap_ms_def)
  from retry_delay_in_band [OF this, of 3 "\<lambda>_. 0" 1 2] show ?thesis
    by (auto simp: effective_cap_ms_def)
qed

text \<open>C38. The rejection sampling of the jitter is unbiased: every offset below the span is the
  result of the same number of accepted 64-bit samples, and the offset is always below the span,
  whatever the samples are.\<close>

theorem sample_offset_unbiased:
  assumes "r < span"
  shows "card {x. sample_threshold span \<le> x \<and> sample_offset span (\<lambda>_. x) = r} = 2 ^ 64 div unat span
    \<and> sample_offset span draw < span"
proof -
  have "{x. sample_threshold span \<le> x \<and> sample_offset span (\<lambda>_. x) = r} =
      {x. sample_threshold span \<le> x \<and> x mod span = r}"
    by (auto simp: sample_offset_accepted)
  moreover have "span \<noteq> 0"
    using assms by auto
  ultimately show ?thesis
    using card_accepted_residue [OF assms] by (simp add: sample_offset_less)
qed

theorem sample_offset_unbiased_witness:
  "card {x. sample_threshold 3 \<le> x \<and> sample_offset 3 (\<lambda>_. x) = 2} = 2 ^ 64 div 3
   \<and> sample_offset 3 (\<lambda>_. 7) < 3"
  using sample_offset_unbiased [of 2 3 "\<lambda>_. 7"] by simp

text \<open>C40. The watermark can only raise a floor, never lower it, and a retry deadline is exactly the
  floor plus the delay, refused when it leaves the signed 64-bit range.\<close>

theorem floors_and_deadlines:
  "(effective_floor floor bucket width = Some f \<longleftrightarrow>
      width \<noteq> 0 \<and> unat bucket * unat width < 2 ^ 64
      \<and> unat f = max (unat floor) (unat bucket * unat width))
   \<and> (retry_not_before floor delay = Some t \<longleftrightarrow>
      unat t = unat floor + unat delay \<and> unat t < 2 ^ 63)"
proof
  have "max floor (bucket * width) = f \<longleftrightarrow> unat f = max (unat floor) (unat bucket * unat width)"
    if "unat bucket * unat width < 2 ^ 64"
    using that by (auto simp: word_unat_eq_iff max_def word_le_nat_alt unat_mul_small)
  then show "effective_floor floor bucket width = Some f \<longleftrightarrow>
      width \<noteq> 0 \<and> unat bucket * unat width < 2 ^ 64
      \<and> unat f = max (unat floor) (unat bucket * unat width)"
    by (auto simp: effective_floor_def checked_mul_def)
next
  show "retry_not_before floor delay = Some t \<longleftrightarrow>
      unat t = unat floor + unat delay \<and> unat t < 2 ^ 63"
    unfolding retry_not_before_def bind_eq_Some_conv checked_add_Some_iff word_less_nat_alt
    by (auto split: if_splits intro!: exI [of _ t])
qed

end
