(* ===== verification/Queue_Base.thy ===== *)
theory Queue_Base
  imports Interference Bucket_Math Record_Codec
begin

text \<open>
  The common part of \<open>stowq-core\<close> (\<open>lib.rs\<close>): options, the budget, the queue value, and the
  resolvers that every write goes through. A write whose outcome is unknown is never reported as
  such: the resolver reads the key back and compares what it finds with the record it meant to
  write. The lemmas show what each verdict means for the contents of the store, with other
  clients acting at any moment.
\<close>

section \<open>Options and the queue\<close>

record open_options =
  oo_queue_id :: id16
  oo_worker_id :: string
  oo_retry :: retry_policy
  oo_skew_guard_ns :: u64
  oo_max_inline_payload :: u64

record queue =
  q_root :: string
  q_opts :: open_options
  q_format :: format_record

abbreviation queue_id :: "queue \<Rightarrow> id16" where
  "queue_id q \<equiv> oo_queue_id (q_opts q)"

definition absolute :: "queue \<Rightarrow> key \<Rightarrow> string" where
  "absolute q rel = q_root q @ show_key rel"

definition tag_for :: "hash_fn \<Rightarrow> queue \<Rightarrow> key \<Rightarrow> tag8" where
  "tag_for H q rel = key_tag H (queue_id q) (show_key rel)"

section \<open>The budget\<close>

text \<open>\<open>OpBudget::split\<close> and \<open>merge\<close> on the number of operations left.\<close>

definition split_budget :: "nat \<Rightarrow> nat \<Rightarrow> nat list \<times> nat" where
  "split_budget b n = (if n = 0 then ([], b) else (replicate n (b div n), b - b div n * n))"

definition merge_budget :: "nat \<Rightarrow> nat list \<Rightarrow> nat" where
  "merge_budget b children = b + sum_list children"

section \<open>Retries\<close>

definition RETRY_TRANSPORT_MAX :: nat where
  "RETRY_TRANSPORT_MAX = 4"

text \<open>\<open>retrying n body\<close>: the loop whose counter of retries may still grow \<open>n\<close> times; \<open>body\<close> receives
  what \<open>transport_retries += 1\<close>, the check against the maximum and \<open>continue\<close> amount to.\<close>

primrec retrying :: "nat \<Rightarrow> ('a op \<Rightarrow> 'a op) \<Rightarrow> 'a op" where
  "retrying 0 body = body (fail TransportExhausted)"
| "retrying (Suc n) body = body (retrying n body)"

definition retryable :: "store_error \<Rightarrow> bool" where
  "retryable e = (case e of Transport _ \<Rightarrow> True | OutcomeUnknown _ \<Rightarrow> True | _ \<Rightarrow> False)"

definition read_retrying :: "string \<Rightarrow> object op" where
  "read_retrying path = retrying RETRY_TRANSPORT_MAX (\<lambda>again.
     and_then spend (\<lambda>_.
     and_then (get_req path) (\<lambda>r. case r of
       Inr obj \<Rightarrow> ret obj
     | Inl e \<Rightarrow> if retryable e then again else fail (EStore e))))"

definition resolve_presence :: "string \<Rightarrow> bool op" where
  "resolve_presence path = retrying RETRY_TRANSPORT_MAX (\<lambda>again.
     and_then spend (\<lambda>_.
     and_then (head_req path) (\<lambda>r. case r of
       Inr m \<Rightarrow> ret True
     | Inl e \<Rightarrow> if e = NotFound then ret False
               else if retryable e then again else fail (EStore e))))"

definition put_bytes_resolving :: "string \<Rightarrow> bytes \<Rightarrow> digest \<Rightarrow> unit op" where
  "put_bytes_resolving path body d = retrying RETRY_TRANSPORT_MAX (\<lambda>again.
     and_then spend (\<lambda>_.
     and_then (put_req path body d) (\<lambda>r. case r of
       Inr _ \<Rightarrow> ret ()
     | Inl (Transport _) \<Rightarrow> again
     | Inl (OutcomeUnknown _) \<Rightarrow>
         and_then (resolve_presence path) (\<lambda>present. if present then ret () else again)
     | Inl e \<Rightarrow> fail (EStore e))))"

datatype resolved = WroteOurs | Lost | NotCommitted

definition resolve_unknown :: "hash_fn \<Rightarrow> queue \<Rightarrow> string \<Rightarrow> stow_record \<Rightarrow> key \<Rightarrow> resolved op" where
  "resolve_unknown H q path intended rel = retrying RETRY_TRANSPORT_MAX (\<lambda>again.
     and_then spend (\<lambda>_.
     and_then (head_req path) (\<lambda>r. case r of
       Inr _ \<Rightarrow>
         and_then (read_retrying path) (\<lambda>obj.
           case decode H (obj_body obj) (queue_id q) (tag_for H q rel) of
             Inr found \<Rightarrow> if found = intended then ret WroteOurs else ret Lost
           | Inl _ \<Rightarrow> ret Lost)
     | Inl e \<Rightarrow> if e = NotFound then ret NotCommitted
               else if retryable e then again else fail (EStore e))))"

definition put_resolving ::
  "hash_fn \<Rightarrow> queue \<Rightarrow> string \<Rightarrow> bytes \<Rightarrow> digest \<Rightarrow> stow_record \<Rightarrow> key \<Rightarrow> resolved op" where
  "put_resolving H q path body d intended rel = retrying RETRY_TRANSPORT_MAX (\<lambda>again.
     and_then spend (\<lambda>_.
     and_then (put_req path body d) (\<lambda>r. case r of
       Inr (Committed _) \<Rightarrow> ret WroteOurs
     | Inr Rejected \<Rightarrow> ret Lost
     | Inl (Transport _) \<Rightarrow> again
     | Inl (OutcomeUnknown _) \<Rightarrow>
         and_then (resolve_unknown H q path intended rel) (\<lambda>v. case v of
           WroteOurs \<Rightarrow> ret WroteOurs
         | Lost \<Rightarrow> ret Lost
         | NotCommitted \<Rightarrow> again)
     | Inl e \<Rightarrow> fail (EStore e))))"

text \<open>A record written under its own key: the bytes, their hash, and the resolver.\<close>

definition record_bytes :: "hash_fn \<Rightarrow> queue \<Rightarrow> key \<Rightarrow> stow_record \<Rightarrow> bytes" where
  "record_bytes H q rel r = encode H r (queue_id q) (tag_for H q rel)"

definition put_record :: "hash_fn \<Rightarrow> queue \<Rightarrow> key \<Rightarrow> stow_record \<Rightarrow> resolved op" where
  "put_record H q rel r =
     put_resolving H q (absolute q rel) (record_bytes H q rel r) (H (record_bytes H q rel r)) r rel"

definition decode_at :: "hash_fn \<Rightarrow> queue \<Rightarrow> key \<Rightarrow> bytes \<Rightarrow> record_error + stow_record" where
  "decode_at H q rel body = decode H body (queue_id q) (tag_for H q rel)"

definition decode_op :: "hash_fn \<Rightarrow> queue \<Rightarrow> key \<Rightarrow> bytes \<Rightarrow> stow_record op" where
  "decode_op H q rel body = of_result (map_err ERecordFormat (decode_at H q rel body))"

section \<open>Mutable and protected keys\<close>

text \<open>\<open>str::strip_prefix\<close>.\<close>

definition strip_prefix :: "string \<Rightarrow> string \<Rightarrow> string option" where
  "strip_prefix p s = (if take (length p) s = p then Some (drop (length p) s) else None)"

text \<open>The planes that hold advisory state: index entries, tail hints, beacons and the watermark. All
  other keys, the records and payloads of the protocol and the outputs of the application, are
  written once and protected.\<close>

definition mutable_planes :: "string list" where
  "mutable_planes = [''leases/'', ''delayed/'', ''termidx/'', ''tails/'', ''meta/watermark'', ''meta/clock/'']"

definition protected :: "queue \<Rightarrow> string \<Rightarrow> bool" where
  "protected q k = list_all (\<lambda>p. \<not> prefix (q_root q @ p) k) mutable_planes"

fun advisory :: "key \<Rightarrow> bool" where
  "advisory (KeyLeaseIndex _ _ _ _) = True"
| "advisory (KeyDelayIndex _ _ _) = True"
| "advisory (KeyTermIndex _ _ _ _) = True"
| "advisory (KeyTail _ _) = True"
| "advisory (KeyBeacon _) = True"
| "advisory KeyWatermark = True"
| "advisory _ = False"

text \<open>The object at a key has these bytes.\<close>

definition holds_bytes :: "contents \<Rightarrow> string \<Rightarrow> bytes \<Rightarrow> bool" where
  "holds_bytes c k b \<longleftrightarrow> (\<exists>m. c k = Some \<lparr>obj_meta = m, obj_body = b\<rparr>)"

definition present :: "contents \<Rightarrow> string \<Rightarrow> bool" where
  "present c k \<longleftrightarrow> c k \<noteq> None"

section \<open>Lemmas: the budget\<close>

lemma split_conserves: "split_budget b n = (cs, rest) \<Longrightarrow> merge_budget rest cs = b"
  by (auto simp: split_budget_def merge_budget_def sum_list_replicate split: if_splits)

section \<open>Lemmas: keys\<close>

lemma strip_prefix_Some_iff: "strip_prefix p s = Some r \<longleftrightarrow> s = p @ r"
  by (auto simp: strip_prefix_def) (metis append_take_drop_id)

lemma protected_absolute [simp]: "protected q (absolute q rel) \<longleftrightarrow> \<not> advisory rel"
  by (cases rel rule: advisory.cases) (simp_all add: protected_def mutable_planes_def absolute_def)

lemma protected_plane:
  assumes "prefix (q_root q @ p) k" "list_all (\<lambda>m. \<not> prefix m p \<and> \<not> prefix p m) mutable_planes"
  shows "protected q k"
  unfolding protected_def list_all_iff
proof
  fix m assume "m \<in> set mutable_planes"
  then show "\<not> prefix (q_root q @ m) k"
    using assms prefix_same_cases [OF assms(1), of "q_root q @ m"] by (auto simp: list_all_iff)
qed

lemma absolute_inject [simp]: "absolute q rel = absolute q rel' \<longleftrightarrow> rel = rel'"
  by (simp add: absolute_def show_key_inject)

section \<open>Lemmas: retry loops\<close>

lemma emits_retrying [emits_rules]:
  "(\<And>again. emits_op G again \<Longrightarrow> emits_op G (body again)) \<Longrightarrow> emits_op G (retrying n body)"
  by (induction n) (simp_all add: emits_op_fail)

lemma within_retrying:
  "(\<And>again. within 0 again \<Longrightarrow> within 0 (body again)) \<Longrightarrow> within 0 (retrying n body)"
  by (induction n) (simp_all add: within_fail)

lemma ends_retrying:
  "(\<And>again. ends n again \<Longrightarrow> ends n (body again)) \<Longrightarrow> ends n (retrying k body)"
  by (induction k) simp_all

lemma triple_retrying:
  assumes "\<And>again. triple prot P again Q \<Longrightarrow> triple prot P (body again) Q"
    and "triple prot P (fail TransportExhausted) Q"
  shows "triple prot P (retrying n body) Q"
  using assms by (induction n) simp_all

lemma stays_present [stays_rules, simp]: "prot k \<Longrightarrow> stays prot (\<lambda>c. present c k)"
  unfolding present_def by (rule stays_some)

lemma holds_bytes_unique: "holds_bytes c k b \<Longrightarrow> holds_bytes c k b' \<Longrightarrow> b = b'"
  by (auto simp: holds_bytes_def)

lemma stays_holds_bytes [stays_rules, simp]: "prot k \<Longrightarrow> stays prot (\<lambda>c. holds_bytes c k b)"
  unfolding holds_bytes_def by (rule stays_ex) simp

lemma grows_holds_bytes: "grows prot c c' \<Longrightarrow> prot k \<Longrightarrow> holds_bytes c k b \<Longrightarrow> holds_bytes c' k b"
  by (auto simp: holds_bytes_def grows_def)

section \<open>Lemmas: requests and cost of the resolvers\<close>

text \<open>The requests a resolver makes, by kind.\<close>

definition put_allowed :: "(request \<Rightarrow> bool) \<Rightarrow> string \<Rightarrow> bytes \<Rightarrow> digest \<Rightarrow> bool" where
  "put_allowed G k b d \<longleftrightarrow> G (ReqPut k b d) \<and> G (ReqGet k) \<and> G (ReqHead k)"

lemma put_allowed_harmless [simp]: "put_allowed (harmless p) k b d"
  by (simp add: put_allowed_def)

lemma emits_decode_op [emits_rules]: "emits_op G (decode_op H q rel b)"
  by (simp add: decode_op_def emits_op_of_result)

lemma within_decode_op [costs_rules]: "within c (decode_op H q rel b)"
  by (simp add: decode_op_def within_of_result)

lemma within_decode_then: "(\<And>x. within c (f x)) \<Longrightarrow> within c (and_then (decode_op H q rel b) f)"
  by (simp add: decode_op_def within_result)

lemma ends_decode_op [simp]: "ends n (decode_op H q rel b)"
  by (simp add: decode_op_def of_result_def map_err_def split: sum.splits)

lemma emits_read_retrying [emits_rules]: "G (ReqGet k) \<Longrightarrow> emits_op G (read_retrying k)"
  unfolding read_retrying_def by (intro emits_rules) (auto intro!: emits_rules split: sum.splits)

lemma emits_resolve_presence [emits_rules]: "G (ReqHead k) \<Longrightarrow> emits_op G (resolve_presence k)"
  unfolding resolve_presence_def by (intro emits_rules) (auto intro!: emits_rules split: sum.splits)

lemma emits_put_bytes_resolving [emits_rules]:
  "put_allowed G k b d \<Longrightarrow> emits_op G (put_bytes_resolving k b d)"
  unfolding put_bytes_resolving_def put_allowed_def
  by (intro emits_rules) (auto intro!: emits_rules split: sum.splits store_error.splits)

lemma emits_resolve_unknown [emits_rules]:
  "G (ReqHead k) \<Longrightarrow> G (ReqGet k) \<Longrightarrow> emits_op G (resolve_unknown H q k r rel)"
  unfolding resolve_unknown_def by (intro emits_rules) (auto intro!: emits_rules split: sum.splits)

lemma emits_put_resolving [emits_rules]:
  "put_allowed G k b d \<Longrightarrow> emits_op G (put_resolving H q k b d r rel)"
  unfolding put_resolving_def put_allowed_def
  by (intro emits_rules)
    (auto intro!: emits_rules split: sum.splits store_error.splits put_outcome.splits resolved.splits)

lemma emits_put_record [emits_rules]:
  "put_allowed G (absolute q rel) (record_bytes H q rel r) (H (record_bytes H q rel r)) \<Longrightarrow>
    emits_op G (put_record H q rel r)"
  unfolding put_record_def by (rule emits_put_resolving)

lemma within_read_retrying [costs_rules]: "within c (read_retrying k)"
  unfolding read_retrying_def
  by (rule within_any, rule within_retrying, intro within_rules)
    (auto intro: costs_rules split: sum.splits)

lemma within_resolve_presence [costs_rules]: "within c (resolve_presence k)"
  unfolding resolve_presence_def
  by (rule within_any, rule within_retrying, intro within_rules)
    (auto intro: costs_rules split: sum.splits)

lemma within_put_bytes_resolving [costs_rules]: "within c (put_bytes_resolving k b d)"
  unfolding put_bytes_resolving_def
  by (rule within_any, rule within_retrying, intro within_rules)
    (auto intro: costs_rules intro!: within_rules split: sum.splits store_error.splits)

lemma within_resolve_unknown [costs_rules]: "within c (resolve_unknown H q k r rel)"
  unfolding resolve_unknown_def
  by (rule within_any, rule within_retrying, intro within_rules)
    (auto intro: costs_rules intro!: within_rules split: sum.splits)

lemma within_put_resolving [costs_rules]: "within c (put_resolving H q k b d r rel)"
  unfolding put_resolving_def
  by (rule within_any, rule within_retrying, intro within_rules)
    (auto intro: costs_rules intro!: within_rules
      split: sum.splits store_error.splits put_outcome.splits resolved.splits)

lemma within_put_record [costs_rules]: "within c (put_record H q rel r)"
  unfolding put_record_def by (rule costs_rules)

lemma ends_read_retrying [simp]: "ends n (read_retrying k)"
  unfolding read_retrying_def
  by (rule ends_retrying, intro ends_rules) (auto split: sum.splits)

lemma ends_resolve_presence [simp]: "ends n (resolve_presence k)"
  unfolding resolve_presence_def
  by (rule ends_retrying, intro ends_rules) (auto split: sum.splits)

lemma ends_put_bytes_resolving [simp]: "ends n (put_bytes_resolving k b d)"
  unfolding put_bytes_resolving_def
  by (rule ends_retrying, intro ends_rules)
    (auto intro!: ends_rules split: sum.splits store_error.splits)

lemma ends_resolve_unknown [simp]: "ends n (resolve_unknown H q k r rel)"
  unfolding resolve_unknown_def
  by (rule ends_retrying, intro ends_rules) (auto intro!: ends_rules split: sum.splits)

lemma ends_put_resolving [simp]: "ends n (put_resolving H q k b d r rel)"
  unfolding put_resolving_def
  by (rule ends_retrying, intro ends_rules)
    (auto intro!: ends_rules split: sum.splits store_error.splits put_outcome.splits resolved.splits)

lemma ends_put_record [simp]: "ends n (put_record H q rel r)"
  unfolding put_record_def by simp

section \<open>Lemmas: what a verdict means\<close>

lemma decode_at_Inr_iff:
  "decode_at H q rel body = Inr r \<longleftrightarrow> wf_record r \<and> body = record_bytes H q rel r"
  by (simp add: decode_at_def record_bytes_def decode_Inr_iff)

lemma holds_bytes_object: "c k = Some obj \<Longrightarrow> holds_bytes c k (obj_body obj)"
  by (cases obj) (simp add: holds_bytes_def)

lemma decode_at_holds:
  "c k = Some obj \<Longrightarrow> decode_at H q rel (obj_body obj) = Inr r \<Longrightarrow> holds_bytes c k (record_bytes H q rel r)"
  using holds_bytes_object [of c k obj] by (simp add: decode_at_Inr_iff)

lemma triple_decode_op:
  assumes "\<And>x. decode_at H q rel b = Inr x \<Longrightarrow> triple prot P (f x) Q" "\<And>e. stays prot (Q (Inl e))"
    and "\<And>e c. P c \<Longrightarrow> Q (Inl e) c"
  shows "triple prot P (and_then (decode_op H q rel b) f) Q"
  using assms by (cases "decode_at H q rel b") (auto simp: decode_op_def map_err_def intro: triple_fail)

lemma put_committed_holds: "put_ans c0 k b (Inr (Committed v)) c1 \<Longrightarrow> holds_bytes c1 k b"
  by (auto simp: put_ans_def put_change_def holds_bytes_def)

lemma triple_read_retrying:
  assumes "stays prot P" "prot k"
  shows "triple prot P (read_retrying k) (\<lambda>r c. P c \<and> (\<forall>ob. r = Inr ob \<longrightarrow> c k = Some ob))"
  unfolding read_retrying_def
proof (rule triple_retrying)
  fix again
  let ?Q = "\<lambda>r c. P c \<and> (\<forall>ob. r = Inr ob \<longrightarrow> c k = Some ob)"
  assume again: "triple prot P again ?Q"
  have Q: "stays prot (?Q r)" for r
    using assms by (intro stays_rules)
  have "triple prot (\<lambda>c. P c \<and> get_ans c k r) (case r of
       Inr obj \<Rightarrow> ret obj | Inl e \<Rightarrow> if retryable e then again else fail (EStore e)) ?Q" for r
    by (cases r) (auto simp: get_ans_def intro!: triple_ret triple_fail Q
      intro: triple_pre [OF again])
  then show "triple prot P (and_then spend (\<lambda>_. and_then (get_req k) (\<lambda>r. case r of
       Inr obj \<Rightarrow> ret obj | Inl e \<Rightarrow> if retryable e then again else fail (EStore e)))) ?Q"
    by (intro triple_spend triple_get assms Q) simp_all
qed (auto intro!: triple_fail stays_rules assms)

lemma head_present: "head_ans c k (Inr m) \<Longrightarrow> present c k"
  by (auto simp: head_ans_def present_def)

lemma presentI: "c k = Some ob \<Longrightarrow> present c k"
  by (simp add: present_def)

lemma holds_bytes_present: "holds_bytes c k b \<Longrightarrow> present c k"
  by (auto simp: holds_bytes_def present_def)

lemma triple_resolve_presence:
  assumes "stays prot P" "prot k"
  shows "triple prot P (resolve_presence k) (\<lambda>r c. P c \<and> (r = Inr True \<longrightarrow> present c k))"
  unfolding resolve_presence_def
proof (rule triple_retrying)
  fix again
  let ?Q = "\<lambda>r c. P c \<and> (r = Inr True \<longrightarrow> present c k)"
  assume again: "triple prot P again ?Q"
  have Q: "stays prot (?Q r)" for r
    using assms by (intro stays_rules)
  have "triple prot (\<lambda>c. P c \<and> head_ans c k r) (case r of
       Inr m \<Rightarrow> ret True | Inl e \<Rightarrow> if e = NotFound then ret False
               else if retryable e then again else fail (EStore e)) ?Q" for r
    by (cases r) (auto intro!: triple_ret triple_fail Q [simplified] assms stays_rules
      intro: triple_pre [OF again] head_present)
  then show "triple prot P (and_then spend (\<lambda>_. and_then (head_req k) (\<lambda>r. case r of
       Inr m \<Rightarrow> ret True | Inl e \<Rightarrow> if e = NotFound then ret False
               else if retryable e then again else fail (EStore e)))) ?Q"
    by (intro triple_spend triple_head assms Q) simp_all
qed (auto intro!: triple_fail stays_rules assms)

lemma triple_put_bytes_resolving:
  assumes "stays prot P" "prot k"
  shows "triple prot P (put_bytes_resolving k b d) (\<lambda>r c. P c \<and> (r = Inr () \<longrightarrow> present c k))"
  unfolding put_bytes_resolving_def
proof (rule triple_retrying)
  fix again
  let ?Q = "\<lambda>r c. P c \<and> (r = Inr () \<longrightarrow> present c k)"
  let ?resolve = "and_then (resolve_presence k) (\<lambda>p. if p then ret () else again)"
  assume again: "triple prot P again ?Q"
  have Q: "stays prot (?Q r)" for r
    using assms by (intro stays_rules)
  have P: "P c1" if "P c0" "put_ans c0 k b x c1" for c0 c1 x
    using staysD [OF assms(1) that(1) grows_put_ans [OF that(2)]] .
  have resolve: "triple prot P ?resolve ?Q"
    by (rule triple_then [OF triple_resolve_presence [OF assms]])
      (auto intro!: triple_ret Q [simplified] assms stays_rules intro: triple_pre [OF again])
  have pres: "present c1 k" if "put_ans c0 k b (Inr v) c1" for c0 c1 v
    using that by (cases v) (auto simp: put_ans_def put_change_def present_def)
  have "triple prot (\<lambda>c1. \<exists>c0. P c0 \<and> put_ans c0 k b x c1) (case x of Inr _ \<Rightarrow> ret ()
     | Inl (Transport _) \<Rightarrow> again | Inl (OutcomeUnknown _) \<Rightarrow> ?resolve | Inl e \<Rightarrow> fail (EStore e)) ?Q" for x
    by (auto split: sum.splits store_error.splits intro!: triple_ret triple_fail assms stays_rules
      intro: triple_pre [OF again] triple_pre [OF resolve] P pres)
  then show "triple prot P (and_then spend (\<lambda>_. and_then (put_req k b d) (\<lambda>x. case x of Inr _ \<Rightarrow> ret ()
     | Inl (Transport _) \<Rightarrow> again | Inl (OutcomeUnknown _) \<Rightarrow> ?resolve | Inl e \<Rightarrow> fail (EStore e)))) ?Q"
    by (intro triple_spend triple_put assms Q) simp_all
qed (auto intro!: triple_fail stays_rules assms)

text \<open>The verdicts: \<open>WroteOurs\<close> means that the key holds exactly the bytes of the intended record,
  \<open>Lost\<close> that it holds some object.\<close>

definition verdict_ok ::
  "string \<Rightarrow> bytes \<Rightarrow> queue_error + resolved \<Rightarrow> contents \<Rightarrow> bool" where
  "verdict_ok k b r c \<longleftrightarrow> (r = Inr WroteOurs \<longrightarrow> holds_bytes c k b) \<and> (r = Inr Lost \<longrightarrow> present c k)"

lemma verdict_ok_simps [simp]:
  "verdict_ok k b (Inl e) c" "verdict_ok k b (Inr NotCommitted) c"
  "verdict_ok k b (Inr WroteOurs) c = holds_bytes c k b"
  "verdict_ok k b (Inr Lost) c = present c k"
  by (simp_all add: verdict_ok_def)

lemma stays_verdict_ok [stays_rules]: "prot k \<Longrightarrow> stays prot (verdict_ok k b r)"
  unfolding verdict_ok_def by (intro stays_rules)

lemma triple_resolve_unknown:
  assumes "stays prot P" "prot k" and b: "b = record_bytes H q rel r"
  shows "triple prot P (resolve_unknown H q k r rel) (\<lambda>x c. P c \<and> verdict_ok k b x c)"
  unfolding resolve_unknown_def
proof (rule triple_retrying)
  fix again
  let ?Q = "\<lambda>x c. P c \<and> verdict_ok k b x c"
  let ?read = "and_then (read_retrying k) (\<lambda>obj.
           case decode H (obj_body obj) (queue_id q) (tag_for H q rel) of
             Inr found \<Rightarrow> if found = r then ret WroteOurs else ret Lost
           | Inl _ \<Rightarrow> ret Lost)"
  assume again: "triple prot P again ?Q"
  have Q: "stays prot (?Q r)" for r
    using assms by (intro stays_rules)
  have dec: "holds_bytes c k b" if "c k = Some obj"
      "decode H (obj_body obj) (queue_id q) (tag_for H q rel) = Inr r" for c obj
    using decode_at_holds [of c k obj H q rel r] that by (simp add: b decode_at_def)
  have read: "triple prot P ?read ?Q"
    by (rule triple_then [OF triple_read_retrying [OF assms(1,2)]])
      (auto intro!: triple_ret Q [simplified] assms(1) stays_rules intro: dec presentI split: sum.splits)
  have "triple prot (\<lambda>c. P c \<and> head_ans c k r') (case r' of Inr _ \<Rightarrow> ?read
     | Inl e \<Rightarrow> if e = NotFound then ret NotCommitted
               else if retryable e then again else fail (EStore e)) ?Q" for r'
    by (cases r') (auto intro!: triple_ret triple_fail Q intro: triple_pre [OF again] triple_pre [OF read])
  then show "triple prot P (and_then spend (\<lambda>_. and_then (head_req k) (\<lambda>r'. case r' of Inr _ \<Rightarrow> ?read
     | Inl e \<Rightarrow> if e = NotFound then ret NotCommitted
               else if retryable e then again else fail (EStore e)))) ?Q"
    by (intro triple_spend triple_head assms Q) simp_all
qed (auto intro!: triple_fail stays_rules assms)

lemma triple_put_resolving:
  assumes "stays prot P" "prot k" and b: "b = record_bytes H q rel r"
  shows "triple prot P (put_resolving H q k b d r rel) (\<lambda>x c. P c \<and> verdict_ok k b x c)"
  unfolding put_resolving_def
proof (rule triple_retrying)
  fix again
  let ?Q = "\<lambda>x c. P c \<and> verdict_ok k b x c"
  let ?resolve = "and_then (resolve_unknown H q k r rel) (\<lambda>v. case v of
           WroteOurs \<Rightarrow> ret WroteOurs | Lost \<Rightarrow> ret Lost | NotCommitted \<Rightarrow> again)"
  assume again: "triple prot P again ?Q"
  have Q: "stays prot (?Q r)" for r
    using assms by (intro stays_rules)
  have P: "P c1" if "P c0" "put_ans c0 k b x c1" for c0 c1 x
    using staysD [OF assms(1) that(1) grows_put_ans [OF that(2)]] .
  have resolve: "triple prot P ?resolve ?Q"
    by (rule triple_then [OF triple_resolve_unknown [OF assms]])
      (auto intro!: triple_ret Q assms(1) intro: triple_pre [OF again] split: resolved.splits)
  have "triple prot (\<lambda>c1. \<exists>c0. P c0 \<and> put_ans c0 k b x c1) (case x of
       Inr (Committed _) \<Rightarrow> ret WroteOurs | Inr Rejected \<Rightarrow> ret Lost | Inl (Transport _) \<Rightarrow> again
     | Inl (OutcomeUnknown _) \<Rightarrow> ?resolve | Inl e \<Rightarrow> fail (EStore e)) ?Q" for x
    by (auto split: sum.splits store_error.splits put_outcome.splits
      intro!: triple_ret triple_fail Q assms(1) stays_rules
      intro: triple_pre [OF again] triple_pre [OF resolve] P put_committed_holds)
      (auto simp: put_ans_def present_def)
  then show "triple prot P (and_then spend (\<lambda>_. and_then (put_req k b d) (\<lambda>x. case x of
       Inr (Committed _) \<Rightarrow> ret WroteOurs | Inr Rejected \<Rightarrow> ret Lost | Inl (Transport _) \<Rightarrow> again
     | Inl (OutcomeUnknown _) \<Rightarrow> ?resolve | Inl e \<Rightarrow> fail (EStore e)))) ?Q"
    by (intro triple_spend triple_put assms Q) simp_all
qed (auto intro!: triple_fail stays_rules assms)

lemma triple_put_record:
  assumes "stays prot P" "prot (absolute q rel)"
  shows "triple prot P (put_record H q rel r)
    (\<lambda>x c. P c \<and> verdict_ok (absolute q rel) (record_bytes H q rel r) x c)"
  unfolding put_record_def using assms by (intro triple_put_resolving) simp_all

end
