(* ===== verification/Queue_Time.thy ===== *)
theory Queue_Time
  imports Queue_Base Memory_Store "HOL-Library.AList"
begin

text \<open>
  Opening a queue, the terminality memo, wall floors and the watermark (\<open>stowq-core\<close>:
  \<open>open_with_clock\<close>, \<open>init\<close>, \<open>memoize_terminal\<close>, \<open>establish_floor\<close>, \<open>depth\<close>, \<open>watermark\<close>,
  \<open>receipt_for\<close>, \<open>advance_watermark\<close>). Loops over pages and the compare-and-swap loop of the
  watermark spend budget in every round; their fuel is one more than the budget.
\<close>

section \<open>Opening\<close>

text \<open>\<open>format!("{}/", root.trim_end_matches('/'))\<close>.\<close>

definition queue_root :: "string \<Rightarrow> string" where
  "queue_root root = rev (dropWhile (\<lambda>c. c = CHR ''/'') (rev root)) @ ''/''"

definition open_with_clock :: "hash_fn \<Rightarrow> string \<Rightarrow> open_options \<Rightarrow> queue op" where
  "open_with_clock H root opts =
     (let blank = \<lparr>fmt_shard_count = 0, fmt_lease_bucket_width_ns = 1, fmt_delayed_bucket_width_ns = 1,
            fmt_terminal_bucket_width_ns = 1, fmt_inline_limit = 0, fmt_required_feature_bits = 0\<rparr>;
          q = \<lparr>q_root = queue_root root, q_opts = opts, q_format = blank\<rparr>
      in and_then (get_req (absolute q KeyFormat)) (\<lambda>r.
         and_then (of_store r) (\<lambda>obj.
         and_then (decode_op H q KeyFormat (obj_body obj)) (\<lambda>record. case record of
           RecordFormat format \<Rightarrow>
             and_then (of_result (map_err ERecordFormat (format_validate format))) (\<lambda>_.
               ret (q\<lparr>q_format := format\<rparr>))
         | _ \<Rightarrow> fail (ERecord ''meta/FORMAT is not a format record'')))))"

text \<open>The read-back loop of \<open>init\<close> predates the budget: it only counts retries.\<close>

definition init_read_back :: "string \<Rightarrow> object op" where
  "init_read_back k = retrying RETRY_TRANSPORT_MAX (\<lambda>again.
     and_then (get_req k) (\<lambda>r. case r of
       Inr obj \<Rightarrow> ret obj
     | Inl e \<Rightarrow> if retryable e then again else fail (EStore e)))"

definition init_queue :: "hash_fn \<Rightarrow> string \<Rightarrow> open_options \<Rightarrow> format_record \<Rightarrow> queue op" where
  "init_queue H root opts format =
     and_then (of_result (map_err ERecordFormat (format_validate format))) (\<lambda>_.
       let q = \<lparr>q_root = queue_root root, q_opts = opts, q_format = format\<rparr>;
           k = absolute q KeyFormat;
           body = record_bytes H q KeyFormat (RecordFormat format)
       in and_then (put_req k body (H body)) (\<lambda>r.
          and_then (of_store r) (\<lambda>outcome. case outcome of
            Committed _ \<Rightarrow> open_with_clock H (queue_root root) opts
          | Rejected \<Rightarrow>
              and_then (init_read_back k) (\<lambda>obj.
              and_then (decode_op H q KeyFormat (obj_body obj)) (\<lambda>existing.
                if existing \<noteq> RecordFormat format then fail QueueIdMismatch
                else open_with_clock H (queue_root root) opts)))))"

section \<open>The terminality memo\<close>

definition TERMINAL_MEMO_CAP :: nat where
  "TERMINAL_MEMO_CAP = 65536"

definition TERMINAL_MEMO_TTL_NS :: u64 where
  "TERMINAL_MEMO_TTL_NS = 30000000000"

definition is_memoized_terminal :: "u16 \<Rightarrow> id16 \<Rightarrow> string \<Rightarrow> bool op" where
  "is_memoized_terminal shard job_id version =
     and_then get_handle (\<lambda>h. case map_of (h_memo h) (shard, job_id) of
       None \<Rightarrow> ret False
     | Some (v, at) \<Rightarrow>
         if v = version
         then and_then elapsed_ns (\<lambda>now. ret (saturating_sub now at < TERMINAL_MEMO_TTL_NS))
         else ret False)"

definition memoize_terminal :: "u16 \<Rightarrow> id16 \<Rightarrow> string \<Rightarrow> unit op" where
  "memoize_terminal shard job_id version =
     and_then elapsed_ns (\<lambda>now. upd_handle (\<lambda>h.
       h\<lparr>h_memo := AList.update (shard, job_id) (version, now)
         (if TERMINAL_MEMO_CAP \<le> length (h_memo h) then [] else h_memo h)\<rparr>))"

section \<open>The watermark\<close>

definition watermark :: "hash_fn \<Rightarrow> queue \<Rightarrow> watermark_record option op" where
  "watermark H q =
     attempt (read_retrying (absolute q KeyWatermark)) (\<lambda>r. case r of
       Inr obj \<Rightarrow>
         and_then (decode_op H q KeyWatermark (obj_body obj)) (\<lambda>record. case record of
           RecordWatermark w \<Rightarrow> ret (Some w)
         | _ \<Rightarrow> fail (ERecord ''watermark key holds a non-watermark record''))
     | Inl e \<Rightarrow> if e = EStore NotFound then ret None else fail e)"

definition watermark_covers :: "hash_fn \<Rightarrow> queue \<Rightarrow> u64 \<Rightarrow> bool op" where
  "watermark_covers H q bucket =
     and_then (watermark H q) (\<lambda>w. ret (case w of
       Some w \<Rightarrow> bucket \<le> wm_highest_observed_wall_bucket w
     | None \<Rightarrow> False))"

text \<open>The record the next write would store; \<open>None\<close> when the stored one already covers the bucket.\<close>

definition next_watermark :: "u64 \<Rightarrow> watermark_record option \<Rightarrow> watermark_record option" where
  "next_watermark bucket current = (case current of
     None \<Rightarrow> Some \<lparr>wm_highest_observed_wall_bucket = bucket, wm_sequence = 0\<rparr>
   | Some w \<Rightarrow> if bucket \<le> wm_highest_observed_wall_bucket w then None
              else Some \<lparr>wm_highest_observed_wall_bucket = bucket, wm_sequence = wm_sequence w + 1\<rparr>)"

text \<open>Create the watermark when it is missing; when it exists, read its version and overwrite that
  version.\<close>

definition watermark_write :: "bool \<Rightarrow> string \<Rightarrow> bytes \<Rightarrow> digest \<Rightarrow> put_outcome store_result op" where
  "watermark_write exists k body d =
     (if exists
      then and_then spend (\<lambda>_.
           and_then (head_req k) (\<lambda>r.
           and_then (of_store r) (\<lambda>m. cas_req k body d (meta_version m))))
      else put_req k body d)"

primrec advance_loop :: "hash_fn \<Rightarrow> queue \<Rightarrow> u64 \<Rightarrow> nat \<Rightarrow> unit op" where
  "advance_loop H q bucket 0 = fail OutOfFuel"
| "advance_loop H q bucket (Suc fuel) =
     and_then (watermark H q) (\<lambda>current.
       case next_watermark bucket current of
         None \<Rightarrow> ret ()
       | Some next_rec \<Rightarrow>
           let k = absolute q KeyWatermark;
               body = record_bytes H q KeyWatermark (RecordWatermark next_rec)
           in and_then spend (\<lambda>_.
              and_then (watermark_write (current \<noteq> None) k body (H body)) (\<lambda>outcome. case outcome of
                Inr (Committed _) \<Rightarrow> ret ()
              | Inr Rejected \<Rightarrow> advance_loop H q bucket fuel
              | Inl (OutcomeUnknown _) \<Rightarrow>
                  and_then (watermark_covers H q bucket) (\<lambda>covered.
                    if covered then ret () else advance_loop H q bucket fuel)
              | Inl e \<Rightarrow> fail (EStore e))))"

definition advance_watermark :: "hash_fn \<Rightarrow> queue \<Rightarrow> u64 \<Rightarrow> unit op" where
  "advance_watermark H q floor_ns =
     (case bucket_number floor_ns (fmt_delayed_bucket_width_ns (q_format q)) of
        None \<Rightarrow> fail (EInternal ''zero delayed width'')
      | Some bucket \<Rightarrow> fueled (advance_loop H q bucket))"

section \<open>Floors\<close>

definition FLOOR_STALENESS_NS :: u64 where
  "FLOOR_STALENESS_NS = 30000000000"

text \<open>The beacon loop of \<open>establish_floor\<close>: at most \<open>n\<close> rounds; 0 when none succeeded.\<close>

primrec beacon_loop :: "hash_fn \<Rightarrow> queue \<Rightarrow> nat \<Rightarrow> u64 op" where
  "beacon_loop H q 0 = ret 0"
| "beacon_loop H q (Suc n) =
     and_then fresh_token (\<lambda>nonce.
     and_then spend (\<lambda>_.
     and_then (put_req (absolute q (KeyBeacon nonce)) [] (H [])) (\<lambda>r. case r of
       Inr (Committed _) \<Rightarrow>
         and_then spend (\<lambda>_.
         and_then (head_req (absolute q (KeyBeacon nonce))) (\<lambda>r.
         and_then (of_store r) (\<lambda>m. ret (meta_store_time_ns m))))
     | Inr Rejected \<Rightarrow> beacon_loop H q n
     | Inl e \<Rightarrow> if retryable e then beacon_loop H q n else fail (EStore e))))"

text \<open>Checking a fresh floor against the watermark and raising it (fail closed on a regression).\<close>

definition raise_floor :: "queue \<Rightarrow> u64 \<Rightarrow> watermark_record option \<Rightarrow> u64 op" where
  "raise_floor q floor_ns w = (case w of
     None \<Rightarrow> ret floor_ns
   | Some w \<Rightarrow>
       let width = fmt_delayed_bucket_width_ns (q_format q);
           wm_ns = saturating_mul (wm_highest_observed_wall_bucket w) width
       in if saturating_add floor_ns (oo_skew_guard_ns (q_opts q)) < wm_ns
          then fail (EStore (ProfileViolation ''store time regression''))
          else of_result (ok_or (effective_floor floor_ns (wm_highest_observed_wall_bucket w) width)
                 (EInternal ''floor raise overflow'')))"

definition establish_floor :: "hash_fn \<Rightarrow> queue \<Rightarrow> u64 op" where
  "establish_floor H q =
     and_then get_handle (\<lambda>h.
     and_then (if fc_floor_ns (h_floor h) > 0
               then and_then elapsed_ns (\<lambda>now.
                 ret (saturating_sub now (fc_established_at_ns (h_floor h)) < FLOOR_STALENESS_NS))
               else ret False) (\<lambda>fresh.
       if fresh then ret (fc_floor_ns (h_floor h))
       else
         and_then (beacon_loop H q (Suc RETRY_TRANSPORT_MAX)) (\<lambda>floor_ns.
           if floor_ns = 0 then fail TransportExhausted
           else
             and_then (watermark H q) (\<lambda>w.
             and_then (raise_floor q floor_ns w) (\<lambda>floor_ns.
             and_then elapsed_ns (\<lambda>now.
             and_then (upd_handle (\<lambda>h. h\<lparr>h_floor := \<lparr>fc_floor_ns = floor_ns, fc_established_at_ns = now\<rparr>\<rparr>)) (\<lambda>_.
               ret floor_ns)))))))"

section \<open>Probes\<close>

record depth_report =
  dr_jobs :: u64
  dr_claims :: u64
  dr_receipts :: u64
  dr_dead :: u64

primrec depth_pages :: "string \<Rightarrow> nat \<Rightarrow> string option \<Rightarrow> u64 \<Rightarrow> u64 op" where
  "depth_pages p 0 after n = fail OutOfFuel"
| "depth_pages p (Suc fuel) after n =
     and_then spend (\<lambda>_.
     and_then (list_req p after 1024) (\<lambda>r.
     and_then (of_store r) (\<lambda>page.
       let n = n + of_nat (length (page_items page))
       in case page_next_after page of
            Some k \<Rightarrow> depth_pages p fuel (Some k) n
          | None \<Rightarrow> ret n)))"

definition depth_plane :: "queue \<Rightarrow> string \<Rightarrow> u16 \<Rightarrow> u64 op" where
  "depth_plane q plane shard =
     fueled (\<lambda>fuel. depth_pages (q_root q @ plane @ ''/'' @ hex shard @ ''/'') fuel None 0)"

definition depth :: "queue \<Rightarrow> u16 \<Rightarrow> depth_report op" where
  "depth q shard =
     and_then (depth_plane q ''jobs'' shard) (\<lambda>jobs.
     and_then (depth_plane q ''claims'' shard) (\<lambda>claims.
     and_then (depth_plane q ''receipts'' shard) (\<lambda>receipts.
     and_then (depth_plane q ''dead'' shard) (\<lambda>dead.
       ret \<lparr>dr_jobs = jobs, dr_claims = claims, dr_receipts = receipts, dr_dead = dead\<rparr>))))"

definition receipt_for :: "hash_fn \<Rightarrow> queue \<Rightarrow> u16 \<Rightarrow> id16 \<Rightarrow> receipt_record option op" where
  "receipt_for H q shard job_id =
     attempt (read_retrying (absolute q (KeyReceipt shard job_id))) (\<lambda>r. case r of
       Inr obj \<Rightarrow>
         and_then (decode_op H q (KeyReceipt shard job_id) (obj_body obj)) (\<lambda>record. case record of
           RecordReceipt r \<Rightarrow> ret (Some r)
         | _ \<Rightarrow> fail (ERecord ''receipt key holds a non-receipt record''))
     | Inl e \<Rightarrow> if e = EStore NotFound then ret None else fail e)"

section \<open>Lemmas: requests\<close>

lemma emits_watermark [emits_rules]: "emits_op (harmless p) (watermark H q)"
  unfolding watermark_def
  by (intro emits_rules) (auto intro!: emits_rules split: sum.splits stow_record.splits)

lemma emits_watermark_covers [emits_rules]: "emits_op (harmless p) (watermark_covers H q b)"
  unfolding watermark_covers_def by (intro emits_rules)

lemma emits_watermark_write [emits_rules]:
  "emits_op (harmless (protected q)) (watermark_write e (absolute q KeyWatermark) b d)"
  unfolding watermark_write_def by (intro emits_rules) simp_all

lemma emits_advance_loop: "emits_op (harmless (protected q)) (advance_loop H q b n)"
proof (induction n)
  case (Suc n)
  then show ?case
    by (auto simp: Let_def intro!: emits_rules
      split: option.splits sum.splits put_outcome.splits store_error.splits)
qed (simp add: emits_op_fail)

lemma emits_advance_watermark [emits_rules]:
  "emits_op (harmless (protected q)) (advance_watermark H q f)"
  unfolding advance_watermark_def
  by (auto intro!: emits_rules emits_advance_loop split: option.splits)

lemma emits_beacon_loop [emits_rules]: "emits_op (harmless p) (beacon_loop H q n)"
  by (induction n) (auto intro!: emits_rules split: sum.splits put_outcome.splits)

lemma emits_raise_floor [emits_rules]: "emits_op G (raise_floor q f w)"
  by (auto simp: raise_floor_def Let_def intro!: emits_rules split: option.splits)

lemma emits_establish_floor [emits_rules]: "emits_op (harmless p) (establish_floor H q)"
  unfolding establish_floor_def by (intro emits_rules)

lemma emits_is_memoized [emits_rules]: "emits_op G (is_memoized_terminal s j v)"
  unfolding is_memoized_terminal_def
  by (intro emits_rules) (auto intro!: emits_rules split: option.splits)

lemma emits_memoize [emits_rules]: "emits_op G (memoize_terminal s j v)"
  unfolding memoize_terminal_def by (intro emits_rules)

lemma emits_receipt_for [emits_rules]: "emits_op (harmless p) (receipt_for H q s j)"
  unfolding receipt_for_def
  by (intro emits_rules) (auto intro!: emits_rules split: sum.splits stow_record.splits)

lemma emits_depth_pages: "emits_op (harmless p) (depth_pages pre n a k)"
  by (induction n arbitrary: a k) (auto simp: Let_def intro!: emits_rules split: option.splits)

lemma emits_depth [emits_rules]: "emits_op (harmless p) (depth q s)"
  unfolding depth_def depth_plane_def by (intro emits_rules emits_depth_pages)

section \<open>Lemmas: budget\<close>

lemma within_watermark [costs_rules]: "within c (watermark H q)"
  unfolding watermark_def
  by (intro within_attempt costs_rules)
    (auto intro: costs_rules intro!: within_then split: sum.splits stow_record.splits)

lemma within_watermark_covers [costs_rules]: "within c (watermark_covers H q b)"
  unfolding watermark_covers_def by (intro within_then costs_rules)

lemma within_watermark_write: "within (Suc 0) (watermark_write e k body d)"
  by (auto simp: watermark_write_def within_def op_defs paid_def split: sum.splits)

lemma within_advance_loop: "within 0 (advance_loop H q b n)"
proof (induction n)
  case (Suc n)
  then show ?case
    by (auto simp: Let_def intro!: within_rules costs_rules within_watermark_write
      split: option.splits sum.splits put_outcome.splits store_error.splits)
qed (simp add: within_fail)

lemma within_advance_watermark [costs_rules]: "within c (advance_watermark H q f)"
  unfolding advance_watermark_def
  by (auto intro: costs_rules within_fueled within_advance_loop split: option.splits)

lemma within_beacon_loop: "within 0 (beacon_loop H q n)"
  by (induction n)
    (auto intro!: within_pure within_spend within_requests within_result
      intro: costs_rules within_any split: sum.splits put_outcome.splits)

lemma within_raise_floor [costs_rules]: "within c (raise_floor q f w)"
  by (auto simp: raise_floor_def Let_def intro: costs_rules split: option.splits)

lemma within_establish_floor [costs_rules]: "within c (establish_floor H q)"
  unfolding establish_floor_def
  by (rule within_any)
    (intro within_pure within_if within_then costs_rules within_beacon_loop within_upd; simp)

lemma within_is_memoized [costs_rules]: "within c (is_memoized_terminal s j v)"
  unfolding is_memoized_terminal_def
  by (intro within_pure) (auto intro!: within_pure intro: costs_rules split: option.splits)

lemma within_memoize [costs_rules]: "within c (memoize_terminal s j v)"
  unfolding memoize_terminal_def by (intro within_pure costs_rules) simp

lemma within_receipt_for [costs_rules]: "within c (receipt_for H q s j)"
  unfolding receipt_for_def
  by (intro within_attempt costs_rules)
    (auto intro: costs_rules intro!: within_then split: sum.splits stow_record.splits)

lemma within_depth_pages: "within 0 (depth_pages p n a k)"
  by (induction n arbitrary: a k)
    (auto simp: Let_def intro!: within_spend within_requests within_result
      intro: costs_rules split: option.splits)

lemma within_depth [costs_rules]: "within c (depth q s)"
  unfolding depth_def depth_plane_def
  by (intro within_then costs_rules within_fueled within_depth_pages)

section \<open>Lemmas: termination\<close>

lemma ends_watermark [simp]: "ends n (watermark H q)"
  unfolding watermark_def
  by (intro ends_rules) (auto intro!: ends_rules split: sum.splits stow_record.splits)

lemma ends_watermark_covers [simp]: "ends n (watermark_covers H q b)"
  unfolding watermark_covers_def by (intro ends_rules) simp_all

lemma ends_watermark_write [simp]: "ends n (watermark_write e k b d)"
  unfolding watermark_write_def by (intro ends_rules) simp_all

text \<open>A round of the watermark loop spends before it writes.\<close>

lemma ends_advance_loop: "ends n (advance_loop H q b n)"
proof (induction n)
  case (Suc n)
  then show ?case
    by (auto simp: Let_def intro!: ends_rules
      split: option.splits sum.splits put_outcome.splits store_error.splits)
qed simp

lemma ends_advance_watermark [simp]: "ends n (advance_watermark H q f)"
  unfolding advance_watermark_def by (auto intro: ends_fueled ends_advance_loop split: option.splits)

lemma ends_beacon_loop [simp]: "ends n (beacon_loop H q k)"
  by (induction k) (auto intro!: ends_rules split: sum.splits put_outcome.splits)

lemma ends_raise_floor [simp]: "ends n (raise_floor q f w)"
  by (auto simp: raise_floor_def Let_def of_result_def ok_or_def split: option.splits)

lemma ends_establish_floor [simp]: "ends n (establish_floor H q)"
  unfolding establish_floor_def
  by (intro ends_rules ends_upd_handle) (simp_all del: beacon_loop.simps)

lemma ends_is_memoized [simp]: "ends n (is_memoized_terminal s j v)"
  unfolding is_memoized_terminal_def
  by (intro ends_rules) (auto intro!: ends_rules split: option.splits)

lemma ends_memoize [simp]: "ends n (memoize_terminal s j v)"
  unfolding memoize_terminal_def by (intro ends_rules ends_upd_handle) simp_all

lemma ends_receipt_for [simp]: "ends n (receipt_for H q s j)"
  unfolding receipt_for_def
  by (intro ends_rules) (auto intro!: ends_rules split: sum.splits stow_record.splits)

lemma ends_depth_pages: "ends n (depth_pages p n a k)"
  by (induction n arbitrary: a k)
    (auto simp: Let_def intro!: ends_rules split: option.splits)

lemma ends_depth [simp]: "ends n (depth q s)"
  unfolding depth_def depth_plane_def by (intro ends_rules ends_fueled ends_depth_pages) simp_all

end
