(* ===== verification/Queue_Enqueue.thy ===== *)
theory Queue_Enqueue
  imports Queue_Time
begin

text \<open>
  Producing jobs (\<open>stowq-core\<close>: \<open>enqueue\<close>). A payload above the inline limit goes to a
  content-addressed key first; then the job record is written once under its own key. The lemmas
  give the meaning of both outcomes on the contents of the store: the record and the presence of the
  payload among arbitrary clients, and the bytes of the payload among clients that address payloads
  by their digest.
\<close>

section \<open>Definitions\<close>

record enqueue_input =
  in_job_id :: "id16 option"
  in_payload :: bytes
  in_content_type :: string
  in_maximum_attempts :: u64
  in_not_before_ns :: "u64 option"

datatype enqueue_outcome = Enqueued id16 | IdTaken id16

definition inline_payload :: "queue \<Rightarrow> enqueue_input \<Rightarrow> bool" where
  "inline_payload q input \<longleftrightarrow>
     of_nat (length (in_payload input)) \<le> min (oo_max_inline_payload (q_opts q)) (fmt_inline_limit (q_format q))"

definition payload_rel :: "hash_fn \<Rightarrow> enqueue_input \<Rightarrow> id16 \<Rightarrow> key" where
  "payload_rel H input job_id = KeyPayload job_id (H (in_payload input))"

definition enqueue_record :: "hash_fn \<Rightarrow> queue \<Rightarrow> enqueue_input \<Rightarrow> id16 \<Rightarrow> job_record" where
  "enqueue_record H q input job_id =
     \<lparr>job_job_id = job_id,
      job_maximum_attempts = in_maximum_attempts input,
      job_content_type = in_content_type input,
      job_created_store_time_ns = 0,
      job_not_before_ns = in_not_before_ns input,
      job_payload_digest = H (in_payload input),
      job_payload_length = of_nat (length (in_payload input)),
      job_payload_inline = (if inline_payload q input then Some (in_payload input) else None),
      job_payload_key = (if inline_payload q input then None
                         else Some (show_key (payload_rel H input job_id)))\<rparr>"

text \<open>The advisory delay entry; its outcome is ignored.\<close>

definition write_delay_index :: "hash_fn \<Rightarrow> queue \<Rightarrow> enqueue_input \<Rightarrow> u16 \<Rightarrow> id16 \<Rightarrow> unit op" where
  "write_delay_index H q input shard job_id = (case in_not_before_ns input of
     None \<Rightarrow> ret ()
   | Some nb \<Rightarrow>
       and_then (of_result (ok_or (bucket_number nb (fmt_delayed_bucket_width_ns (q_format q)))
           (EInternal ''zero delayed width''))) (\<lambda>bucket.
       and_then spend (\<lambda>_.
       and_then (put_req (absolute q (KeyDelayIndex bucket shard job_id)) [] (H [])) (\<lambda>_. ret ()))))"

definition enqueue_job :: "hash_fn \<Rightarrow> queue \<Rightarrow> enqueue_input \<Rightarrow> id16 \<Rightarrow> enqueue_outcome op" where
  "enqueue_job H q input job_id =
     (case compute_shard H (queue_id q) job_id (max (fmt_shard_count (q_format q)) 1) of
        None \<Rightarrow> fail Panic
      | Some shard \<Rightarrow>
          and_then
            (if inline_payload q input then ret ()
             else put_bytes_resolving (absolute q (payload_rel H input job_id)) (in_payload input)
                    (H (in_payload input)))
            (\<lambda>_.
          let record = RecordJob (enqueue_record H q input job_id);
              rel = KeyJob shard job_id
          in and_then spend (\<lambda>_.
             and_then (put_record H q rel record) (\<lambda>outcome. case outcome of
               NotCommitted \<Rightarrow> fail (EInternal ''enqueue not committed after retry'')
             | WroteOurs \<Rightarrow>
                 and_then (write_delay_index H q input shard job_id) (\<lambda>_. ret (Enqueued job_id))
             | Lost \<Rightarrow>
                 and_then (read_retrying (absolute q rel)) (\<lambda>obj.
                   if decode_at H q rel (obj_body obj) = Inr record then ret (Enqueued job_id)
                   else ret (IdTaken job_id))))))"

definition enqueue :: "hash_fn \<Rightarrow> queue \<Rightarrow> enqueue_input \<Rightarrow> enqueue_outcome op" where
  "enqueue H q input =
     (if in_maximum_attempts input = 0 then fail (ERecord ''maximum_attempts must be positive'')
      else case in_job_id input of
        Some job_id \<Rightarrow> enqueue_job H q input job_id
      | None \<Rightarrow> and_then fresh_token (enqueue_job H q input))"

text \<open>What the outcomes say about the store.\<close>

definition job_stored :: "hash_fn \<Rightarrow> queue \<Rightarrow> enqueue_input \<Rightarrow> id16 \<Rightarrow> contents \<Rightarrow> bool" where
  "job_stored H q input j c \<longleftrightarrow> (\<exists>shard.
     compute_shard H (queue_id q) j (max (fmt_shard_count (q_format q)) 1) = Some shard
     \<and> holds_bytes c (absolute q (KeyJob shard j))
          (record_bytes H q (KeyJob shard j) (RecordJob (enqueue_record H q input j)))
     \<and> (inline_payload q input \<or> present c (absolute q (payload_rel H input j))))"

definition job_taken :: "hash_fn \<Rightarrow> queue \<Rightarrow> enqueue_input \<Rightarrow> id16 \<Rightarrow> contents \<Rightarrow> bool" where
  "job_taken H q input j c \<longleftrightarrow> (\<exists>shard obj.
     compute_shard H (queue_id q) j (max (fmt_shard_count (q_format q)) 1) = Some shard
     \<and> c (absolute q (KeyJob shard j)) = Some obj
     \<and> decode_at H q (KeyJob shard j) (obj_body obj) \<noteq> Inr (RecordJob (enqueue_record H q input j)))"

definition enqueue_post ::
  "hash_fn \<Rightarrow> queue \<Rightarrow> enqueue_input \<Rightarrow> queue_error + enqueue_outcome \<Rightarrow> contents \<Rightarrow> bool" where
  "enqueue_post H q input r c = (case r of
     Inr (Enqueued j) \<Rightarrow> (\<forall>i. in_job_id input = Some i \<longrightarrow> j = i) \<and> job_stored H q input j c
   | Inr (IdTaken j) \<Rightarrow> (\<forall>i. in_job_id input = Some i \<longrightarrow> j = i) \<and> job_taken H q input j c
   | Inl _ \<Rightarrow> True)"

text \<open>A rejected write of the payload counts as success, because the key is the digest of the bytes. So the
  bytes found there are those of the payload as long as every client writes under a payload key only bytes
  with its digest.\<close>

definition content_addressed :: "hash_fn \<Rightarrow> queue \<Rightarrow> contents \<Rightarrow> bool" where
  "content_addressed H q c \<longleftrightarrow>
     (\<forall>j digest obj. c (absolute q (KeyPayload j digest)) = Some obj \<longrightarrow> H (obj_body obj) = digest)"

definition payload_intact :: "hash_fn \<Rightarrow> queue \<Rightarrow> enqueue_input \<Rightarrow> id16 \<Rightarrow> contents \<Rightarrow> bool" where
  "payload_intact H q input j c \<longleftrightarrow> inline_payload q input
     \<or> (\<exists>obj. c (absolute q (payload_rel H input j)) = Some obj \<and> H (obj_body obj) = H (in_payload input))"

definition intact_post ::
  "hash_fn \<Rightarrow> queue \<Rightarrow> enqueue_input \<Rightarrow> queue_error + enqueue_outcome \<Rightarrow> contents \<Rightarrow> bool" where
  "intact_post H q input r c \<longleftrightarrow> enqueue_post H q input r c
     \<and> (\<forall>j. r = Inr (Enqueued j) \<longrightarrow> payload_intact H q input j c)"

section \<open>Lemmas\<close>

lemma emits_write_delay_index [emits_rules]: "emits_op (harmless p) (write_delay_index H q i s j)"
  unfolding write_delay_index_def by (auto intro!: emits_rules split: option.splits)

lemma within_write_delay_index [costs_rules]: "within c (write_delay_index H q i s j)"
  unfolding write_delay_index_def
  by (auto intro!: within_rules costs_rules split: option.splits)

lemma ends_write_delay_index [simp]: "ends n (write_delay_index H q i s j)"
  unfolding write_delay_index_def
  by (auto simp: of_result_def ok_or_def intro!: ends_rules split: option.splits)

lemma emits_enqueue_job [emits_rules]: "emits_op (harmless p) (enqueue_job H q i j)"
  unfolding enqueue_job_def
  by (auto simp: Let_def intro!: emits_rules split: option.splits resolved.splits)

lemma within_enqueue_job [costs_rules]: "within c (enqueue_job H q i j)"
  unfolding enqueue_job_def
  by (auto simp: Let_def intro!: within_rules costs_rules split: option.splits resolved.splits)

lemma ends_enqueue_job [simp]: "ends n (enqueue_job H q i j)"
  unfolding enqueue_job_def
  by (auto simp: Let_def intro!: ends_rules split: option.splits resolved.splits)

lemma emits_enqueue [emits_rules]: "emits_op (harmless p) (enqueue H q i)"
  unfolding enqueue_def by (auto intro!: emits_rules split: option.splits)

lemma within_enqueue [costs_rules]: "within c (enqueue H q i)"
  unfolding enqueue_def by (auto intro!: within_rules costs_rules split: option.splits)

lemma ends_enqueue [simp]: "ends n (enqueue H q i)"
  unfolding enqueue_def by (auto intro!: ends_rules split: option.splits)

section \<open>Lemmas: outcomes\<close>

lemma stays_job_stored [stays_rules]: "stays (protected q) (job_stored H q i j)"
  unfolding job_stored_def by (intro stays_rules) (simp_all add: payload_rel_def)

lemma stays_job_taken [stays_rules]: "stays (protected q) (job_taken H q i j)"
  unfolding job_taken_def by (intro stays_rules) simp_all

lemma stays_enqueue_post: "stays (protected q) (enqueue_post H q i r)"
  unfolding enqueue_post_def
  by (cases r; simp split: enqueue_outcome.splits) (auto intro!: stays_rules split: enqueue_outcome.split)

lemma triple_enqueue_job:
  "triple (protected q) (\<lambda>c. True) (enqueue_job H q i j)
     (\<lambda>r c. (\<forall>j'. r = Inr (Enqueued j') \<longrightarrow> j' = j \<and> job_stored H q i j c)
          \<and> (\<forall>j'. r = Inr (IdTaken j') \<longrightarrow> j' = j \<and> job_taken H q i j c))"
    (is "triple ?p _ _ ?Q")
proof (cases "compute_shard H (queue_id q) j (max (fmt_shard_count (q_format q)) 1)")
  case None
  then show ?thesis
    by (auto simp: enqueue_job_def intro!: triple_fail)
next
  case (Some shard)
  let ?rel = "KeyJob shard j" and ?rec = "RecordJob (enqueue_record H q i j)"
  let ?P = "\<lambda>c. inline_payload q i \<or> present c (absolute q (payload_rel H i j))"
  have Q: "stays ?p (?Q r)" for r
    by (intro stays_rules)
  have P: "stays ?p ?P"
    by (intro stays_rules) (simp add: payload_rel_def)
  have stored: "job_stored H q i j c" if "?P c" "holds_bytes c (absolute q ?rel) (record_bytes H q ?rel ?rec)" for c
    using that Some by (auto simp: job_stored_def)
  have payload: "triple ?p (\<lambda>c. True) (if inline_payload q i then ret ()
      else put_bytes_resolving (absolute q (payload_rel H i j)) (in_payload i) (H (in_payload i)))
      (\<lambda>r c. r = Inr () \<longrightarrow> ?P c)"
    by (auto intro!: triple_ret triple_weaken [OF triple_put_bytes_resolving [where P = "\<lambda>c. True"]]
      simp: payload_rel_def)
  have wrote: "triple ?p (\<lambda>c. ?P c \<and> holds_bytes c (absolute q ?rel) (record_bytes H q ?rel ?rec))
      (and_then (write_delay_index H q i shard j) (\<lambda>_. ret (Enqueued j))) ?Q"
    by (rule triple_then [OF triple_harmless]) (auto intro!: emits_rules stays_rules triple_ret P intro: stored)
  have found: "job_stored H q i j c" if "?P c" "c (absolute q ?rel) = Some obj"
      "decode_at H q ?rel (obj_body obj) = Inr ?rec" for c obj
    using that by (intro stored decode_at_holds)
  have lost: "triple ?p ?P (and_then (read_retrying (absolute q ?rel)) (\<lambda>obj.
      if decode_at H q ?rel (obj_body obj) = Inr ?rec then ret (Enqueued j) else ret (IdTaken j))) ?Q"
    by (rule triple_then [OF triple_read_retrying [OF P]])
      (auto intro!: triple_ret stays_rules intro: found simp: job_taken_def Some)
  have "triple ?p ?P (and_then (put_record H q ?rel ?rec) (\<lambda>outcome. case outcome of
         NotCommitted \<Rightarrow> fail (EInternal ''enqueue not committed after retry'')
       | WroteOurs \<Rightarrow> and_then (write_delay_index H q i shard j) (\<lambda>_. ret (Enqueued j))
       | Lost \<Rightarrow> and_then (read_retrying (absolute q ?rel)) (\<lambda>obj.
           if decode_at H q ?rel (obj_body obj) = Inr ?rec then ret (Enqueued j) else ret (IdTaken j)))) ?Q"
    by (rule triple_then [OF triple_put_record [OF P]])
      (auto split: resolved.splits intro!: triple_fail Q intro: triple_pre [OF wrote] triple_pre [OF lost])
  from triple_spend [OF this Q] show ?thesis
    unfolding enqueue_job_def Some option.case Let_def
    by (intro triple_then [OF payload] Q) (auto elim: triple_pre)
qed

lemma triple_enqueue: "triple (protected q) (\<lambda>c. True) (enqueue H q i) (enqueue_post H q i)"
proof -
  have "triple (protected q) (\<lambda>c. True) (enqueue_job H q i j) (enqueue_post H q i)"
    if "\<forall>k. in_job_id i = Some k \<longrightarrow> j = k" for j
    by (rule triple_weaken [OF triple_enqueue_job])
      (use that in \<open>auto simp: enqueue_post_def split: sum.splits enqueue_outcome.splits\<close>)
  then show ?thesis
    by (auto simp: enqueue_def enqueue_post_def intro!: triple_fail triple_handle stays_enqueue_post
      split: option.splits)
qed

section \<open>Lemmas: the bytes of the payload\<close>

lemma addressed_write [simp]:
  "put_allowed (keeps_fact (content_addressed H q)) (absolute q rel) b d
     \<longleftrightarrow> (\<forall>j digest. rel = KeyPayload j digest \<longrightarrow> H b = digest)"
  "keeps_fact (content_addressed H q) (ReqPut (absolute q rel) b d)
     \<longleftrightarrow> (\<forall>j digest. rel = KeyPayload j digest \<longrightarrow> H b = digest)"
proof -
  show "keeps_fact (content_addressed H q) (ReqPut (absolute q rel) b d)
     \<longleftrightarrow> (\<forall>j digest. rel = KeyPayload j digest \<longrightarrow> H b = digest)"
    by (auto simp: content_addressed_def dest!: spec [of _ Map.empty])
  then show "put_allowed (keeps_fact (content_addressed H q)) (absolute q rel) b d
     \<longleftrightarrow> (\<forall>j digest. rel = KeyPayload j digest \<longrightarrow> H b = digest)"
    by (simp add: put_allowed_def)
qed

lemma addressed_enqueue: "emits_op (keeps_fact (content_addressed H q)) (enqueue H q i)"
proof -
  have "emits_op (keeps_fact (content_addressed H q)) (enqueue_job H q i j)" for j
    unfolding enqueue_job_def write_delay_index_def
    by (auto simp: Let_def payload_rel_def simp del: keeps_fact.simps(1) intro!: emits_rules split: option.splits resolved.splits)
  then show ?thesis
    unfolding enqueue_def by (auto intro!: emits_rules split: option.splits)
qed

lemma intact_postI: "enqueue_post H q i r c \<Longrightarrow> content_addressed H q c \<Longrightarrow> intact_post H q i r c"
  by (auto simp: intact_post_def enqueue_post_def job_stored_def payload_intact_def content_addressed_def payload_rel_def present_def)

end
