(* ===== verification/Queue_Claim.thy ===== *)
theory Queue_Claim
  imports Queue_Enqueue
begin

text \<open>
  Taking jobs (\<open>stowq-core\<close>: \<open>claim\<close>, \<open>claim_many\<close>, \<open>try_claim\<close> and the tail discovery they
  use). A claim is one object per generation of a job; the worker that creates the object owns the
  generation. The two terminal probes and the tail discovery that the source joins are run in
  declaration order, as they are on a store that answers at once; interleavings with other
  clients are those of the theory of interference.
\<close>

section \<open>Data\<close>

record claim_options =
  co_shard :: u16
  co_floor_ns :: u64
  co_lease_duration_ns :: u64

datatype payload_ref = Inline bytes | Detached string digest u64

record claim =
  cl_job_id :: id16
  cl_shard :: u16
  cl_generation :: u64
  cl_attempt :: u64
  cl_worker_token :: id16
  cl_lease_duration_ns :: u64
  cl_claim_store_time_ns :: u64
  cl_payload :: payload_ref

text \<open>What the scan knows of the newest claim of a job.\<close>

record tail_state =
  t_gen :: u64
  t_meta :: meta
  t_attempt :: u64
  t_duration :: u64

definition no_meta :: meta where
  "no_meta = \<lparr>meta_version = ''0'', meta_store_time_ns = 0, meta_size = 0\<rparr>"

type_synonym hint_state = "(string \<times> u64) option"

definition u32_max :: u64 where
  "u32_max = 0xFFFFFFFF"

section \<open>Generations in keys\<close>

definition hex_digit_value :: "char \<Rightarrow> nat option" where
  "hex_digit_value c =
     (let n = (of_char c :: nat) in
      if 48 \<le> n \<and> n \<le> 57 then Some (n - 48)
      else if 97 \<le> n \<and> n \<le> 102 then Some (n - 87)
      else if 65 \<le> n \<and> n \<le> 70 then Some (n - 55)
      else None)"

definition from_hex_radix :: "string \<Rightarrow> nat" where
  "from_hex_radix s = foldl (\<lambda>n c. n * 16 + (case hex_digit_value c of Some d \<Rightarrow> d | None \<Rightarrow> 0)) 0 s"

definition parse_generation :: "string \<Rightarrow> u64 option" where
  "parse_generation k =
     (let segment = last (split_on (CHR ''/'') k) in
      if length segment \<noteq> 8 \<or> \<not> list_all (\<lambda>c. hex_digit_value c \<noteq> None) segment then None
      else Some (of_nat (from_hex_radix segment)))"

section \<open>Tail discovery\<close>

definition claims_dir :: "queue \<Rightarrow> u16 \<Rightarrow> id16 \<Rightarrow> string" where
  "claims_dir q shard job_id = q_root q @ claims_prefix shard job_id"

definition tail_of_items :: "(u64 \<times> meta) option \<Rightarrow> listing list \<Rightarrow> (u64 \<times> meta) option" where
  "tail_of_items = foldl (\<lambda>tail item. case parse_generation (item_key item) of
     Some g \<Rightarrow> Some (g, item_meta item) | None \<Rightarrow> tail)"

primrec list_tail_loop :: "string \<Rightarrow> nat \<Rightarrow> string option \<Rightarrow> (u64 \<times> meta) option
    \<Rightarrow> (u64 \<times> meta) option op" where
  "list_tail_loop dir 0 after tail = fail OutOfFuel"
| "list_tail_loop dir (Suc fuel) after tail =
     and_then spend (\<lambda>_.
     and_then (list_req dir after 64) (\<lambda>r.
     and_then (of_store r) (\<lambda>page.
       let tail = tail_of_items tail (page_items page)
       in case page_next_after page of
            Some k \<Rightarrow> list_tail_loop dir fuel (Some k) tail
          | None \<Rightarrow> ret tail)))"

definition list_tail :: "string \<Rightarrow> (u64 \<times> meta) option op" where
  "list_tail dir = fueled (\<lambda>fuel. list_tail_loop dir fuel None None)"

definition tail_record :: "hash_fn \<Rightarrow> queue \<Rightarrow> u16 \<Rightarrow> id16 \<Rightarrow> u64 \<Rightarrow> (u64 \<times> u64) op" where
  "tail_record H q shard job_id generation =
     and_then spend (\<lambda>_.
       let rel = KeyClaim shard job_id (ucast generation)
       in and_then (get_req (absolute q rel)) (\<lambda>r.
          and_then (of_store r) (\<lambda>obj.
          and_then (decode_op H q rel (obj_body obj)) (\<lambda>record. case record of
            RecordClaim c \<Rightarrow> ret (claim_attempt c, claim_lease_duration_ns c)
          | _ \<Rightarrow> fail (ERecord ''claim key holds a non-claim record'')))))"

text \<open>The authoritative evidence: list the chain, then read the record of its newest generation.\<close>

definition rediscover :: "hash_fn \<Rightarrow> queue \<Rightarrow> u16 \<Rightarrow> id16 \<Rightarrow> tail_state op" where
  "rediscover H q shard job_id =
     and_then (list_tail (claims_dir q shard job_id)) (\<lambda>t.
       let (g, m) = (case t of Some x \<Rightarrow> x | None \<Rightarrow> (0, no_meta))
       in and_then (if g = 0 then ret (0, 0) else tail_record H q shard job_id g) (\<lambda>(a, d).
            ret \<lparr>t_gen = g, t_meta = m, t_attempt = a, t_duration = d\<rparr>))"

section \<open>Tail hints\<close>

definition hints_enabled :: "queue \<Rightarrow> bool" where
  "hints_enabled q \<longleftrightarrow> fmt_required_feature_bits (q_format q) AND 2 \<noteq> 0"

text \<open>\<open>if budget.spend().is_ok() { let _ = ... }\<close>.\<close>

definition best_effort :: "'a op \<Rightarrow> unit op" where
  "best_effort m = attempt spend (\<lambda>r. case r of
     Inr _ \<Rightarrow> attempt m (\<lambda>_. ret ())
   | Inl _ \<Rightarrow> ret ())"

definition write_tail_hint :: "hash_fn \<Rightarrow> queue \<Rightarrow> u16 \<Rightarrow> id16 \<Rightarrow> u64 \<Rightarrow> hint_state \<Rightarrow> unit op" where
  "write_tail_hint H q shard job_id generation known =
     (if \<not> hints_enabled q then ret ()
      else let k = absolute q (KeyTail shard job_id);
               body = to_be_bytes generation
           in case known of
                None \<Rightarrow> best_effort (put_req k body (H body))
              | Some (version, gen) \<Rightarrow>
                  if gen \<ge> generation then ret ()
                  else best_effort (cas_req k body (H body) version))"

definition read_tail_hint :: "queue \<Rightarrow> u16 \<Rightarrow> id16 \<Rightarrow> hint_state op" where
  "read_tail_hint q shard job_id =
     and_then spend (\<lambda>_.
     and_then (get_req (absolute q (KeyTail shard job_id))) (\<lambda>r. case r of
       Inr obj \<Rightarrow>
         (let version = meta_version (obj_meta obj);
              gen = (from_be_bytes (obj_body obj) :: u64)
          in if length (obj_body obj) = 8 \<and> 1 \<le> gen \<and> gen \<le> u32_max
             then ret (Some (version, gen))
             else ret (Some (version, 0)))
     | Inl e \<Rightarrow> if e = NotFound then ret None else fail (EStore e)))"

definition update_tail_hint :: "hash_fn \<Rightarrow> queue \<Rightarrow> u16 \<Rightarrow> id16 \<Rightarrow> u64 \<Rightarrow> unit op" where
  "update_tail_hint H q shard job_id generation =
     (if \<not> hints_enabled q then ret ()
      else attempt (read_tail_hint q shard job_id) (\<lambda>r. case r of
        Inr known \<Rightarrow> write_tail_hint H q shard job_id generation known
      | Inl _ \<Rightarrow> ret ()))"

text \<open>The third branch of the join: the newest generation, by hint or by listing, what is known of the
  hint, and the claim record when the hint led to one.\<close>

definition gather_tail :: "hash_fn \<Rightarrow> queue \<Rightarrow> u16 \<Rightarrow> id16
    \<Rightarrow> ((u64 \<times> meta) option \<times> hint_state \<times> claim_record option) op" where
  "gather_tail H q shard job_id =
     (let listing = (\<lambda>hint. and_then (list_tail (claims_dir q shard job_id)) (\<lambda>t. ret (t, hint, None)))
      in if \<not> hints_enabled q then listing None
         else and_then (read_tail_hint q shard job_id) (\<lambda>hint. case hint of
           None \<Rightarrow> listing None
         | Some (version, gen) \<Rightarrow>
             if gen > 0 \<and> gen \<le> u32_max then
               let rel = KeyClaim shard job_id (ucast gen)
               in and_then spend (\<lambda>_.
                  and_then (get_req (absolute q rel)) (\<lambda>r. case r of
                    Inr obj \<Rightarrow> (case decode_at H q rel (obj_body obj) of
                        Inr (RecordClaim c) \<Rightarrow> ret (Some (gen, obj_meta obj), Some (version, gen), Some c)
                      | _ \<Rightarrow> listing (Some (version, 0)))
                  | Inl e \<Rightarrow> if e = NotFound then listing (Some (version, 0)) else fail (EStore e)))
             else listing (Some (version, 0))))"

section \<open>One round\<close>

definition lease_expired :: "queue \<Rightarrow> u64 \<Rightarrow> tail_state \<Rightarrow> bool" where
  "lease_expired q floor_ns t \<longleftrightarrow> t_gen t = 0
     \<or> saturating_add (saturating_add (meta_store_time_ns (t_meta t)) (t_duration t))
         (oo_skew_guard_ns (q_opts q)) \<le> floor_ns"

text \<open>The backoff gate: whether a fail record of the newest generation still forbids a takeover.\<close>

definition backed_off :: "hash_fn \<Rightarrow> queue \<Rightarrow> u16 \<Rightarrow> id16 \<Rightarrow> u64 \<Rightarrow> u64 \<Rightarrow> bool op" where
  "backed_off H q shard job_id gen floor_ns =
     (if gen > 0 then
        and_then spend (\<lambda>_.
          let rel = KeyFail shard job_id (ucast gen)
          in and_then (get_req (absolute q rel)) (\<lambda>r. case r of
               Inr obj \<Rightarrow>
                 and_then (decode_op H q rel (obj_body obj)) (\<lambda>record. case record of
                   RecordFail f \<Rightarrow> ret (floor_ns < fail_retry_not_before_ns f)
                 | _ \<Rightarrow> fail (ERecord ''fail key holds a non-fail record''))
             | Inl e \<Rightarrow> if e = NotFound then ret False else fail (EStore e)))
      else ret False)"

definition read_job :: "hash_fn \<Rightarrow> queue \<Rightarrow> u16 \<Rightarrow> id16 \<Rightarrow> job_record option op" where
  "read_job H q shard job_id =
     and_then spend (\<lambda>_.
       let rel = KeyJob shard job_id
       in and_then (get_req (absolute q rel)) (\<lambda>r. case r of
            Inr obj \<Rightarrow>
              and_then (decode_op H q rel (obj_body obj)) (\<lambda>record. case record of
                RecordJob j \<Rightarrow> ret (Some j)
              | _ \<Rightarrow> fail (ERecord ''job key holds a non-job record''))
          | Inl e \<Rightarrow> if e = NotFound then ret None else fail (EStore e)))"

text \<open>The best-effort terminal index entry.\<close>

definition write_termidx :: "hash_fn \<Rightarrow> queue \<Rightarrow> term_kind \<Rightarrow> u16 \<Rightarrow> id16 \<Rightarrow> unit op" where
  "write_termidx H q kind shard job_id =
     attempt spend (\<lambda>r. case r of
       Inl _ \<Rightarrow> ret ()
     | Inr _ \<Rightarrow> attempt (establish_floor H q) (\<lambda>fl. case fl of
         Inl _ \<Rightarrow> ret ()
       | Inr floor_ns \<Rightarrow>
           (case bucket_number floor_ns (fmt_terminal_bucket_width_ns (q_format q)) of
              None \<Rightarrow> ret ()
            | Some bucket \<Rightarrow>
                best_effort (put_req (absolute q (KeyTermIndex bucket kind shard job_id)) [] (H [])))))"

definition bury_exhausted :: "hash_fn \<Rightarrow> queue \<Rightarrow> u16 \<Rightarrow> id16 \<Rightarrow> tail_state \<Rightarrow> claim option op" where
  "bury_exhausted H q shard job_id t =
     (let dead = RecordDead \<lparr>dead_job_id = job_id, dead_generation = t_gen t,
            dead_attempt = t_attempt t, dead_reason = 4\<rparr>
      in and_then spend (\<lambda>_.
         and_then (put_record H q (KeyDead shard job_id) dead) (\<lambda>v.
         and_then (if v = WroteOurs then write_termidx H q Dead shard job_id else ret ()) (\<lambda>_.
           ret None))))"

definition payload_ref_of :: "queue \<Rightarrow> job_record \<Rightarrow> payload_ref op" where
  "payload_ref_of q job = (case (job_payload_inline job, job_payload_key job) of
     (Some b, _) \<Rightarrow> ret (Inline b)
   | (None, Some k) \<Rightarrow> ret (Detached (q_root q @ k) (job_payload_digest job) (job_payload_length job))
   | (None, None) \<Rightarrow> fail (ERecord ''job payload reference invalid''))"

definition takeover_record ::
  "queue \<Rightarrow> id16 \<Rightarrow> claim_options \<Rightarrow> tail_state \<Rightarrow> id16 \<Rightarrow> claim_record" where
  "takeover_record q job_id opts t token =
     \<lparr>claim_job_id = job_id, claim_generation = t_gen t + 1, claim_attempt = t_attempt t + 1,
      claim_worker_id = oo_worker_id (q_opts q), claim_worker_token = token,
      claim_lease_duration_ns = co_lease_duration_ns opts, claim_continuation = False,
      claim_basis_of = Some \<lparr>basis_prev_store_time_ns = meta_store_time_ns (t_meta t),
        basis_prev_duration_ns = t_duration t, basis_observed_watermark_ns = co_floor_ns opts\<rparr>,
      claim_prev_token = None\<rparr>"

text \<open>After the claim object is ours: its store time, the hint, the lease index, the handle.\<close>

definition finish_claim_round :: "hash_fn \<Rightarrow> queue \<Rightarrow> u16 \<Rightarrow> id16 \<Rightarrow> claim_options \<Rightarrow> hint_state
    \<Rightarrow> tail_state \<Rightarrow> job_record \<Rightarrow> id16 \<Rightarrow> claim option op" where
  "finish_claim_round H q shard job_id opts hint t job token =
     (let gen = t_gen t + 1; rel = KeyClaim shard job_id (ucast gen)
      in and_then spend (\<lambda>_.
         and_then (head_req (absolute q rel)) (\<lambda>r.
         and_then (of_store r) (\<lambda>m.
         and_then (payload_ref_of q job) (\<lambda>payload.
         and_then (write_tail_hint H q shard job_id gen hint) (\<lambda>_.
         and_then
           (case bucket_number (saturating_add (meta_store_time_ns m) (co_lease_duration_ns opts))
                   (fmt_lease_bucket_width_ns (q_format q)) of
              None \<Rightarrow> ret ()
            | Some bucket \<Rightarrow>
                and_then spend (\<lambda>_.
                and_then (put_req (absolute q (KeyLeaseIndex bucket shard job_id (ucast gen))) [] (H []))
                  (\<lambda>_. ret ())))
           (\<lambda>_. ret (Some
             \<lparr>cl_job_id = job_id, cl_shard = shard, cl_generation = gen, cl_attempt = t_attempt t + 1,
              cl_worker_token = token, cl_lease_duration_ns = co_lease_duration_ns opts,
              cl_claim_store_time_ns = meta_store_time_ns m, cl_payload = payload\<rparr>))))))))"

definition write_claim :: "hash_fn \<Rightarrow> queue \<Rightarrow> u16 \<Rightarrow> id16 \<Rightarrow> claim_options \<Rightarrow> hint_state
    \<Rightarrow> bool \<Rightarrow> tail_state \<Rightarrow> job_record \<Rightarrow> (tail_state \<Rightarrow> claim option op) \<Rightarrow> claim option op" where
  "write_claim H q shard job_id opts hint hint_used t job again =
     (if t_gen t \<ge> u32_max then fail (EInternal ''generation space exhausted'')
      else and_then fresh_token (\<lambda>token.
           and_then spend (\<lambda>_.
           and_then (put_record H q (KeyClaim shard job_id (ucast (t_gen t + 1)))
               (RecordClaim (takeover_record q job_id opts t token))) (\<lambda>v.
             if v = WroteOurs then finish_claim_round H q shard job_id opts hint t job token
             else if hint_used then and_then (rediscover H q shard job_id) again
             else ret None))))"

text \<open>With the job record in hand: its delay, its attempt limit, then the claim.\<close>

definition claim_with_job :: "hash_fn \<Rightarrow> queue \<Rightarrow> u16 \<Rightarrow> id16 \<Rightarrow> claim_options \<Rightarrow> hint_state
    \<Rightarrow> bool \<Rightarrow> tail_state \<Rightarrow> job_record \<Rightarrow> (tail_state \<Rightarrow> claim option op) \<Rightarrow> claim option op" where
  "claim_with_job H q shard job_id opts hint hint_used t job again =
     (if (case job_not_before_ns job of Some nb \<Rightarrow> co_floor_ns opts < nb | None \<Rightarrow> False) then ret None
      else if t_attempt t + 1 > job_maximum_attempts job then
        if hint_used then and_then (rediscover H q shard job_id) again
        else bury_exhausted H q shard job_id t
      else write_claim H q shard job_id opts hint hint_used t job again)"

definition claim_round :: "hash_fn \<Rightarrow> queue \<Rightarrow> u16 \<Rightarrow> id16 \<Rightarrow> claim_options \<Rightarrow> hint_state
    \<Rightarrow> bool \<Rightarrow> tail_state \<Rightarrow> (tail_state \<Rightarrow> claim option op) \<Rightarrow> claim option op" where
  "claim_round H q shard job_id opts hint hint_used t again =
     and_then (backed_off H q shard job_id (t_gen t) (co_floor_ns opts)) (\<lambda>blocked.
       if blocked then ret None
       else if \<not> lease_expired q (co_floor_ns opts) t then ret None
       else and_then (read_job H q shard job_id) (\<lambda>found. case found of
         None \<Rightarrow> ret None
       | Some job \<Rightarrow> claim_with_job H q shard job_id opts hint hint_used t job again))"

text \<open>The loop: it repeats only when a hint was used, and the repetition uses none.\<close>

primrec claim_loop :: "hash_fn \<Rightarrow> queue \<Rightarrow> u16 \<Rightarrow> id16 \<Rightarrow> claim_options \<Rightarrow> hint_state
    \<Rightarrow> nat \<Rightarrow> bool \<Rightarrow> tail_state \<Rightarrow> claim option op" where
  "claim_loop H q shard job_id opts hint 0 hint_used t = fail OutOfFuel"
| "claim_loop H q shard job_id opts hint (Suc n) hint_used t =
     claim_round H q shard job_id opts hint hint_used t
       (claim_loop H q shard job_id opts hint n False)"

definition try_claim :: "hash_fn \<Rightarrow> queue \<Rightarrow> id16 \<Rightarrow> u16 \<Rightarrow> string \<Rightarrow> claim_options \<Rightarrow> claim option op" where
  "try_claim H q job_id shard jobs_version opts =
     and_then spend (\<lambda>_. and_then spend (\<lambda>_. and_then spend (\<lambda>_.
     and_then (head_req (absolute q (KeyReceipt shard job_id))) (\<lambda>receipt.
     and_then (head_req (absolute q (KeyDead shard job_id))) (\<lambda>dead.
     attempt (gather_tail H q shard job_id) (\<lambda>tail.
       if receipt = Inl NotFound \<and> dead = Inl NotFound then
         and_then (of_result tail) (\<lambda>(tail, hint, hint_rec).
           let (g, m) = (case tail of Some x \<Rightarrow> x | None \<Rightarrow> (0, no_meta))
           in and_then
                (if g = 0 then ret (0, 0)
                 else case hint_rec of
                   Some c \<Rightarrow> ret (claim_attempt c, claim_lease_duration_ns c)
                 | None \<Rightarrow> tail_record H q shard job_id g)
                (\<lambda>(a, d). claim_loop H q shard job_id opts hint 2 (hint_rec \<noteq> None)
                   \<lparr>t_gen = g, t_meta = m, t_attempt = a, t_duration = d\<rparr>))
       else if is_ok receipt \<or> is_ok dead then
         and_then (memoize_terminal shard job_id jobs_version) (\<lambda>_. ret None)
       else case (receipt, dead) of
         (Inl e, Inl e') \<Rightarrow> fail (EStore (if e = NotFound then e' else e))
       | _ \<Rightarrow> ret None))))))"

section \<open>The scan\<close>

record candidate =
  cand_job_id :: id16
  cand_shard :: u16
  cand_version :: string

definition job_of_key :: "queue \<Rightarrow> string \<Rightarrow> (u16 \<times> id16) option" where
  "job_of_key q k = (case strip_prefix (q_root q) k of
     None \<Rightarrow> None
   | Some s \<Rightarrow> (case parse_key s of Inr (KeyJob shard job_id) \<Rightarrow> Some (shard, job_id) | _ \<Rightarrow> None))"

primrec gather_candidates :: "queue \<Rightarrow> listing list \<Rightarrow> candidate list op" where
  "gather_candidates q [] = ret []"
| "gather_candidates q (item # items) =
     (case job_of_key q (item_key item) of
        None \<Rightarrow> gather_candidates q items
      | Some (shard, job_id) \<Rightarrow>
          and_then (is_memoized_terminal shard job_id (meta_version (item_meta item))) (\<lambda>known.
          and_then (gather_candidates q items) (\<lambda>rest.
            ret (if known then rest
                 else \<lparr>cand_job_id = job_id, cand_shard = shard,
                       cand_version = meta_version (item_meta item)\<rparr> # rest))))"

text \<open>A call with its own slice of the budget; the result and what is left of the slice are values.\<close>

definition with_budget :: "nat \<Rightarrow> 'a op \<Rightarrow> ((queue_error + 'a) \<times> nat) op" where
  "with_budget b m = (\<lambda>h. bind_prog (m (h\<lparr>max_ops := b\<rparr>))
     (\<lambda>(r, h'). Done (Inr (r, max_ops h'), h'\<lparr>max_ops := max_ops h\<rparr>)))"

primrec run_children :: "('c \<Rightarrow> 'a op) \<Rightarrow> ('c \<times> nat) list \<Rightarrow> ((queue_error + 'a) \<times> nat) list op" where
  "run_children f [] = ret []"
| "run_children f (x # xs) =
     and_then (with_budget (snd x) (f (fst x))) (\<lambda>y.
     and_then (run_children f xs) (\<lambda>ys. ret (y # ys)))"

text \<open>One wave: split the budget, run the probes, refund what they left.\<close>

definition run_wave :: "('c \<Rightarrow> 'a op) \<Rightarrow> 'c list \<Rightarrow> (queue_error + 'a) list op" where
  "run_wave f wave =
     and_then get_handle (\<lambda>h.
       let (children, rest) = split_budget (max_ops h) (length wave)
       in and_then (upd_handle (\<lambda>h. h\<lparr>max_ops := rest\<rparr>)) (\<lambda>_.
          and_then (run_children f (zip wave children)) (\<lambda>results.
          and_then (upd_handle (\<lambda>h. h\<lparr>max_ops := merge_budget (max_ops h) (map snd results)\<rparr>)) (\<lambda>_.
            ret (map fst results)))))"

record wave_result =
  wr_claims :: "claim list"
  wr_first_err :: "queue_error option"
  wr_any_exhausted :: bool

fun collect_result :: "wave_result \<Rightarrow> queue_error + claim option \<Rightarrow> wave_result" where
  "collect_result w (Inr (Some c)) = w\<lparr>wr_claims := wr_claims w @ [c]\<rparr>"
| "collect_result w (Inr None) = w"
| "collect_result w (Inl e) =
     (if e = BudgetExhausted then w\<lparr>wr_any_exhausted := True\<rparr>
      else if wr_first_err w = None then w\<lparr>wr_first_err := Some e\<rparr> else w)"

definition collect_results :: "claim list \<Rightarrow> (queue_error + claim option) list \<Rightarrow> wave_result" where
  "collect_results claims results =
     foldl collect_result \<lparr>wr_claims = claims, wr_first_err = None, wr_any_exhausted = False\<rparr> results"

text \<open>A batch that ends early is a partial one; an error surfaces only when nothing was claimed.\<close>

definition partial_batch :: "claim list \<Rightarrow> queue_error \<Rightarrow> queue_error + claim list" where
  "partial_batch claims e = (if claims = [] then Inl e else Inr claims)"

datatype scan_step = Finish "queue_error + claim list" | More "claim list"

function claim_waves :: "hash_fn \<Rightarrow> queue \<Rightarrow> claim_options \<Rightarrow> nat \<Rightarrow> candidate list \<Rightarrow> claim list
    \<Rightarrow> scan_step op" where
  "claim_waves H q opts limit pending claims =
     (if pending = [] \<or> limit \<le> length claims then ret (More claims)
      else let n = min (length pending) (limit - length claims)
           in and_then (run_wave (\<lambda>c. try_claim H q (cand_job_id c) (cand_shard c) (cand_version c) opts)
                (take n pending)) (\<lambda>results.
              let w = collect_results claims results; claims' = wr_claims w
              in if limit \<le> length claims' then ret (Finish (Inr claims'))
                 else case wr_first_err w of
                   Some e \<Rightarrow> ret (Finish (partial_batch claims' e))
                 | None \<Rightarrow>
                     if wr_any_exhausted w then ret (Finish (partial_batch claims' BudgetExhausted))
                     else and_then get_handle (\<lambda>h.
                       if max_ops h = 0 then ret (Finish (Inr claims'))
                       else claim_waves H q opts limit (drop n pending) claims')))"
  by pat_completeness auto
termination
  by (relation "measure (\<lambda>(H, q, opts, limit, pending, claims). length pending)") auto

declare claim_waves.simps [simp del]

primrec scan_loop :: "hash_fn \<Rightarrow> queue \<Rightarrow> claim_options \<Rightarrow> nat \<Rightarrow> nat \<Rightarrow> string option \<Rightarrow> bool
    \<Rightarrow> candidate list \<Rightarrow> claim list \<Rightarrow> claim list op" where
  "scan_loop H q opts limit 0 after scan_done pending claims = fail OutOfFuel"
| "scan_loop H q opts limit (Suc fuel) after scan_done pending claims =
     and_then (claim_waves H q opts limit pending claims) (\<lambda>step. case step of
       Finish r \<Rightarrow> of_result r
     | More claims \<Rightarrow>
         if scan_done \<or> limit \<le> length claims then ret claims
         else attempt spend (\<lambda>s. case s of
           Inl e \<Rightarrow> of_result (partial_batch claims e)
         | Inr _ \<Rightarrow>
             and_then (list_req (q_root q @ jobs_prefix (co_shard opts)) after 1024) (\<lambda>r. case r of
               Inl e \<Rightarrow> of_result (partial_batch claims (EStore e))
             | Inr page \<Rightarrow>
                 if page_items page = [] then ret claims
                 else and_then (gather_candidates q (page_items page)) (\<lambda>pending.
                   case page_next_after page of
                     Some k \<Rightarrow> scan_loop H q opts limit fuel (Some k) False pending claims
                   | None \<Rightarrow> scan_loop H q opts limit fuel after True pending claims))))"

definition claim_many :: "hash_fn \<Rightarrow> queue \<Rightarrow> claim_options \<Rightarrow> nat \<Rightarrow> claim list op" where
  "claim_many H q opts limit =
     fueled (\<lambda>fuel. scan_loop H q opts limit fuel None False [] [])"

definition claim_one :: "hash_fn \<Rightarrow> queue \<Rightarrow> claim_options \<Rightarrow> claim option op" where
  "claim_one H q opts =
     and_then (claim_many H q opts 1) (\<lambda>claims. ret (if claims = [] then None else Some (last claims)))"

end
