(* ===== verification/Index_Scan.thy ===== *)
theory Index_Scan
  imports Queue_Claim
begin

text \<open>
  The page loop that sweeps, retention and repair share, and the parsers of index entries
  (\<open>stowq-core\<close>, \<open>parse_lease_entry\<close>, \<open>parse_delay_entry\<close>, \<open>parse_term_entry\<close>). The parsers follow
  the source down to \<open>from_str_radix\<close>, which takes upper case digits and a leading plus sign, and
  to slicing, which panics inside a multi-byte character.
\<close>

section \<open>The page loop\<close>

primrec each_item :: "(listing \<Rightarrow> 'r \<Rightarrow> 'r op) \<Rightarrow> listing list \<Rightarrow> 'r \<Rightarrow> 'r op" where
  "each_item f [] r = ret r"
| "each_item f (it # its) r = and_then (f it r) (each_item f its)"

primrec each_page :: "(listing \<Rightarrow> 'r \<Rightarrow> 'r op) \<Rightarrow> string \<Rightarrow> nat \<Rightarrow> string option \<Rightarrow> 'r \<Rightarrow> 'r op" where
  "each_page f p 0 after r = fail OutOfFuel"
| "each_page f p (Suc fuel) after r =
     and_then spend (\<lambda>_.
     and_then (list_req p after 64) (\<lambda>x.
     and_then (of_store x) (\<lambda>page.
       if page_items page = [] then ret r
       else and_then (each_item f (page_items page) r) (\<lambda>r. case page_next_after page of
              Some k \<Rightarrow> each_page f p fuel (Some k) r
            | None \<Rightarrow> ret r))))"

definition scan_prefix :: "(listing \<Rightarrow> 'r \<Rightarrow> 'r op) \<Rightarrow> string \<Rightarrow> 'r \<Rightarrow> 'r op" where
  "scan_prefix f p r = fueled (\<lambda>fuel. each_page f p fuel None r)"

section \<open>Index entries\<close>

text \<open>\<open>from_str_radix(_, 16)\<close> of an unsigned type.\<close>

definition from_str_radix :: "string \<Rightarrow> 'a::len word option" where
  "from_str_radix s =
     (let digits = (case s of c # t \<Rightarrow> if c = CHR ''+'' \<and> t \<noteq> [] then t else s | [] \<Rightarrow> s)
      in if digits = [] \<or> \<not> list_all (\<lambda>c. hex_digit_value c \<noteq> None) digits then None
         else if from_hex_radix digits < 2 ^ LENGTH('a) then Some (of_nat (from_hex_radix digits)) else None)"

text \<open>\<open>str::is_char_boundary\<close>, on the bytes of the text.\<close>

definition char_boundary :: "string \<Rightarrow> nat \<Rightarrow> bool" where
  "char_boundary s i \<longleftrightarrow> i = 0 \<or> i = length s \<or> i < length s \<and> \<not> utf8_cont (as_bytes s ! i)"

text \<open>The loop that fills a job id from pairs of digits: \<open>Inl Panic\<close> when a slice is not at
  character boundaries, \<open>None\<close> at the first pair that is not a number.\<close>

fun hex_pairs :: "nat list \<Rightarrow> string \<Rightarrow> queue_error + bytes option" where
  "hex_pairs [] s = Inr (Some [])"
| "hex_pairs (i # is) s =
     (if \<not> char_boundary s (2 * i) \<or> \<not> char_boundary s (2 * i + 2) then Inl Panic
      else case (from_str_radix (take 2 (drop (2 * i) s)) :: byte option) of
        None \<Rightarrow> Inr None
      | Some b \<Rightarrow> sum_bind (hex_pairs is s) (\<lambda>bs. Inr (map_option (\<lambda>bs. b # bs) bs)))"

definition parse_job_hex :: "string \<Rightarrow> queue_error + id16 option" where
  "parse_job_hex s = sum_bind (hex_pairs [0..<16] s) (\<lambda>bs. Inr (map_option from_be_bytes bs))"

definition rsplit_once :: "char \<Rightarrow> string \<Rightarrow> (string \<times> string) option" where
  "rsplit_once c s = map_option (\<lambda>(a, b). (rev b, rev a)) (split_once c (rev s))"

definition parse_lease_entry :: "string \<Rightarrow> queue_error + (u16 \<times> id16 \<times> u32) option" where
  "parse_lease_entry rest = (case split_once (CHR ''/'') rest of
     None \<Rightarrow> Inr None
   | Some (shard_str, tail) \<Rightarrow> (case rsplit_once (CHR ''.'') tail of
       None \<Rightarrow> Inr None
     | Some (job_str, gen_str) \<Rightarrow> (case from_str_radix shard_str of
         None \<Rightarrow> Inr None
       | Some shard \<Rightarrow>
           if length shard_str \<noteq> 4 \<or> length job_str \<noteq> 32 \<or> length gen_str \<noteq> 8 then Inr None
           else sum_bind (parse_job_hex job_str) (\<lambda>job. Inr (case job of
             None \<Rightarrow> None
           | Some job_id \<Rightarrow> map_option (\<lambda>gen. (shard, job_id, gen)) (from_str_radix gen_str))))))"

definition parse_delay_entry :: "string \<Rightarrow> queue_error + (u16 \<times> id16) option" where
  "parse_delay_entry rest = (case split_once (CHR ''/'') rest of
     None \<Rightarrow> Inr None
   | Some (shard_str, job_str) \<Rightarrow>
       if length shard_str \<noteq> 4 \<or> length job_str \<noteq> 32 then Inr None
       else case from_str_radix shard_str of
         None \<Rightarrow> Inr None
       | Some shard \<Rightarrow>
           sum_bind (parse_job_hex job_str) (\<lambda>job. Inr (map_option (\<lambda>job_id. (shard, job_id)) job)))"

text \<open>The four parts of \<open>splitn(4, '/')\<close>, if there are four.\<close>

definition four_parts :: "string \<Rightarrow> (string \<times> string \<times> string \<times> string) option" where
  "four_parts s = (case split_once (CHR ''/'') s of
     None \<Rightarrow> None
   | Some (a, s) \<Rightarrow> (case split_once (CHR ''/'') s of
       None \<Rightarrow> None
     | Some (b, s) \<Rightarrow> map_option (\<lambda>(c, d). (a, b, c, d)) (split_once (CHR ''/'') s)))"

definition parse_term_entry :: "string \<Rightarrow> queue_error + (char \<times> u16 \<times> id16) option" where
  "parse_term_entry rel_str = (case strip_prefix ''termidx/'' rel_str of
     None \<Rightarrow> Inr None
   | Some rest \<Rightarrow> (case four_parts rest of
       None \<Rightarrow> Inr None
     | Some (bucket, kind, shard_str, job_str) \<Rightarrow>
         if kind = [] then Inr None
         else if length shard_str \<noteq> 4 \<or> length job_str \<noteq> 32 \<or> hd kind \<notin> {CHR ''r'', CHR ''d''} then Inr None
         else case from_str_radix shard_str of
           None \<Rightarrow> Inr None
         | Some shard \<Rightarrow>
             sum_bind (parse_job_hex job_str) (\<lambda>job. Inr (map_option (\<lambda>job_id. (hd kind, shard, job_id)) job))))"

text \<open>The bucket of an index key and what follows it.\<close>

definition index_entry :: "queue \<Rightarrow> string \<Rightarrow> string \<Rightarrow> u64 option \<times> string" where
  "index_entry q plane k =
     (let rel_str = (case strip_prefix (q_root q) k of Some s \<Rightarrow> s | None \<Rightarrow> []);
          entry = (case strip_prefix plane rel_str of Some s \<Rightarrow> s | None \<Rightarrow> [])
      in case split_once (CHR ''/'') entry of
           Some (bucket_str, rest) \<Rightarrow> (from_str_radix bucket_str, rest)
         | None \<Rightarrow> (from_str_radix entry, []))"

section \<open>Lemmas: the page loop\<close>

lemma emits_each_item:
  "(\<And>it r. it \<in> set its \<Longrightarrow> emits_op_when A G (f it r)) \<Longrightarrow> emits_op_when A G (each_item f its r)"
  by (induction its arbitrary: r) (auto intro!: emits_rules)

lemma emits_scan_prefix:
  assumes "\<And>it r. prefix p (item_key it) \<Longrightarrow> emits_op_when A G (f it r)" "\<And>a. G (ReqList p a 64)"
  shows "emits_op_when A G (scan_prefix f p r)"
proof -
  have "emits_op_when A G (each_page f p n a r)" for n a r
  proof (induction n arbitrary: a r)
    case (Suc n)
    have "emits_op_when A G (and_then (of_store x) (\<lambda>page. if page_items page = [] then ret r
        else and_then (each_item f (page_items page) r) (\<lambda>r. case page_next_after page of
          Some k \<Rightarrow> each_page f p n (Some k) r | None \<Rightarrow> ret r)))" if "page_under p x" for x r
      using that assms(1)
      by (cases x) (auto simp: page_under_def intro!: emits_rules emits_each_item Suc split: option.splits)
    then show ?case
      unfolding each_page.simps
      by (intro emits_op_then [OF emits_op_handle(5)] emits_op_list assms(2))
  qed (simp add: emits_op_fail)
  then show ?thesis
    unfolding scan_prefix_def by (rule emits_fueled)
qed

lemma within_each_item: "(\<And>it r. within 0 (f it r)) \<Longrightarrow> within 0 (each_item f its r)"
  by (induction its arbitrary: r) (auto intro!: within_rules costs_rules)

lemma within_scan_prefix:
  assumes "\<And>it r. within 0 (f it r)"
  shows "within c (scan_prefix f p r)"
proof -
  have "within 0 (each_page f p n a r)" for n a r
    by (induction n arbitrary: a r)
      (auto intro!: within_rules within_each_item costs_rules assms split: option.splits)
  then show ?thesis
    unfolding scan_prefix_def by (rule within_fueled)
qed

lemma ends_each_item: "(\<And>it r. ends n (f it r)) \<Longrightarrow> ends n (each_item f its r)"
  by (induction its arbitrary: r) (auto intro!: ends_rules)

lemma ends_scan_prefix:
  assumes "\<And>n it r. ends n (f it r)"
  shows "ends n (scan_prefix f p r)"
proof -
  have "ends k (each_page f p k a r)" for k a r
    by (induction k arbitrary: a r) (auto intro!: ends_rules ends_each_item assms split: option.splits)
  then show ?thesis
    unfolding scan_prefix_def by (rule ends_fueled)
qed

section \<open>Lemmas: the parsers\<close>

lemma hex_pairs_fuel [simp]: "hex_pairs is s \<noteq> Inl OutOfFuel"
  by (induction "is") (auto simp: sum_bind_def split: option.splits sum.splits)

lemma parse_job_hex_fuel [simp]: "parse_job_hex s \<noteq> Inl OutOfFuel"
  by (auto simp: parse_job_hex_def sum_bind_def split: sum.splits)

lemma parse_entry_fuel [simp]:
  "parse_lease_entry s \<noteq> Inl OutOfFuel" "parse_delay_entry s \<noteq> Inl OutOfFuel" "parse_term_entry s \<noteq> Inl OutOfFuel"
  by (auto simp: parse_lease_entry_def parse_delay_entry_def parse_term_entry_def sum_bind_def
    split: option.splits sum.splits)

end
