(* ===== verification/Claim_Bounds.thy ===== *)
theory Claim_Bounds
  imports Queue_Claim
begin

text \<open>
  Requests, budget and termination of the claim path: nothing it sends can change a protected
  key, a scan with budget \<open>b\<close> makes at most \<open>b\<close> store calls although it hands slices of its
  budget to concurrent probes, and all its loops end.
\<close>

section \<open>Requests\<close>

lemma emits_best_effort [emits_rules]: "emits_op G m \<Longrightarrow> emits_op G (best_effort m)"
  unfolding best_effort_def by (auto intro!: emits_rules split: sum.splits)

lemma emits_list_tail [emits_rules]: "emits_op (harmless p) (list_tail d)"
proof -
  have "emits_op (harmless p) (list_tail_loop d n a t)" for n a t
    by (induction n arbitrary: a t) (auto simp: Let_def intro!: emits_rules split: option.splits)
  then show ?thesis
    unfolding list_tail_def by (intro emits_rules)
qed

lemma emits_tail_record [emits_rules]: "emits_op (harmless p) (tail_record H q s j g)"
  unfolding tail_record_def by (auto simp: Let_def intro!: emits_rules split: stow_record.splits)

lemma emits_rediscover [emits_rules]: "emits_op (harmless p) (rediscover H q s j)"
  unfolding rediscover_def by (auto simp: Let_def intro!: emits_rules split: prod.splits option.splits)

lemma emits_write_tail_hint [emits_rules]:
  "emits_op (harmless (protected q)) (write_tail_hint H q s j g k)"
  unfolding write_tail_hint_def by (auto simp: Let_def intro!: emits_rules split: option.splits)

lemma emits_read_tail_hint [emits_rules]: "emits_op (harmless p) (read_tail_hint q s j)"
  unfolding read_tail_hint_def by (auto simp: Let_def intro!: emits_rules split: sum.splits)

lemma emits_update_tail_hint [emits_rules]:
  "emits_op (harmless (protected q)) (update_tail_hint H q s j g)"
  unfolding update_tail_hint_def by (auto intro!: emits_rules split: sum.splits)

lemma emits_gather_tail [emits_rules]: "emits_op (harmless p) (gather_tail H q s j)"
  unfolding gather_tail_def
  by (auto simp: Let_def intro!: emits_rules split: option.splits sum.splits stow_record.splits)

lemma emits_backed_off [emits_rules]: "emits_op (harmless p) (backed_off H q s j g f)"
  unfolding backed_off_def
  by (auto simp: Let_def intro!: emits_rules split: sum.splits stow_record.splits)

lemma emits_read_job [emits_rules]: "emits_op (harmless p) (read_job H q s j)"
  unfolding read_job_def by (auto simp: Let_def intro!: emits_rules split: sum.splits stow_record.splits)

lemma emits_write_termidx [emits_rules]: "emits_op (harmless p) (write_termidx H q k s j)"
  unfolding write_termidx_def by (auto intro!: emits_rules split: sum.splits option.splits)

lemma emits_bury_exhausted [emits_rules]: "emits_op (harmless p) (bury_exhausted H q s j t)"
  unfolding bury_exhausted_def by (auto simp: Let_def intro!: emits_rules)

lemma emits_payload_ref_of [emits_rules]: "emits_op G (payload_ref_of q job)"
  unfolding payload_ref_of_def by (auto intro!: emits_rules split: option.splits)

lemma emits_finish_claim_round [emits_rules]:
  "emits_op (harmless (protected q)) (finish_claim_round H q s j opts hint t job tok)"
  unfolding finish_claim_round_def by (auto simp: Let_def intro!: emits_rules split: option.splits)

lemma emits_claim_round:
  assumes "\<And>t. emits_op (harmless (protected q)) (again t)"
  shows "emits_op (harmless (protected q)) (claim_round H q s j opts hint u t again)"
  unfolding claim_round_def claim_with_job_def write_claim_def
  using assms by (auto intro!: emits_rules split: option.splits)

lemma emits_claim_loop [emits_rules]:
  "emits_op (harmless (protected q)) (claim_loop H q s j opts hint n u t)"
  by (induction n arbitrary: u t) (auto intro: emits_claim_round emits_rules)

lemma emits_try_claim [emits_rules]: "emits_op (harmless (protected q)) (try_claim H q j s v opts)"
  unfolding try_claim_def
  by (auto simp: Let_def simp del: claim_loop.simps intro!: emits_rules split: sum.splits prod.splits option.splits)

lemma emits_gather_candidates [emits_rules]: "emits_op G (gather_candidates q items)"
  by (induction items) (auto intro!: emits_rules split: option.splits)

lemma emits_with_budget [emits_rules]: "emits_op G m \<Longrightarrow> emits_op G (with_budget b m)"
  by (auto simp: emits_op_when_def with_budget_def intro!: emits_bind)

lemma emits_run_wave [emits_rules]:
  assumes "\<And>c. emits_op G (f c)"
  shows "emits_op G (run_wave f wave)"
proof -
  have "emits_op G (run_children f xs)" for xs
    by (induction xs) (auto intro!: emits_rules assms)
  then show ?thesis
    unfolding run_wave_def by (auto simp: Let_def intro!: emits_rules split: prod.splits)
qed

lemma emits_claim_waves [emits_rules]:
  "emits_op (harmless (protected q)) (claim_waves H q opts limit pending claims)"
  by (induction H q opts limit pending claims rule: claim_waves.induct)
    (subst claim_waves.simps, auto simp: Let_def intro!: emits_rules split: option.splits)

lemma emits_claim_many [emits_rules]: "emits_op (harmless (protected q)) (claim_many H q opts limit)"
proof -
  have "emits_op (harmless (protected q)) (scan_loop H q opts limit n a d p c)" for n a d p c
    by (induction n arbitrary: a d p c)
      (auto intro!: emits_rules split: scan_step.splits sum.splits option.splits)
  then show ?thesis
    unfolding claim_many_def by (intro emits_rules)
qed

lemma emits_claim_one [emits_rules]: "emits_op (harmless (protected q)) (claim_one H q opts)"
  unfolding claim_one_def by (intro emits_rules)

section \<open>Budget\<close>

lemma within_best_effort [costs_rules]:
  assumes "\<And>c. within (Suc c) m"
  shows "within c (best_effort m)"
  unfolding best_effort_def
  by (rule within_attempt_spend)
    (auto intro: costs_rules within_attempt [OF assms])

lemma within_put_only [costs_rules]: "within (Suc c) (put_req k b d)" "within (Suc c) (cas_req k b d v)"
  by (auto simp: within_def op_defs paid_def)

lemma within_list_tail [costs_rules]: "within c (list_tail d)"
proof -
  have "within 0 (list_tail_loop d n a t)" for n a t
    by (induction n arbitrary: a t)
      (auto simp: Let_def intro!: within_rules costs_rules split: option.splits)
  then show ?thesis
    unfolding list_tail_def by (rule within_fueled)
qed

lemma within_tail_record [costs_rules]: "within c (tail_record H q s j g)"
  unfolding tail_record_def
  by (auto simp: Let_def intro!: within_rules costs_rules within_decode_then split: stow_record.splits)

lemma within_rediscover [costs_rules]: "within c (rediscover H q s j)"
  unfolding rediscover_def
  by (auto simp: Let_def intro!: within_rules costs_rules split: prod.splits option.splits)

lemma within_write_tail_hint [costs_rules]: "within c (write_tail_hint H q s j g k)"
  unfolding write_tail_hint_def by (auto simp: Let_def intro!: costs_rules split: option.splits)

lemma within_read_tail_hint [costs_rules]: "within c (read_tail_hint q s j)"
  unfolding read_tail_hint_def
  by (auto simp: Let_def intro!: within_rules costs_rules split: sum.splits)

lemma within_update_tail_hint [costs_rules]: "within c (update_tail_hint H q s j g)"
  unfolding update_tail_hint_def by (auto intro!: within_rules costs_rules split: sum.splits)

lemma within_gather_tail [costs_rules]: "within c (gather_tail H q s j)"
  unfolding gather_tail_def
  by (auto simp: Let_def intro!: within_rules costs_rules
    split: option.splits sum.splits stow_record.splits)

lemma within_backed_off [costs_rules]: "within c (backed_off H q s j g f)"
  unfolding backed_off_def
  by (auto simp: Let_def intro!: within_rules costs_rules within_decode_then
    split: sum.splits stow_record.splits)

lemma within_read_job [costs_rules]: "within c (read_job H q s j)"
  unfolding read_job_def
  by (auto simp: Let_def intro!: within_rules costs_rules within_decode_then
    split: sum.splits stow_record.splits)

lemma within_write_termidx [costs_rules]: "within c (write_termidx H q k s j)"
  unfolding write_termidx_def
  by (rule within_attempt_spend)
    (auto intro!: within_attempt costs_rules split: sum.splits option.splits)

lemma within_bury_exhausted [costs_rules]: "within c (bury_exhausted H q s j t)"
  unfolding bury_exhausted_def by (auto simp: Let_def intro!: within_rules costs_rules)

lemma within_payload_ref_of [costs_rules]: "within c (payload_ref_of q job)"
  unfolding payload_ref_of_def by (auto intro: costs_rules split: option.splits)

lemma within_finish_claim_round [costs_rules]:
  "within c (finish_claim_round H q s j opts hint t job tok)"
  unfolding finish_claim_round_def
  by (auto simp: Let_def intro!: within_rules costs_rules split: option.splits)

lemma within_claim_round:
  assumes "\<And>t. within 0 (again t)"
  shows "within c (claim_round H q s j opts hint u t again)"
  unfolding claim_round_def claim_with_job_def write_claim_def
  using assms by (auto intro!: within_rules costs_rules split: option.splits)

lemma within_claim_loop [costs_rules]: "within c (claim_loop H q s j opts hint n u t)"
  by (induction n arbitrary: c u t) (auto intro: within_claim_round costs_rules)

lemma within_try_claim [costs_rules]: "within c (try_claim H q j s v opts)"
  unfolding try_claim_def
  by (auto simp: Let_def simp del: claim_loop.simps intro!: within_rules costs_rules
    split: sum.splits prod.splits option.splits)

lemma within_gather_candidates [costs_rules]: "within c (gather_candidates q items)"
  by (rule within_any, induction items) (auto intro!: within_rules costs_rules split: option.splits)

text \<open>Slices of a budget: what the children leave and the rest never exceed what was there.\<close>

lemma costs_frame: "costs E p n \<Longrightarrow> costs (\<lambda>m x. k \<le> m \<and> E (m - k) x) p (n + k)"
  by (induction p arbitrary: n) (auto simp: gr0_conv_Suc)

definition children_paid :: "nat \<Rightarrow> (queue_error + ((queue_error + 'a) \<times> nat) list) \<times> handle \<Rightarrow> bool" where
  "children_paid n x \<longleftrightarrow>
     max_ops (snd x) + (case fst x of Inr ys \<Rightarrow> sum_list (map snd ys) | Inl _ \<Rightarrow> 0) \<le> n"

lemma costs_with_budget:
  assumes "within 0 m" "max_ops h + b + k \<le> n"
  shows "costs (\<lambda>n' x. max_ops (snd x) = max_ops h \<and> (\<exists>r left. fst x = Inr (r, left) \<and>
    max_ops h + left + k \<le> n')) (with_budget b m h) n"
proof -
  let ?h = "h\<lparr>max_ops := b\<rparr>"
  have "costs paid (m ?h) (n - (max_ops h + k))"
    using assms by (auto simp: within_def)
  from costs_frame [OF this, of "max_ops h + k"] assms(2)
  have "costs (\<lambda>m x. max_ops h + k \<le> m \<and> paid (m - (max_ops h + k)) x) (m ?h) n"
    by simp
  then show ?thesis
    unfolding with_budget_def
    by (rule costs_bindI) (auto simp: paid_def)
qed

lemma costs_run_children:
  assumes "\<And>c. within 0 (f c)"
  shows "max_ops h + sum_list (map snd xs) + k \<le> n \<Longrightarrow>
    costs (\<lambda>n' x. k \<le> n' \<and> children_paid (n' - k) x) (run_children f xs h) n"
proof (induction xs arbitrary: h n k)
  case Nil
  then show ?case
    by (simp add: children_paid_def ret_def)
next
  case (Cons x xs)
  have "costs (\<lambda>n' y. max_ops (snd y) = max_ops h \<and> (\<exists>r left. fst y = Inr (r, left) \<and>
    max_ops h + left + (sum_list (map snd xs) + k) \<le> n')) (with_budget (snd x) (f (fst x)) h) n"
    using Cons.prems by (intro costs_with_budget assms) simp
  then show ?case
    unfolding run_children.simps and_then_def
  proof (rule costs_bindI)
    fix n' and y :: "(queue_error + (queue_error + 'b) \<times> nat) \<times> handle"
    assume "max_ops (snd y) = max_ops h \<and> (\<exists>r left. fst y = Inr (r, left) \<and>
      max_ops h + left + (sum_list (map snd xs) + k) \<le> n')"
    then obtain r left h' where y: "y = (Inr (r, left), h')" "max_ops h' = max_ops h"
        "max_ops h + left + (sum_list (map snd xs) + k) \<le> n'"
      by (cases y) auto
    have "costs (\<lambda>n' x. left + k \<le> n' \<and> children_paid (n' - (left + k)) x) (run_children f xs h') n'"
      using y by (intro Cons.IH) simp
    then show "costs (\<lambda>n' x. k \<le> n' \<and> children_paid (n' - k) x)
       (case y of (r, h') \<Rightarrow> case r of Inl e \<Rightarrow> Done (Inl e, h') | Inr y \<Rightarrow>
         bind_prog (run_children f xs h') (\<lambda>(r, h'). case r of Inl e \<Rightarrow> Done (Inl e, h')
           | Inr ys \<Rightarrow> ret (y # ys) h')) n'"
      unfolding y prod.case sum.case
      by (rule costs_bindI) (auto simp: children_paid_def ret_def split: sum.splits)
  qed
qed

lemma map_snd_zip_split:
  "split_budget b (length wave) = (children, rest) \<Longrightarrow> sum_list (map snd (zip wave children)) + rest = b"
  by (auto simp: split_budget_def sum_list_replicate split: if_splits)

lemma within_run_wave [costs_rules]:
  assumes "\<And>c. within 0 (f c)"
  shows "within c (run_wave f wave)"
  unfolding within_def
proof (intro allI impI)
  fix h :: handle and n
  assume n: "max_ops h + c \<le> n"
  obtain children rest where sp: "split_budget (max_ops h) (length wave) = (children, rest)"
    by fastforce
  have "costs (\<lambda>n' x. 0 \<le> n' \<and> children_paid (n' - 0) x)
      (run_children f (zip wave children) (h\<lparr>max_ops := rest\<rparr>)) n"
    using map_snd_zip_split [OF sp] n by (intro costs_run_children assms) simp
  then show "costs paid (run_wave f wave h) n"
    unfolding run_wave_def and_then_def get_handle_def upd_handle_def ret_def
    by (simp add: sp) (rule costs_bindI, assumption,
      auto simp: children_paid_def paid_def merge_budget_def split: sum.splits)
qed

lemma within_claim_waves [costs_rules]: "within c (claim_waves H q opts limit pending claims)"
proof (rule within_any)
  show "within 0 (claim_waves H q opts limit pending claims)"
    by (induction H q opts limit pending claims rule: claim_waves.induct)
      (subst claim_waves.simps, auto simp: Let_def intro!: within_rules costs_rules split: option.splits)
qed

lemma within_scan_loop: "within 0 (scan_loop H q opts limit n a d p cs)"
proof (induction n arbitrary: a d p cs)
  case (Suc n)
  then show ?case
    by (auto intro!: within_then costs_rules within_attempt_spend within_requests
      split: scan_step.splits sum.splits option.splits)
qed (simp add: within_fail)

lemma within_claim_many [costs_rules]: "within c (claim_many H q opts limit)"
  unfolding claim_many_def by (intro within_fueled within_scan_loop)

lemma within_claim_one [costs_rules]: "within c (claim_one H q opts)"
  unfolding claim_one_def by (intro within_then costs_rules)

section \<open>Termination\<close>

lemma ends_best_effort [simp]: "ends n m \<Longrightarrow> ends n (best_effort m)"
  unfolding best_effort_def by (intro ends_attempt) (auto intro: ends_attempt split: sum.splits)

lemma ends_list_tail [simp]: "ends n (list_tail d)"
proof -
  have "ends k (list_tail_loop d k a t)" for k a t
    by (induction k arbitrary: a t) (auto simp: Let_def intro!: ends_rules split: option.splits)
  then show ?thesis
    unfolding list_tail_def by (rule ends_fueled)
qed

lemma ends_tail_record [simp]: "ends n (tail_record H q s j g)"
  unfolding tail_record_def by (auto simp: Let_def intro!: ends_rules split: stow_record.splits)

lemma ends_rediscover [simp]: "ends n (rediscover H q s j)"
  unfolding rediscover_def by (auto simp: Let_def intro!: ends_rules split: prod.splits option.splits)

lemma ends_write_tail_hint [simp]: "ends n (write_tail_hint H q s j g k)"
  unfolding write_tail_hint_def by (auto simp: Let_def split: option.splits)

lemma ends_read_tail_hint [simp]: "ends n (read_tail_hint q s j)"
  unfolding read_tail_hint_def by (auto simp: Let_def intro!: ends_rules split: sum.splits)

lemma ends_update_tail_hint [simp]: "ends n (update_tail_hint H q s j g)"
  unfolding update_tail_hint_def by (auto intro!: ends_rules split: sum.splits)

lemma ends_gather_tail [simp]: "ends n (gather_tail H q s j)"
  unfolding gather_tail_def
  by (auto simp: Let_def intro!: ends_rules split: option.splits sum.splits stow_record.splits)

lemma ends_backed_off [simp]: "ends n (backed_off H q s j g f)"
  unfolding backed_off_def
  by (auto simp: Let_def intro!: ends_rules split: sum.splits stow_record.splits)

lemma ends_read_job [simp]: "ends n (read_job H q s j)"
  unfolding read_job_def by (auto simp: Let_def intro!: ends_rules split: sum.splits stow_record.splits)

lemma ends_write_termidx [simp]: "ends n (write_termidx H q k s j)"
  unfolding write_termidx_def by (auto intro!: ends_rules split: sum.splits option.splits)

lemma ends_bury_exhausted [simp]: "ends n (bury_exhausted H q s j t)"
  unfolding bury_exhausted_def by (auto simp: Let_def intro!: ends_rules)

lemma ends_payload_ref_of [simp]: "ends n (payload_ref_of q job)"
  unfolding payload_ref_of_def by (auto split: option.splits)

lemma ends_finish_claim_round [simp]: "ends n (finish_claim_round H q s j opts hint t job tok)"
  unfolding finish_claim_round_def by (auto simp: Let_def intro!: ends_rules split: option.splits)

lemma ends_claim_round:
  assumes "u \<Longrightarrow> (\<And>t. ends n (again t))"
  shows "ends n (claim_round H q s j opts hint u t again)"
  unfolding claim_round_def claim_with_job_def write_claim_def
  using assms by (auto intro!: ends_rules split: option.splits)

lemma ends_claim_loop: "ends n (claim_loop H q s j opts hint 2 u t)"
  unfolding numeral_2_eq_2 claim_loop.simps
  by (intro ends_claim_round) simp_all

lemma ends_try_claim [simp]: "ends n (try_claim H q j s v opts)"
  unfolding try_claim_def
  by (auto simp: Let_def simp del: claim_loop.simps intro!: ends_rules ends_claim_loop
    split: sum.splits prod.splits option.splits)

lemma ends_gather_candidates [simp]: "ends n (gather_candidates q items)"
  by (induction items) (auto intro!: ends_rules split: option.splits)

lemma returns_run_children:
  assumes "\<And>c n. ends n (f c)"
  shows "returns (\<lambda>x. max_ops (snd x) = max_ops h \<and> (\<exists>ys. fst x = Inr ys
    \<and> Inl OutOfFuel \<notin> fst ` set ys \<and> sum_list (map snd ys) \<le> sum_list (map snd xs)))
    (run_children f xs h)"
proof (induction xs arbitrary: h)
  case Nil
  then show ?case
    by (simp add: ret_def)
next
  case (Cons x xs)
  have "returns (ended (snd x)) (f (fst x) (h\<lparr>max_ops := snd x\<rparr>))"
    using endsD [OF assms, of "h\<lparr>max_ops := snd x\<rparr>" "Suc (snd x)"] by simp
  then have child: "returns (\<lambda>y. max_ops (snd y) = max_ops h \<and> (\<exists>r left. fst y = Inr (r, left)
      \<and> r \<noteq> Inl OutOfFuel \<and> left \<le> snd x)) (with_budget (snd x) (f (fst x)) h)"
    unfolding with_budget_def by (rule returns_bindI) (auto simp: ended_def)
  show ?case
    unfolding run_children.simps and_then_def
  proof (rule returns_bindI [OF child])
    fix y :: "(queue_error + (queue_error + 'b) \<times> nat) \<times> handle"
    assume "max_ops (snd y) = max_ops h \<and> (\<exists>r left. fst y = Inr (r, left) \<and> r \<noteq> Inl OutOfFuel \<and> left \<le> snd x)"
    then obtain r left h' where y: "y = (Inr (r, left), h')" "max_ops h' = max_ops h"
        "r \<noteq> Inl OutOfFuel" "left \<le> snd x"
      by (cases y) auto
    show "returns (\<lambda>z. max_ops (snd z) = max_ops h \<and> (\<exists>ys. fst z = Inr ys \<and> Inl OutOfFuel \<notin> fst ` set ys
          \<and> sum_list (map snd ys) \<le> sum_list (map snd (x # xs))))
        (case y of (r, h') \<Rightarrow> case r of Inl e \<Rightarrow> Done (Inl e, h') | Inr y \<Rightarrow>
         bind_prog (run_children f xs h') (\<lambda>(r, h'). case r of Inl e \<Rightarrow> Done (Inl e, h')
           | Inr ys \<Rightarrow> ret (y # ys) h'))"
      unfolding y(1) prod.case sum.case
      by (rule returns_bindI [OF Cons.IH]) (use y in \<open>auto simp: ret_def split: sum.splits\<close>)
  qed
qed

lemma returns_run_wave:
  assumes "\<And>c n. ends n (f c)"
  shows "returns (\<lambda>x. max_ops (snd x) \<le> max_ops h \<and> (\<exists>ys. fst x = Inr ys \<and> Inl OutOfFuel \<notin> set ys))
    (run_wave f wave h)"
proof -
  obtain children rest where sp: "split_budget (max_ops h) (length wave) = (children, rest)"
    by fastforce
  show ?thesis
    unfolding run_wave_def and_then_def get_handle_def upd_handle_def ret_def
    by (simp add: sp) (rule returns_bindI [OF returns_run_children [OF assms]],
      use map_snd_zip_split [OF sp] in \<open>auto simp: merge_budget_def split: sum.splits\<close>)
qed

lemma collect_no_fuel:
  "Inl OutOfFuel \<notin> set rs \<Longrightarrow> wr_first_err w \<noteq> Some OutOfFuel \<Longrightarrow>
    wr_first_err (foldl collect_result w rs) \<noteq> Some OutOfFuel"
proof (induction rs arbitrary: w)
  case (Cons r rs)
  then have "wr_first_err (collect_result w r) \<noteq> Some OutOfFuel"
    by (cases "(w, r)" rule: collect_result.cases) auto
  then show ?case
    using Cons by simp
qed simp

text \<open>A step of the scan that is neither out of fuel nor gains budget.\<close>

definition good_step :: "nat \<Rightarrow> (queue_error + scan_step) \<times> handle \<Rightarrow> bool" where
  "good_step b x \<longleftrightarrow> max_ops (snd x) \<le> b \<and> (\<exists>t. fst x = Inr t \<and> t \<noteq> Finish (Inl OutOfFuel))"

lemma returns_claim_waves: "returns (good_step (max_ops h)) (claim_waves H q opts limit pending claims h)"
proof (induction H q opts limit pending claims arbitrary: h rule: claim_waves.induct)
  case (1 H q opts limit pending claims)
  show ?case
  proof (cases "pending = [] \<or> limit \<le> length claims")
    case True
    then show ?thesis
      by (subst claim_waves.simps) (auto simp: ret_def good_step_def)
  next
    case False
    let ?n = "min (length pending) (limit - length claims)"
    have rec: "returns (good_step b) (claim_waves H q opts limit (drop ?n pending) cs h')"
      if "max_ops h' \<le> b" "wr_claims (collect_results claims rs) = cs" "\<not> limit \<le> length cs"
        "wr_first_err (collect_results claims rs) = None" "\<not> wr_any_exhausted (collect_results claims rs)"
        "max_ops h' \<noteq> 0" for h' b cs rs
      using "1.IH" [OF False refl refl that(2) [symmetric] that(3-6), of h']
      by (rule returns_mono) (use that(1) in \<open>auto simp: good_step_def\<close>)
    show ?thesis
      apply (subst claim_waves.simps)
      apply (simp only: False if_False Let_def)
      apply (simp only: and_then_def)
      apply (rule returns_bindI [OF returns_run_wave])
       apply simp
      subgoal for x
        using rec collect_no_fuel
        by (cases x)
          (auto simp: ret_def good_step_def partial_batch_def get_handle_def collect_results_def
            split: option.splits)
      done
  qed
qed

lemma ends_after_waves:
  assumes "\<And>t. t \<noteq> Finish (Inl OutOfFuel) \<Longrightarrow> ends n (f t)"
  shows "ends n (and_then (claim_waves H q opts limit pending claims) f)"
  unfolding ends_def and_then_def
proof (intro allI impI returns_bindI [OF returns_claim_waves])
  fix h :: handle and x :: "(queue_error + scan_step) \<times> handle"
  assume h: "max_ops h < n" and "good_step (max_ops h) x"
  then obtain t h' where x: "x = (Inr t, h')" "t \<noteq> Finish (Inl OutOfFuel)" "max_ops h' \<le> max_ops h"
    by (cases x) (auto simp: good_step_def)
  then have "returns (ended (max_ops h')) (f t h')"
    using endsD [OF assms] h by simp
  then have "returns (ended (max_ops h)) (f t h')"
    by (rule returns_mono) (rule ended_trans [OF _ x(3)])
  then show "returns (ended (max_ops h))
      (case x of (r, h') \<Rightarrow> case r of Inl e \<Rightarrow> Done (Inl e, h') | Inr x \<Rightarrow> f x h')"
    by (simp add: x(1))
qed

lemma ends_scan_loop: "ends n (scan_loop H q opts limit n a d p cs)"
proof (induction n arbitrary: a d p cs)
  case (Suc n)
  show ?case
    unfolding scan_loop.simps
    by (rule ends_after_waves)
      (auto simp: partial_batch_def intro!: ends_attempt_spend ends_then Suc split: scan_step.splits sum.splits option.splits)
qed simp

lemma ends_claim_many [simp]: "ends n (claim_many H q opts limit)"
  unfolding claim_many_def by (intro ends_fueled ends_scan_loop)

lemma ends_claim_one [simp]: "ends n (claim_one H q opts)"
  unfolding claim_one_def by (intro ends_rules) simp_all

end
