(* ===== verification/Claim_Safety.thy ===== *)
theory Claim_Safety
  imports Claim_Bounds
begin

text \<open>
  What a successful claim means on the contents of the store, with other clients active: the
  claim object of the generation carries this worker's record and token, the previous generation
  had expired by the claimant's floor according to the stored record and store time, and the
  attempt is within the job's limit.
\<close>

section \<open>Generations in keys\<close>

lemma hex_digit_value_hex_chars: "n < 16 \<Longrightarrow> hex_digit_value (hex_chars ! n) = Some n"
proof -
  have "\<forall>n \<in> set [0..<16]. hex_digit_value (hex_chars ! n) = Some n"
    by (simp add: hex_chars_def hex_digit_value_def upt_rec)
  then show "n < 16 \<Longrightarrow> ?thesis" by simp
qed

lemma from_hex_radix_push_hex:
  "foldl (\<lambda>n c. n * 16 + (case hex_digit_value c of Some d \<Rightarrow> d | None \<Rightarrow> 0)) m (push_hex bs)
     = foldl (\<lambda>n b. n * 256 + unat b) m bs"
proof (induction bs arbitrary: m)
  case (Cons b bs)
  have "(m * 16 + unat (drop_bit 4 b)) * 16 + unat (b AND 0xF) = m * 256 + unat b"
    by (simp add: unat_nibbles [of b])
  then show ?case
    by (simp only: push_hex.simps foldl_Cons hex_digit_value_hex_chars [OF nibble_less(1)]
      hex_digit_value_hex_chars [OF nibble_less(2)] option.case Cons)
qed simp

lemma from_hex_radix_hex:
  fixes w :: "'a::len word"
  assumes "8 dvd LENGTH('a)"
  shows "from_hex_radix (hex w) = unat w"
  using from_hex_radix_push_hex [of 0 "to_be_bytes w"] be_nat_to_be_bytes [OF assms, of w]
  by (simp add: from_hex_radix_def hex_def be_nat_def)

lemma push_hex_digits: "list_all (\<lambda>c. hex_digit_value c \<noteq> None) (push_hex bs)"
  using nibble_less by (induction bs) (auto simp: hex_digit_value_hex_chars)

lemma split_on_at: "split_on c (xs @ c # t) = split_on c xs @ split_on c t"
  by (induction xs) (auto split: list.splits)

lemma parse_generation_claim:
  assumes "g \<le> u32_max"
  shows "parse_generation (absolute q (KeyClaim s j (ucast g))) = Some g"
proof -
  have "last (split_on (CHR ''/'') (absolute q (KeyClaim s j (ucast g)))) = hex (ucast g :: u32)"
    using split_on_at [of "CHR ''/''" "q_root q @ ''claims/'' @ hex s @ ''/'' @ hex j" "hex (ucast g :: u32)"]
    by (simp add: absolute_def)
  moreover have "unat (ucast g :: u32) = unat g"
    using assms by (simp add: u32_max_def word_le_nat_alt unat_ucast_mod)
  ultimately show ?thesis
    using push_hex_digits from_hex_radix_hex [of "ucast g :: u32"]
    by (simp add: parse_generation_def hex_def)
qed

section \<open>Evidence\<close>

text \<open>An object of the claim chain with this generation in its key and this metadata.\<close>

definition listed :: "queue \<Rightarrow> u16 \<Rightarrow> id16 \<Rightarrow> u64 \<Rightarrow> meta \<Rightarrow> contents \<Rightarrow> bool" where
  "listed q s j g m c \<longleftrightarrow> (\<exists>k obj. prefix (claims_dir q s j) k \<and> parse_generation k = Some g
     \<and> c k = Some obj \<and> obj_meta obj = m)"

text \<open>The claim record of a generation, with its attempt and lease duration.\<close>

definition claim_seen :: "hash_fn \<Rightarrow> queue \<Rightarrow> u16 \<Rightarrow> id16 \<Rightarrow> u64 \<Rightarrow> u64 \<Rightarrow> u64 \<Rightarrow> contents \<Rightarrow> bool" where
  "claim_seen H q s j g a d c \<longleftrightarrow> (\<exists>obj r. c (absolute q (KeyClaim s j (ucast g))) = Some obj
     \<and> decode_at H q (KeyClaim s j (ucast g)) (obj_body obj) = Inr (RecordClaim r)
     \<and> claim_attempt r = a \<and> claim_lease_duration_ns r = d)"

definition prior_lease :: "hash_fn \<Rightarrow> queue \<Rightarrow> u16 \<Rightarrow> id16 \<Rightarrow> tail_state \<Rightarrow> contents \<Rightarrow> bool" where
  "prior_lease H q s j t c \<longleftrightarrow>
     (t_gen t = 0 \<longrightarrow> t_attempt t = 0 \<and> t_duration t = 0)
     \<and> (t_gen t = 0 \<or> listed q s j (t_gen t) (t_meta t) c
          \<and> claim_seen H q s j (t_gen t) (t_attempt t) (t_duration t) c)"

text \<open>The claim object of a generation holds this record, at this store time.\<close>

definition claim_object :: "hash_fn \<Rightarrow> queue \<Rightarrow> u16 \<Rightarrow> claim_record \<Rightarrow> u64 \<Rightarrow> contents \<Rightarrow> bool" where
  "claim_object H q s r time c \<longleftrightarrow> (\<exists>m. meta_store_time_ns m = time \<and>
     c (absolute q (KeyClaim s (claim_job_id r) (ucast (claim_generation r)))) = Some \<lparr>obj_meta = m,
       obj_body = record_bytes H q (KeyClaim s (claim_job_id r) (ucast (claim_generation r))) (RecordClaim r)\<rparr>)"

definition job_admits :: "hash_fn \<Rightarrow> queue \<Rightarrow> u16 \<Rightarrow> id16 \<Rightarrow> u64 \<Rightarrow> u64 \<Rightarrow> contents \<Rightarrow> bool" where
  "job_admits H q s j att floor_ns c \<longleftrightarrow> (\<exists>obj job. c (absolute q (KeyJob s j)) = Some obj
     \<and> decode_at H q (KeyJob s j) (obj_body obj) = Inr (RecordJob job)
     \<and> att \<le> job_maximum_attempts job
     \<and> (\<forall>nb. job_not_before_ns job = Some nb \<longrightarrow> nb \<le> floor_ns))"

text \<open>All that a returned claim implies.\<close>

definition claim_taken :: "hash_fn \<Rightarrow> queue \<Rightarrow> claim_options \<Rightarrow> claim \<Rightarrow> contents \<Rightarrow> bool" where
  "claim_taken H q opts cl c \<longleftrightarrow> (\<exists>t. cl_generation cl = t_gen t + 1 \<and> t_gen t < u32_max
     \<and> cl_attempt cl = t_attempt t + 1
     \<and> prior_lease H q (cl_shard cl) (cl_job_id cl) t c
     \<and> lease_expired q (co_floor_ns opts) t
     \<and> job_admits H q (cl_shard cl) (cl_job_id cl) (cl_attempt cl) (co_floor_ns opts) c
     \<and> claim_object H q (cl_shard cl) (takeover_record q (cl_job_id cl) opts t (cl_worker_token cl))
         (cl_claim_store_time_ns cl) c)"

section \<open>Stability\<close>

lemma protected_claims_dir: "prefix (claims_dir q s j) k \<Longrightarrow> protected q k"
  by (rule protected_plane [of q "''claims/''"])
    (auto simp: claims_dir_def claims_prefix_def prefix_def mutable_planes_def)

lemma stays_listed [stays_rules]: "stays (protected q) (listed q s j g m)"
  unfolding stays_def listed_def using protected_claims_dir growsD by blast

lemma stays_claim_seen [stays_rules]: "stays (protected q) (claim_seen H q s j g a d)"
  unfolding claim_seen_def by (intro stays_rules) simp_all

lemma stays_prior_lease [stays_rules]: "stays (protected q) (prior_lease H q s j t)"
  unfolding prior_lease_def by (intro stays_rules)

lemma stays_claim_object [stays_rules]: "stays (protected q) (claim_object H q s r time)"
  unfolding claim_object_def by (intro stays_rules) simp_all

lemma stays_job_admits [stays_rules]: "stays (protected q) (job_admits H q s j a f)"
  unfolding job_admits_def by (intro stays_rules) simp_all

lemma stays_claim_taken [stays_rules]: "stays (protected q) (claim_taken H q opts cl)"
  unfolding claim_taken_def by (intro stays_rules)

section \<open>Tail evidence\<close>

definition tail_listed :: "queue \<Rightarrow> u16 \<Rightarrow> id16 \<Rightarrow> (u64 \<times> meta) option \<Rightarrow> contents \<Rightarrow> bool" where
  "tail_listed q s j tail c \<longleftrightarrow> (\<forall>g m. tail = Some (g, m) \<longrightarrow> listed q s j g m c)"

lemma stays_tail_listed [stays_rules]: "stays (protected q) (tail_listed q s j tail)"
  unfolding tail_listed_def by (intro stays_rules)

lemma page_item_listed:
  assumes "page_exact c (claims_dir q s j) a n pg" "it \<in> set (page_items pg)"
    "parse_generation (item_key it) = Some g"
  shows "listed q s j g (item_meta it) c"
proof -
  obtain ks where ks: "set ks = listed_keys c (claims_dir q s j) a"
      "map item_key (page_items pg) = take n ks"
      "\<forall>it \<in> set (page_items pg). map_option obj_meta (c (item_key it)) = Some (item_meta it)"
    using assms(1) by (auto simp: page_exact_def)
  have "item_key it \<in> set (take n ks)"
    using ks(2) assms(2) by (metis image_eqI set_map)
  then have "prefix (claims_dir q s j) (item_key it)"
    using ks(1) by (auto simp: listed_keys_def dest: in_set_takeD)
  then show ?thesis
    using ks(3) assms(2,3) by (auto simp: listed_def)
qed

lemma tail_of_items_listed:
  assumes "page_exact c (claims_dir q s j) a n pg" "tail_listed q s j tail c"
  shows "tail_listed q s j (tail_of_items tail (page_items pg)) c"
proof -
  have "tail_listed q s j (tail_of_items tail its) c" if "set its \<subseteq> set (page_items pg)" for its
    using that assms(2)
  proof (induction its arbitrary: tail)
    case (Cons it its)
    have "tail_listed q s j (case parse_generation (item_key it) of
        Some g \<Rightarrow> Some (g, item_meta it) | None \<Rightarrow> tail) c"
      using Cons.prems page_item_listed [OF assms(1), of it]
      by (auto simp: tail_listed_def split: option.splits)
    then show ?case
      using Cons by (simp add: tail_of_items_def)
  qed (simp add: tail_of_items_def)
  then show ?thesis
    by simp
qed

lemma triple_list_tail:
  "triple (protected q) (\<lambda>c. True) (list_tail (claims_dir q s j))
     (\<lambda>r c. \<forall>tail. r = Inr tail \<longrightarrow> tail_listed q s j tail c)" (is "triple _ _ _ ?Q")
proof -
  have Q: "stays (protected q) (?Q r)" for r
    by (intro stays_rules)
  have "triple (protected q) (tail_listed q s j tail) (list_tail_loop (claims_dir q s j) n a tail) ?Q" for n a tail
  proof (induction n arbitrary: a tail)
    case 0
    then show ?case
      by (auto intro!: triple_fail)
  next
    case (Suc n)
    show ?case
      unfolding list_tail_loop.simps
      apply (intro triple_spend triple_list stays_rules Q)
       apply (rule triple_of_store)
         apply (auto simp: Let_def list_ans_def split: option.splits
           intro!: triple_ret Q intro: triple_pre [OF Suc] tail_of_items_listed stays_rules)
      done
  qed
  from triple_pre [OF this [of None]] show ?thesis
    unfolding list_tail_def by (intro triple_fueled) (simp add: tail_listed_def)
qed

lemma claim_seenI:
  "c (absolute q (KeyClaim s j (ucast g))) = Some obj \<Longrightarrow>
   decode_at H q (KeyClaim s j (ucast g)) (obj_body obj) = Inr (RecordClaim r) \<Longrightarrow>
   claim_seen H q s j g (claim_attempt r) (claim_lease_duration_ns r) c"
  by (auto simp: claim_seen_def)

lemma triple_tail_record:
  assumes "stays (protected q) P"
  shows "triple (protected q) P (tail_record H q s j g)
    (\<lambda>r c. P c \<and> (\<forall>a d. r = Inr (a, d) \<longrightarrow> claim_seen H q s j g a d c))" (is "triple _ _ _ ?Q")
proof -
  have Q: "stays (protected q) (?Q r)" for r
    by (intro stays_rules assms)
  show ?thesis
    unfolding tail_record_def Let_def
    by (intro triple_spend triple_get assms Q triple_of_store triple_decode_op)
      (auto simp: get_ans_def intro!: triple_ret triple_fail stays_rules assms intro: claim_seenI
        split: stow_record.splits)
qed

text \<open>From a discovered tail to the state the loop starts with.\<close>

lemma triple_tail_state:
  assumes "stays (protected q) P" "\<And>c. P c \<Longrightarrow> tail_listed q s j tail c"
    and f: "\<And>t. triple (protected q) (\<lambda>c. P c \<and> prior_lease H q s j t c) (f t) Q"
    and Q: "\<And>e. stays (protected q) (Q (Inl e))" "\<And>e c. P c \<Longrightarrow> Q (Inl e) c"
    and gm: "(g, m) = (case tail of Some x \<Rightarrow> x | None \<Rightarrow> (0, no_meta))"
  shows "triple (protected q) P
    (and_then (if g = 0 then ret (0, 0) else tail_record H q s j g) (\<lambda>(a, d).
       f \<lparr>t_gen = g, t_meta = m, t_attempt = a, t_duration = d\<rparr>)) Q"
proof (cases "g = 0")
  case True
  then show ?thesis
    by simp (rule triple_pre [OF f], simp add: prior_lease_def)
next
  case False
  then have tail: "tail = Some (g, m)"
    using gm by (cases tail) auto
  have "triple (protected q) (\<lambda>c. P c \<and> (\<forall>a d. Inr x = Inr (a, d) \<longrightarrow> claim_seen H q s j g a d c))
      (case x of (a, d) \<Rightarrow> f \<lparr>t_gen = g, t_meta = m, t_attempt = a, t_duration = d\<rparr>) Q" for x
    by (cases x) (auto intro!: triple_pre [OF f] simp: prior_lease_def False
      dest: assms(2) simp: tail tail_listed_def)
  then show ?thesis
    using False by simp (rule triple_then [OF triple_tail_record [OF assms(1)]], auto simp: Q)
qed

lemma triple_rediscover:
  assumes "\<And>t. triple (protected q) (prior_lease H q s j t) (f t) Q"
    and "\<And>e. stays (protected q) (Q (Inl e))" "\<And>e c. Q (Inl e) c"
  shows "triple (protected q) P (and_then (rediscover H q s j) f) Q"
proof -
  have *: "and_then (rediscover H q s j) f =
     and_then (list_tail (claims_dir q s j)) (\<lambda>t.
       let (g, m) = (case t of Some x \<Rightarrow> x | None \<Rightarrow> (0, no_meta))
       in and_then (if g = 0 then ret (0, 0) else tail_record H q s j g) (\<lambda>(a, d).
            f \<lparr>t_gen = g, t_meta = m, t_attempt = a, t_duration = d\<rparr>))"
    by (simp add: rediscover_def and_then_assoc Let_def case_prod_beta')
  have "triple (protected q) (tail_listed q s j tail)
      (let (g, m) = (case tail of Some x \<Rightarrow> x | None \<Rightarrow> (0, no_meta))
       in and_then (if g = 0 then ret (0, 0) else tail_record H q s j g) (\<lambda>(a, d).
            f \<lparr>t_gen = g, t_meta = m, t_attempt = a, t_duration = d\<rparr>)) Q" for tail
  proof -
    obtain g m where gm: "(g, m) = (case tail of Some x \<Rightarrow> x | None \<Rightarrow> (0, no_meta))"
      by (metis surj_pair)
    show ?thesis
      unfolding gm [symmetric] Let_def prod.case
      by (rule triple_tail_state [OF _ _ _ _ _ gm]) (auto intro: stays_rules triple_pre [OF assms(1)] assms(2,3))
  qed
  then show ?thesis
    unfolding * by (intro triple_then [OF triple_pre [OF triple_list_tail]] assms(2,3)) simp_all
qed

section \<open>Writing a claim\<close>

lemma claim_objectI:
  assumes "holds_bytes c k b" "head_ans c k (Inr m)"
    and "k = absolute q (KeyClaim s (claim_job_id r) (ucast (claim_generation r)))"
    and "b = record_bytes H q (KeyClaim s (claim_job_id r) (ucast (claim_generation r))) (RecordClaim r)"
  shows "claim_object H q s r (meta_store_time_ns m) c"
  using assms by (auto simp: claim_object_def holds_bytes_def head_ans_def)

lemma triple_finish_claim_round:
  fixes q s j opts t tok
  defines "r \<equiv> takeover_record q j opts t tok"
  defines "k \<equiv> KeyClaim s j (ucast (t_gen t + 1))"
  assumes B: "stays (protected q) B"
  shows "triple (protected q) (\<lambda>c. B c \<and> holds_bytes c (absolute q k) (record_bytes H q k (RecordClaim r)))
    (finish_claim_round H q s j opts hint t job tok)
    (\<lambda>x c. \<forall>cl. x = Inr (Some cl) \<longrightarrow> B c \<and> cl_shard cl = s \<and> cl_job_id cl = j
      \<and> cl_generation cl = t_gen t + 1 \<and> cl_attempt cl = t_attempt t + 1 \<and> cl_worker_token cl = tok
      \<and> claim_object H q s r (cl_claim_store_time_ns cl) c)"
    (is "triple ?p ?P _ ?Q")
proof -
  have P: "stays ?p ?P" and Q: "stays ?p (?Q x)" for x
    by (intro stays_rules B, simp add: k_def) (intro stays_rules B)
  have obj: "claim_object H q s r (meta_store_time_ns m) c" if "?P c" "head_ans c (absolute q k) (Inr m)" for c m
    by (rule claim_objectI [where r = r]) (use that in \<open>auto simp: k_def r_def takeover_record_def\<close>)
  have C: "stays ?p (\<lambda>c. B c \<and> claim_object H q s r time c)" for time
    by (intro stays_rules B)
  have rest: "triple ?p (\<lambda>c. B c \<and> claim_object H q s r (meta_store_time_ns m) c)
      (and_then (payload_ref_of q job) (\<lambda>payload.
       and_then (write_tail_hint H q s j (t_gen t + 1) hint) (\<lambda>_.
       and_then (lease_entry m) (\<lambda>_. ret (Some
         \<lparr>cl_job_id = j, cl_shard = s, cl_generation = t_gen t + 1, cl_attempt = t_attempt t + 1,
          cl_worker_token = tok, cl_lease_duration_ns = co_lease_duration_ns opts,
          cl_claim_store_time_ns = meta_store_time_ns m, cl_payload = payload\<rparr>))))) ?Q"
    if "emits_op (harmless ?p) (lease_entry m)" for m and lease_entry :: "meta \<Rightarrow> unit op"
    using that by (intro triple_then_harmless C Q triple_ret) (auto intro!: emits_rules)
  show ?thesis
    unfolding finish_claim_round_def Let_def k_def [symmetric]
    by (intro triple_spend triple_head P Q triple_of_store triple_pre [OF rest])
      (auto intro!: emits_rules obj split: option.splits)
qed

definition claim_post ::
  "hash_fn \<Rightarrow> queue \<Rightarrow> u16 \<Rightarrow> id16 \<Rightarrow> claim_options \<Rightarrow> queue_error + claim option \<Rightarrow> contents \<Rightarrow> bool" where
  "claim_post H q s j opts x c \<longleftrightarrow> (\<forall>cl. x = Inr (Some cl) \<longrightarrow>
     cl_shard cl = s \<and> cl_job_id cl = j \<and> claim_taken H q opts cl c)"

lemma claim_post_none [simp]: "claim_post H q s j opts (Inl e) c" "claim_post H q s j opts (Inr None) c"
  by (simp_all add: claim_post_def)

lemma stays_claim_post [stays_rules]: "stays (protected q) (claim_post H q s j opts x)"
  unfolding claim_post_def by (intro stays_rules)

lemma triple_no_claim [intro]:
  "triple (protected q) P (ret None) (claim_post H q s j opts)"
  "triple (protected q) P (fail e) (claim_post H q s j opts)"
  by (auto intro: triple_ret triple_fail stays_rules)

lemma triple_write_claim:
  assumes again: "u \<Longrightarrow> (\<And>t. triple (protected q) (prior_lease H q s j t) (again t) (claim_post H q s j opts))"
    and "lease_expired q (co_floor_ns opts) t"
  shows "triple (protected q)
    (\<lambda>c. prior_lease H q s j t c \<and> job_admits H q s j (t_attempt t + 1) (co_floor_ns opts) c)
    (write_claim H q s j opts hint u t job again) (claim_post H q s j opts)"
    (is "triple ?p ?B _ ?Q")
proof (cases "t_gen t \<ge> u32_max")
  case True
  then show ?thesis
    by (auto simp: write_claim_def)
next
  case False
  have B: "stays ?p ?B"
    by (intro stays_rules)
  have won: "triple ?p (\<lambda>c. ?B c \<and> holds_bytes c (absolute q (KeyClaim s j (ucast (t_gen t + 1))))
      (record_bytes H q (KeyClaim s j (ucast (t_gen t + 1))) (RecordClaim (takeover_record q j opts t tok))))
      (finish_claim_round H q s j opts hint t job tok) ?Q" for tok
    by (rule triple_weaken [OF triple_finish_claim_round [OF B]])
      (use False assms(2) in \<open>auto simp: claim_post_def claim_taken_def not_le\<close>)
  have lost: "triple ?p P (if u then and_then (rediscover H q s j) again else ret None) ?Q" for P
    by (auto intro!: triple_rediscover again stays_rules)
  have "triple ?p ?B (and_then (put_record H q (KeyClaim s j (ucast (t_gen t + 1)))
      (RecordClaim (takeover_record q j opts t tok))) (\<lambda>v.
        if v = WroteOurs then finish_claim_round H q s j opts hint t job tok
        else if u then and_then (rediscover H q s j) again else ret None)) ?Q" for tok
    by (rule triple_then [OF triple_put_record [OF B]])
      (use lost in \<open>auto intro: triple_pre [OF won] stays_rules\<close>)
  then show ?thesis
    unfolding write_claim_def if_not_P [OF False]
    by (intro triple_handle triple_spend stays_rules) simp_all
qed

lemma triple_read_job:
  assumes "stays (protected q) P"
  shows "triple (protected q) P (read_job H q s j) (\<lambda>r c. P c \<and> (\<forall>job. r = Inr (Some job) \<longrightarrow>
    (\<exists>obj. c (absolute q (KeyJob s j)) = Some obj
      \<and> decode_at H q (KeyJob s j) (obj_body obj) = Inr (RecordJob job))))" (is "triple _ _ _ ?Q")
proof -
  have Q: "stays (protected q) (?Q r)" for r
    by (intro stays_rules assms) simp
  have "triple (protected q) (\<lambda>c. P c \<and> get_ans c (absolute q (KeyJob s j)) (Inr obj))
      (and_then (decode_op H q (KeyJob s j) (obj_body obj)) (\<lambda>record. case record of
        RecordJob j \<Rightarrow> ret (Some j) | _ \<Rightarrow> fail (ERecord m))) ?Q" for obj m
    by (intro triple_decode_op Q) (auto simp: get_ans_def split: stow_record.splits
      intro!: triple_ret triple_fail Q [simplified] assms stays_rules)
  then show ?thesis
    unfolding read_job_def Let_def
    by (intro triple_spend triple_get assms Q)
      (auto split: sum.splits intro!: triple_ret triple_fail assms)
qed

lemma triple_claim_round:
  assumes again: "u \<Longrightarrow> (\<And>t. triple (protected q) (prior_lease H q s j t) (again t) (claim_post H q s j opts))"
  shows "triple (protected q) (prior_lease H q s j t) (claim_round H q s j opts hint u t again)
    (claim_post H q s j opts)" (is "triple ?p ?P _ ?Q")
proof -
  have P: "stays ?p ?P"
    by (intro stays_rules)
  have go: "triple ?p (\<lambda>c. ?P c \<and> (\<exists>obj. c (absolute q (KeyJob s j)) = Some obj
        \<and> decode_at H q (KeyJob s j) (obj_body obj) = Inr (RecordJob job)))
      (claim_with_job H q s j opts hint u t job again) ?Q"
    if "lease_expired q (co_floor_ns opts) t" for job
  proof -
    have "triple ?p P' (bury_exhausted H q s j t) ?Q" for P'
      unfolding bury_exhausted_def Let_def
      by (rule triple_pre [where P = "\<lambda>c. True"],
          intro triple_spend triple_then_harmless emits_rules stays_rules) (auto intro: stays_rules)
    moreover have "triple ?p P' (and_then (rediscover H q s j) again) ?Q" if u for P'
      using that by (intro triple_rediscover again stays_rules) simp_all
    moreover have "triple ?p (\<lambda>c. ?P c \<and> (\<exists>obj. c (absolute q (KeyJob s j)) = Some obj
        \<and> decode_at H q (KeyJob s j) (obj_body obj) = Inr (RecordJob job)))
        (write_claim H q s j opts hint u t job again) ?Q"
      if "\<not> (case job_not_before_ns job of Some nb \<Rightarrow> co_floor_ns opts < nb | None \<Rightarrow> False)"
        "\<not> t_attempt t + 1 > job_maximum_attempts job"
      by (rule triple_pre [OF triple_write_claim [OF again \<open>lease_expired q (co_floor_ns opts) t\<close>]])
        (use that in \<open>auto simp: job_admits_def not_less split: option.splits\<close>)
    ultimately show ?thesis
      by (simp add: claim_with_job_def triple_no_claim)
  qed
  have "triple ?p ?P (and_then (read_job H q s j) (\<lambda>found. case found of None \<Rightarrow> ret None
     | Some job \<Rightarrow> claim_with_job H q s j opts hint u t job again)) ?Q" if "lease_expired q (co_floor_ns opts) t"
    by (rule triple_then [OF triple_read_job [OF P]])
      (auto split: option.splits intro: stays_rules triple_pre [OF go [OF that]])
  then show ?thesis
    unfolding claim_round_def
    by (intro triple_then_harmless [OF emits_backed_off P] stays_rules) auto
qed

lemma triple_claim_loop:
  "triple (protected q) (prior_lease H q s j t) (claim_loop H q s j opts hint n u t) (claim_post H q s j opts)"
  by (induction n arbitrary: u t) (auto intro: triple_claim_round)

section \<open>Probing a candidate\<close>

text \<open>What the gathering of the tail establishes, by hint or by listing.\<close>

definition gathered :: "hash_fn \<Rightarrow> queue \<Rightarrow> u16 \<Rightarrow> id16
    \<Rightarrow> (u64 \<times> meta) option \<times> hint_state \<times> claim_record option \<Rightarrow> contents \<Rightarrow> bool" where
  "gathered H q s j x c \<longleftrightarrow> tail_listed q s j (fst x) c
     \<and> (\<forall>r. snd (snd x) = Some r \<longrightarrow> (\<exists>g m. fst x = Some (g, m) \<and> g \<noteq> 0
          \<and> claim_seen H q s j g (claim_attempt r) (claim_lease_duration_ns r) c))"

lemma stays_gathered [stays_rules]: "stays (protected q) (gathered H q s j x)"
  unfolding gathered_def by (intro stays_rules)

lemma hinted_gathered:
  assumes "c (absolute q (KeyClaim s j (ucast g))) = Some obj" "0 < g" "g \<le> u32_max"
    and "decode_at H q (KeyClaim s j (ucast g)) (obj_body obj) = Inr (RecordClaim r)"
  shows "gathered H q s j (Some (g, obj_meta obj), hint, Some r) c"
proof -
  have "prefix (claims_dir q s j) (absolute q (KeyClaim s j (ucast g)))"
    by (simp add: claims_dir_def claims_prefix_def absolute_def)
  then have "listed q s j g (obj_meta obj) c"
    unfolding listed_def using assms parse_generation_claim by blast
  then show ?thesis
    using assms claim_seenI [of c q s j g obj H r] by (auto simp: gathered_def tail_listed_def)
qed

lemma triple_gather_tail:
  "triple (protected q) (\<lambda>c. True) (gather_tail H q s j) (\<lambda>r c. \<forall>x. r = Inr x \<longrightarrow> gathered H q s j x c)"
    (is "triple ?p _ _ ?Q")
proof -
  have Q: "stays ?p (?Q r)" for r
    by (intro stays_rules)
  have listing: "triple ?p P (and_then (list_tail (claims_dir q s j)) (\<lambda>t. ret (t, hint, None))) ?Q" for hint P
    by (rule triple_then [OF triple_pre [OF triple_list_tail]])
      (auto intro!: triple_ret stays_rules simp: gathered_def)
  have "triple ?p (\<lambda>c. get_ans c (absolute q (KeyClaim s j (ucast g))) (Inr obj))
      (case decode_at H q (KeyClaim s j (ucast g)) (obj_body obj) of
         Inr (RecordClaim r) \<Rightarrow> ret (Some (g, obj_meta obj), Some (v, g), Some r)
       | _ \<Rightarrow> and_then (list_tail (claims_dir q s j)) (\<lambda>t. ret (t, Some (v, 0), None))) ?Q"
    if "0 < g" "g \<le> u32_max" for g obj v
    using that listing
    by (auto split: sum.splits stow_record.splits intro!: triple_ret stays_rules hinted_gathered
      simp: get_ans_def)
  then have "triple ?p (\<lambda>c. True) (and_then spend (\<lambda>_.
      and_then (get_req (absolute q (KeyClaim s j (ucast g)))) (\<lambda>r. case r of
        Inr obj \<Rightarrow> (case decode_at H q (KeyClaim s j (ucast g)) (obj_body obj) of
           Inr (RecordClaim r) \<Rightarrow> ret (Some (g, obj_meta obj), Some (v, g), Some r)
         | _ \<Rightarrow> and_then (list_tail (claims_dir q s j)) (\<lambda>t. ret (t, Some (v, 0), None)))
      | Inl e \<Rightarrow> if e = NotFound
          then and_then (list_tail (claims_dir q s j)) (\<lambda>t. ret (t, Some (v, 0), None))
          else fail (EStore e)))) ?Q" if "0 < g" "g \<le> u32_max" for g v
    using that listing
    by (intro triple_spend triple_get stays_rules Q) (auto split: sum.splits(1) intro!: triple_fail)
  then show ?thesis
    unfolding gather_tail_def Let_def using listing
    by (auto intro!: triple_then_harmless emits_rules stays_rules split: option.splits)
qed

lemma triple_try_claim:
  "triple (protected q) (\<lambda>c. True) (try_claim H q j s v opts) (claim_post H q s j opts)"
    (is "triple ?p _ _ ?Q")
proof -
  have start: "triple ?p (\<lambda>c. gathered H q s j x c) (case x of (tail, hint, hint_rec) \<Rightarrow>
        let (g, m) = (case tail of Some x \<Rightarrow> x | None \<Rightarrow> (0, no_meta))
        in and_then
             (if g = 0 then ret (0, 0)
              else case hint_rec of
                Some c \<Rightarrow> ret (claim_attempt c, claim_lease_duration_ns c)
              | None \<Rightarrow> tail_record H q s j g)
             (\<lambda>(a, d). claim_loop H q s j opts hint 2 (hint_rec \<noteq> None)
                \<lparr>t_gen = g, t_meta = m, t_attempt = a, t_duration = d\<rparr>)) ?Q" for x
  proof -
    obtain tail hint hint_rec where x: "x = (tail, hint, hint_rec)"
      by (metis surj_pair)
    obtain g m where gm: "(g, m) = (case tail of Some x \<Rightarrow> x | None \<Rightarrow> (0, no_meta))"
      by (metis surj_pair)
    show ?thesis
    proof (cases hint_rec)
      case None
      show ?thesis
        unfolding x prod.case gm [symmetric] Let_def None option.case
        by (rule triple_tail_state [OF _ _ _ _ _ gm])
          (auto intro: stays_rules triple_pre [OF triple_claim_loop] simp: gathered_def)
    next
      case (Some r)
      then show ?thesis
        unfolding x prod.case gm [symmetric] Let_def
        by (cases "g = 0"; simp) (rule triple_pre [OF triple_claim_loop],
          use gm in \<open>auto simp: gathered_def prior_lease_def tail_listed_def\<close>)+
    qed
  qed
  have none: "triple ?p P (case (receipt, dead) of (Inl e, Inl e') \<Rightarrow> fail (EStore (if e = NotFound then e' else e))
      | _ \<Rightarrow> ret None) ?Q"
      "triple ?p P (and_then (memoize_terminal s j v) (\<lambda>_. ret None)) ?Q"
    for P and receipt dead :: "meta store_result"
    by (auto split: sum.splits)
      (rule triple_pre [where P = "\<lambda>c. True"], auto intro!: triple_then_harmless emits_rules stays_rules)
  have run: "triple ?p (\<lambda>c. \<forall>x. r = Inr x \<longrightarrow> gathered H q s j x c) (and_then (of_result r) f) ?Q"
    if "\<And>x. triple ?p (gathered H q s j x) (f x) ?Q" for r f
    using that by (cases r) auto
  show ?thesis
    unfolding try_claim_def
    by (intro triple_spend triple_head_any stays_rules
        triple_attempt [OF triple_pre [OF triple_gather_tail]] triple_if run start none) simp_all
qed

section \<open>The scan\<close>

lemma triple_with_budget:
  assumes "triple prot P m Q"
  shows "triple prot P (with_budget b m) (\<lambda>r c. \<exists>x left. r = Inr (x, left) \<and> Q x c)"
  unfolding triple_def with_budget_def
proof (intro allI impI awp_bind)
  fix h c
  assume "P c"
  then have "awp prot (m (h\<lparr>max_ops := b\<rparr>)) (\<lambda>x c. \<forall>c'. grows prot c c' \<longrightarrow> Q (fst x) c') c"
    using assms by (auto simp: triple_def intro: awp_grown)
  then show "awp prot (m (h\<lparr>max_ops := b\<rparr>)) (\<lambda>x. awp prot (case x of (r, h') \<Rightarrow>
      Done (Inr (r, max_ops h'), h'\<lparr>max_ops := max_ops h\<rparr>)) (\<lambda>x c. \<exists>r left. fst x = Inr (r, left) \<and> Q r c)) c"
    by (rule awp_mono) auto
qed

lemma triple_run_children:
  assumes f: "\<And>x. triple prot (\<lambda>c. True) (f x) W" "\<And>x. emits_op (harmless prot) (f x)"
    and W: "\<And>r. stays prot (W r)"
  shows "triple prot (\<lambda>c. True) (run_children f xs) (\<lambda>r c. \<forall>ys. r = Inr ys \<longrightarrow> (\<forall>y \<in> set ys. W (fst y) c))"
proof (induction xs)
  case Nil
  then show ?case
    by (auto intro: triple_ret)
next
  case (Cons x xs)
  let ?Q = "\<lambda>r c. \<forall>ys. r = Inr ys \<longrightarrow> (\<forall>y \<in> set ys. W (fst y) c)"
  have Q: "stays prot (?Q r)" for r
    using W by (auto simp: stays_def)
  have em: "emits_op (harmless prot) (run_children f xs)"
    by (induction xs) (auto intro!: emits_rules f)
  have "triple prot (\<lambda>c. \<exists>r left. Inr y = Inr (r, left) \<and> W r c)
      (and_then (run_children f xs) (\<lambda>ys. ret (y # ys))) ?Q" for y
    by (rule triple_pre [OF triple_then [OF triple_frame [OF Cons.IH em W, of "fst y"]]])
      (auto intro!: triple_ret Q)
  then show ?case
    unfolding run_children.simps
    by (intro triple_then [OF triple_with_budget [OF f(1)]] Q) auto
qed

lemma triple_run_wave:
  assumes f: "\<And>x. triple prot (\<lambda>c. True) (f x) W" "\<And>x. emits_op (harmless prot) (f x)"
    and W: "\<And>r. stays prot (W r)"
  shows "triple prot (\<lambda>c. True) (run_wave f wave) (\<lambda>r c. \<forall>ys. r = Inr ys \<longrightarrow> (\<forall>y \<in> set ys. W y c))"
proof -
  let ?Q = "\<lambda>r c. \<forall>ys. r = Inr ys \<longrightarrow> (\<forall>y \<in> set ys. W y c)"
  have Q: "stays prot (?Q r)" for r
    using W by (auto simp: stays_def)
  show ?thesis
    unfolding run_wave_def Let_def case_prod_beta
    by (intro triple_handle triple_then [OF triple_run_children [OF assms]] Q triple_ret) auto
qed

text \<open>All claims of a batch are taken.\<close>

definition all_taken :: "hash_fn \<Rightarrow> queue \<Rightarrow> claim_options \<Rightarrow> claim list \<Rightarrow> contents \<Rightarrow> bool" where
  "all_taken H q opts cs c \<longleftrightarrow> (\<forall>cl \<in> set cs. claim_taken H q opts cl c)"

definition result_taken :: "hash_fn \<Rightarrow> queue \<Rightarrow> claim_options \<Rightarrow> queue_error + claim option \<Rightarrow> contents \<Rightarrow> bool" where
  "result_taken H q opts r c \<longleftrightarrow> (\<forall>cl. r = Inr (Some cl) \<longrightarrow> claim_taken H q opts cl c)"

lemma stays_all_taken [stays_rules]: "stays (protected q) (all_taken H q opts cs)"
  using stays_claim_taken unfolding all_taken_def stays_def by blast

lemma stays_result_taken [stays_rules]: "stays (protected q) (result_taken H q opts r)"
  unfolding result_taken_def by (intro stays_rules)

lemma collect_taken:
  "all_taken H q opts (wr_claims w) c \<Longrightarrow> (\<forall>r \<in> set rs. result_taken H q opts r c) \<Longrightarrow>
    all_taken H q opts (wr_claims (foldl collect_result w rs)) c"
proof (induction rs arbitrary: w)
  case (Cons r rs)
  then have "all_taken H q opts (wr_claims (collect_result w r)) c"
    by (cases "(w, r)" rule: collect_result.cases) (auto simp: all_taken_def result_taken_def)
  then show ?case
    using Cons by simp
qed simp

definition step_taken :: "hash_fn \<Rightarrow> queue \<Rightarrow> claim_options \<Rightarrow> queue_error + scan_step \<Rightarrow> contents \<Rightarrow> bool" where
  "step_taken H q opts r c = (case r of
     Inr (Finish (Inr cs)) \<Rightarrow> all_taken H q opts cs c
   | Inr (More cs) \<Rightarrow> all_taken H q opts cs c
   | _ \<Rightarrow> True)"

lemma stays_step_taken [stays_rules]: "stays (protected q) (step_taken H q opts r)"
proof (cases r)
  case (Inr t)
  then show ?thesis
  proof (cases t)
    case (Finish x)
    then show ?thesis
      using Inr by (cases x) (simp_all add: step_taken_def [abs_def] stays_all_taken)
  next
    case (More x)
    then show ?thesis
      using Inr by (simp add: step_taken_def [abs_def] stays_all_taken)
  qed
qed (simp add: step_taken_def [abs_def])

lemma triple_claim_waves:
  "triple (protected q) (all_taken H q opts claims) (claim_waves H q opts limit pending claims)
    (step_taken H q opts)" (is "triple ?p _ _ ?Q")
proof (induction H q opts limit pending claims rule: claim_waves.induct)
  case (1 H q opts limit pending claims)
  show ?case
  proof (cases "pending = [] \<or> limit \<le> length claims")
    case True
    then show ?thesis
      by (subst claim_waves.simps) (auto simp: step_taken_def intro!: triple_ret stays_rules)
  next
    case False
    let ?n = "min (length pending) (limit - length claims)"
    let ?f = "\<lambda>c. try_claim H q (cand_job_id c) (cand_shard c) (cand_version c) opts"
    have f: "triple (protected q) (\<lambda>c. True) (?f x) (result_taken H q opts)" for x
      by (rule triple_weaken [OF triple_try_claim]) (auto simp: claim_post_def result_taken_def)
    have wave: "triple (protected q) (all_taken H q opts claims) (run_wave ?f (take ?n pending))
        (\<lambda>r c. (\<forall>ys. r = Inr ys \<longrightarrow> (\<forall>y \<in> set ys. result_taken H q opts y c)) \<and> all_taken H q opts claims c)"
      by (rule triple_pre [OF triple_frame [OF triple_run_wave [OF f]]])
        (auto intro: emits_rules stays_rules)
    have fin: "triple (protected q) (all_taken H q opts cs) (ret (Finish (Inr cs))) (step_taken H q opts)"
        "triple (protected q) (all_taken H q opts cs) (ret (Finish (partial_batch cs e))) (step_taken H q opts)" for cs e
      by (auto simp: step_taken_def partial_batch_def intro!: triple_ret stays_rules)
    have rest: "triple (protected q) (all_taken H q opts (wr_claims w))
       (if limit \<le> length (wr_claims w) then ret (Finish (Inr (wr_claims w)))
        else case wr_first_err w of
          Some e \<Rightarrow> ret (Finish (partial_batch (wr_claims w) e))
        | None \<Rightarrow>
            if wr_any_exhausted w then ret (Finish (partial_batch (wr_claims w) BudgetExhausted))
            else and_then get_handle (\<lambda>h.
              if max_ops h = 0 then ret (Finish (Inr (wr_claims w)))
              else claim_waves H q opts limit (drop ?n pending) (wr_claims w))) (step_taken H q opts)"
      if "w = collect_results claims results" for w results
      using "1.IH" [OF False refl that refl] fin
      by (auto intro!: triple_handle split: option.split)
    have "all_taken H q opts (wr_claims (collect_results claims results)) c"
      if "\<forall>y \<in> set results. result_taken H q opts y c" "all_taken H q opts claims c" for results c
      using collect_taken that by (fastforce simp: collect_results_def)
    then show ?thesis
      unfolding claim_waves.simps [of H q opts limit pending claims] if_not_P [OF False] Let_def
      by (intro triple_then [OF wave] triple_pre [OF rest [OF refl]] stays_rules)
        (auto simp: step_taken_def)
  qed
qed

lemma triple_scan_loop:
  "triple (protected q) (all_taken H q opts claims) (scan_loop H q opts limit n a d pending claims)
    (\<lambda>r c. \<forall>cs. r = Inr cs \<longrightarrow> all_taken H q opts cs c)" (is "triple ?p _ _ ?Q")
proof (induction n arbitrary: a d pending claims)
  case 0
  then show ?case
    by (auto intro: triple_fail)
next
  case (Suc n)
  have Q: "stays ?p (?Q r)" for r
    by (intro stays_rules)
  have part: "triple ?p (all_taken H q opts cs) (of_result (partial_batch cs e)) ?Q" for cs e
    by (auto simp: partial_batch_def intro!: triple_ret triple_fail stays_rules)
  have page: "triple ?p (all_taken H q opts cs) (and_then (gather_candidates q items) (\<lambda>pending.
      case nxt of Some k \<Rightarrow> scan_loop H q opts limit n (Some k) False pending cs
        | None \<Rightarrow> scan_loop H q opts limit n a True pending cs)) ?Q" for cs items nxt
    by (intro triple_then_harmless emits_rules stays_rules) (auto intro: Suc split: option.splits)
  have more: "triple ?p (all_taken H q opts cs) (attempt spend (\<lambda>s. case s of
      Inl e \<Rightarrow> of_result (partial_batch cs e)
    | Inr _ \<Rightarrow> and_then (list_req (q_root q @ jobs_prefix (co_shard opts)) a 1024) (\<lambda>r. case r of
        Inl e \<Rightarrow> of_result (partial_batch cs (EStore e))
      | Inr page \<Rightarrow> if page_items page = [] then ret cs
          else and_then (gather_candidates q (page_items page)) (\<lambda>pending.
            case page_next_after page of Some k \<Rightarrow> scan_loop H q opts limit n (Some k) False pending cs
            | None \<Rightarrow> scan_loop H q opts limit n a True pending cs)))) ?Q" for cs
    apply (rule triple_attempt [OF triple_harmless [OF _ stays_all_taken]])
     apply (intro emits_rules)
    subgoal for r
      by (cases r) (auto intro!: triple_list stays_rules intro: part triple_pre [OF part] triple_pre [OF page] triple_ret split: sum.split)
    done
  have stop: "triple ?p (step_taken H q opts (Inr (More cs))) (ret cs) ?Q" for cs
    by (auto simp: step_taken_def intro!: triple_ret stays_rules)
  have fin: "triple ?p (step_taken H q opts (Inr (Finish r))) (of_result r) ?Q" for r
    by (cases r) (auto simp: step_taken_def intro!: triple_ret triple_fail stays_rules)
  show ?case
    unfolding scan_loop.simps
    apply (rule triple_then [OF triple_claim_waves])
      subgoal for step
        by (cases step) (auto simp: step_taken_def intro: fin stop triple_pre [OF more])
     apply (intro stays_rules)
    by simp
qed

lemma triple_claim_many:
  "triple (protected q) (\<lambda>c. True) (claim_many H q opts limit)
    (\<lambda>r c. \<forall>cs. r = Inr cs \<longrightarrow> all_taken H q opts cs c)"
  unfolding claim_many_def
  by (intro triple_fueled triple_pre [OF triple_scan_loop]) (simp add: all_taken_def)

end
