(* ===== verification/Queue_Settle.thy ===== *)
theory Queue_Settle
  imports Claim_Safety
begin

text \<open>
  Settling a claim (\<open>stowq-core\<close>: \<open>renew\<close>, \<open>commit_output\<close>, \<open>ack\<close>, \<open>nack\<close>, \<open>bury\<close> and
  \<open>Claim::payload\<close>). Each writes at most one authoritative record, under a key fixed by the job
  and, for renewals and failures, the generation. The texts carried by errors are abbreviated.
\<close>

section \<open>Payloads\<close>

definition claim_payload :: "hash_fn \<Rightarrow> claim \<Rightarrow> bytes op" where
  "claim_payload H cl = (case cl_payload cl of
     Inline b \<Rightarrow> ret b
   | Detached k digest len \<Rightarrow>
       and_then (get_req k) (\<lambda>r.
       and_then (of_store r) (\<lambda>obj.
         if of_nat (length (obj_body obj)) \<noteq> len then fail PayloadCorrupt
         else if H (obj_body obj) \<noteq> digest then fail PayloadCorrupt
         else ret (obj_body obj))))"

text \<open>\<open>Claim::detached_or_inline\<close> rebuilds a claim from the job record of a queue with the fixed
  development id \<open>[1; 16]\<close>; it spends no budget.\<close>

definition QUEUE_ID_FOR_TOOLING :: id16 where
  "QUEUE_ID_FOR_TOOLING = 0x01010101010101010101010101010101"

definition rebuilt_payload :: "hash_fn \<Rightarrow> string \<Rightarrow> job_record \<Rightarrow> payload_ref op" where
  "rebuilt_payload H root job = (case (job_payload_inline job, job_payload_key job) of
     (Some b, _) \<Rightarrow> ret (Inline b)
   | (None, Some k) \<Rightarrow>
       and_then (get_req (root @ ''/'' @ k)) (\<lambda>r.
       and_then (of_store r) (\<lambda>obj.
         if H (obj_body obj) \<noteq> job_payload_digest job \<or> of_nat (length (obj_body obj)) \<noteq> job_payload_length job
         then fail PayloadCorrupt
         else ret (Detached (root @ ''/'' @ k) (job_payload_digest job) (job_payload_length job))))
   | (None, None) \<Rightarrow> fail (ERecord ''job payload reference invalid''))"

definition detached_or_inline ::
  "hash_fn \<Rightarrow> id16 \<Rightarrow> u16 \<Rightarrow> u64 \<Rightarrow> u64 \<Rightarrow> id16 \<Rightarrow> u64 \<Rightarrow> u64 \<Rightarrow> string \<Rightarrow> claim op" where
  "detached_or_inline H job_id shard generation att worker_token lease_duration_ns store_time root =
     (let rel = KeyJob shard job_id;
          tag = key_tag H QUEUE_ID_FOR_TOOLING (show_key rel)
      in and_then (get_req (root @ ''/'' @ show_key rel)) (\<lambda>r. case r of
           Inl e \<Rightarrow> if e = NotFound then fail (ERecord ''job record not found for handle'') else fail (EStore e)
         | Inr obj \<Rightarrow>
             and_then (of_result (map_err ERecordFormat (decode H (obj_body obj) QUEUE_ID_FOR_TOOLING tag)))
               (\<lambda>record. case record of
                 RecordJob job \<Rightarrow>
                   and_then (rebuilt_payload H root job) (\<lambda>payload. ret
                     \<lparr>cl_job_id = job_id, cl_shard = shard, cl_generation = generation, cl_attempt = att,
                      cl_worker_token = worker_token, cl_lease_duration_ns = lease_duration_ns,
                      cl_claim_store_time_ns = store_time, cl_payload = payload\<rparr>)
               | _ \<Rightarrow> fail (ERecord ''job key holds a non-job record''))))"

section \<open>Renewal\<close>

datatype renew_outcome = Renewed claim | LeaseLost

definition renewal_record :: "queue \<Rightarrow> claim \<Rightarrow> claim_record" where
  "renewal_record q cl =
     \<lparr>claim_job_id = cl_job_id cl, claim_generation = cl_generation cl + 1, claim_attempt = cl_attempt cl,
      claim_worker_id = oo_worker_id (q_opts q), claim_worker_token = cl_worker_token cl,
      claim_lease_duration_ns = cl_lease_duration_ns cl, claim_continuation = True,
      claim_basis_of = None, claim_prev_token = Some (cl_worker_token cl)\<rparr>"

text \<open>A terminal record ends the renewal; only its proven absence lets it go on.\<close>

definition unless_present :: "string \<Rightarrow> 'a \<Rightarrow> 'a op \<Rightarrow> 'a op" where
  "unless_present k out m =
     and_then spend (\<lambda>_.
     and_then (head_req k) (\<lambda>r. case r of
       Inr _ \<Rightarrow> ret out
     | Inl e \<Rightarrow> if e = NotFound then m else fail (EStore e)))"

definition write_renewal :: "hash_fn \<Rightarrow> queue \<Rightarrow> claim \<Rightarrow> renew_outcome op" where
  "write_renewal H q cl =
     (let gen = cl_generation cl + 1; rel = KeyClaim (cl_shard cl) (cl_job_id cl) (ucast gen)
      in and_then spend (\<lambda>_.
         and_then (put_record H q rel (RecordClaim (renewal_record q cl))) (\<lambda>v.
           if v = WroteOurs then
             and_then spend (\<lambda>_.
             and_then (head_req (absolute q rel)) (\<lambda>r.
             and_then (of_store r) (\<lambda>m.
             and_then (update_tail_hint H q (cl_shard cl) (cl_job_id cl) gen) (\<lambda>_.
               ret (Renewed (cl\<lparr>cl_generation := gen, cl_claim_store_time_ns := meta_store_time_ns m\<rparr>))))))
           else ret LeaseLost)))"

definition renew :: "hash_fn \<Rightarrow> queue \<Rightarrow> claim \<Rightarrow> renew_outcome op" where
  "renew H q cl =
     (if cl_generation cl \<ge> u32_max then fail (EInternal ''generation space exhausted'')
      else unless_present (absolute q (KeyReceipt (cl_shard cl) (cl_job_id cl))) LeaseLost
           (unless_present (absolute q (KeyDead (cl_shard cl) (cl_job_id cl))) LeaseLost
             (write_renewal H q cl)))"

section \<open>Outputs\<close>

record committed_output =
  out_key :: string
  out_digest :: digest

datatype commit_outcome = OutputCommitted committed_output | Converged committed_output

definition valid_output_name :: "string \<Rightarrow> bool" where
  "valid_output_name name \<longleftrightarrow> name \<noteq> [] \<and> hd name \<noteq> CHR ''/'' \<and> CHR 0x5C \<notin> set name \<and> CHR 0x00 \<notin> set name
     \<and> list_all (\<lambda>s. s \<noteq> [] \<and> s \<noteq> ''.'' \<and> s \<noteq> ''..'') (split_on (CHR ''/'') name)"

definition outputs_dir :: "queue \<Rightarrow> id16 \<Rightarrow> string" where
  "outputs_dir q job_id = q_root q @ ''outputs/'' @ hex job_id @ ''/''"

definition classify_output :: "hash_fn \<Rightarrow> object \<Rightarrow> digest \<Rightarrow> committed_output \<Rightarrow> commit_outcome op" where
  "classify_output H obj digest out =
     (if H (obj_body obj) = digest then ret (Converged out) else fail (OutputConflict (H (obj_body obj))))"

definition commit_output :: "hash_fn \<Rightarrow> queue \<Rightarrow> claim \<Rightarrow> string \<Rightarrow> bytes \<Rightarrow> commit_outcome op" where
  "commit_output H q cl name body =
     (if \<not> valid_output_name name then fail (EKey ''invalid output name'')
      else let digest = H body;
               k = outputs_dir q (cl_job_id cl) @ name;
               out = \<lparr>out_key = k, out_digest = digest\<rparr>
           in retrying RETRY_TRANSPORT_MAX (\<lambda>again.
                and_then spend (\<lambda>_.
                and_then (put_req k body digest) (\<lambda>r. case r of
                  Inr (Committed _) \<Rightarrow> ret (OutputCommitted out)
                | Inr Rejected \<Rightarrow>
                    and_then (read_retrying k) (\<lambda>obj. classify_output H obj digest out)
                | Inl (Transport _) \<Rightarrow> again
                | Inl (OutcomeUnknown _) \<Rightarrow>
                    attempt (read_retrying k) (\<lambda>x. case x of
                      Inr obj \<Rightarrow> classify_output H obj digest out
                    | Inl e \<Rightarrow> if e = EStore NotFound then again else fail e)
                | Inl e \<Rightarrow> fail (EStore e)))))"

section \<open>Acknowledgement\<close>

datatype ack_outcome = Acked | AlreadyAcked | SupersededByDead

primrec verify_outputs :: "hash_fn \<Rightarrow> queue \<Rightarrow> id16 \<Rightarrow> committed_output list \<Rightarrow> unit op" where
  "verify_outputs H q job_id [] = ret ()"
| "verify_outputs H q job_id (out # outs) =
     (if \<not> prefix (outputs_dir q job_id) (out_key out) then fail (EKey ''output of another job'')
      else attempt (read_retrying (out_key out)) (\<lambda>x. case x of
        Inr obj \<Rightarrow>
          if H (obj_body obj) \<noteq> out_digest out then fail (OutputEvidenceMismatch ''output body does not match'')
          else verify_outputs H q job_id outs
      | Inl e \<Rightarrow> if e = EStore NotFound then fail (OutputEvidenceMismatch ''output absent at ack'') else fail e))"

definition ack_record :: "queue \<Rightarrow> claim \<Rightarrow> digest \<Rightarrow> committed_output list \<Rightarrow> receipt_record" where
  "ack_record q cl digest outputs =
     \<lparr>receipt_job_id = cl_job_id cl, receipt_generation = cl_generation cl, receipt_attempt = cl_attempt cl,
      receipt_worker_id = oo_worker_id (q_opts q), receipt_worker_token = cl_worker_token cl,
      receipt_payload_digest = digest, receipt_output_digests = map out_digest outputs\<rparr>"

definition same_evidence :: "receipt_record \<Rightarrow> receipt_record \<Rightarrow> bool" where
  "same_evidence r r' \<longleftrightarrow> receipt_job_id r = receipt_job_id r' \<and> receipt_generation r = receipt_generation r'
     \<and> receipt_attempt r = receipt_attempt r' \<and> receipt_payload_digest r = receipt_payload_digest r'
     \<and> receipt_output_digests r = receipt_output_digests r'"

definition write_receipt :: "hash_fn \<Rightarrow> queue \<Rightarrow> claim \<Rightarrow> receipt_record \<Rightarrow> ack_outcome op" where
  "write_receipt H q cl receipt =
     (let rel = KeyReceipt (cl_shard cl) (cl_job_id cl)
      in and_then spend (\<lambda>_.
         and_then (put_record H q rel (RecordReceipt receipt)) (\<lambda>v.
           if v = WroteOurs then
             and_then (write_termidx H q Receipt (cl_shard cl) (cl_job_id cl)) (\<lambda>_. ret Acked)
           else
             and_then (read_retrying (absolute q rel)) (\<lambda>obj.
             and_then (decode_op H q rel (obj_body obj)) (\<lambda>record. case record of
               RecordReceipt r \<Rightarrow> if same_evidence r receipt then ret AlreadyAcked
                                  else fail ReceiptEvidenceMismatch
             | _ \<Rightarrow> fail (ERecord ''receipt key holds a non-receipt record''))))))"

definition ack_inner :: "hash_fn \<Rightarrow> queue \<Rightarrow> claim \<Rightarrow> committed_output list \<Rightarrow> ack_outcome op" where
  "ack_inner H q cl outputs =
     and_then spend (\<lambda>_. and_then spend (\<lambda>_.
     and_then (head_req (absolute q (KeyDead (cl_shard cl) (cl_job_id cl)))) (\<lambda>dead.
     attempt (claim_payload H cl) (\<lambda>payload. case dead of
       Inr _ \<Rightarrow> ret SupersededByDead
     | Inl e \<Rightarrow>
         if e \<noteq> NotFound then fail (EStore e)
         else and_then (of_result payload) (\<lambda>body.
              and_then (verify_outputs H q (cl_job_id cl) outputs) (\<lambda>_.
                write_receipt H q cl (ack_record q cl (H body) outputs)))))))"

definition ack :: "hash_fn \<Rightarrow> queue \<Rightarrow> claim \<Rightarrow> ack_outcome op" where
  "ack H q cl = ack_inner H q cl []"

definition ack_with_outputs :: "hash_fn \<Rightarrow> queue \<Rightarrow> claim \<Rightarrow> committed_output list \<Rightarrow> ack_outcome op" where
  "ack_with_outputs H q cl outputs = ack_inner H q cl outputs"

section \<open>Negative acknowledgement\<close>

definition nack_deadline :: "hash_fn \<Rightarrow> queue \<Rightarrow> claim \<Rightarrow> u64 \<Rightarrow> queue_error + u64" where
  "nack_deadline H q cl floor_ns =
     sum_bind (map_err (\<lambda>_. EInternal ''retry policy'')
       (retry_delay_ms H (queue_id q) (cl_job_id cl) (ucast (min (cl_attempt cl) u32_max))
         (oo_retry (q_opts q)))) (\<lambda>delay_ms.
       ok_or (retry_not_before floor_ns (delay_ms * 1000000)) (EInternal ''retry_not_before overflow''))"

definition nack_record :: "claim \<Rightarrow> u64 \<Rightarrow> u64 \<Rightarrow> fail_record" where
  "nack_record cl reason not_before =
     \<lparr>fail_job_id = cl_job_id cl, fail_generation = cl_generation cl, fail_reason = reason,
      fail_attempt = cl_attempt cl, fail_retry_not_before_ns = not_before\<rparr>"

definition nack :: "hash_fn \<Rightarrow> queue \<Rightarrow> claim \<Rightarrow> u64 \<Rightarrow> u64 \<Rightarrow> unit op" where
  "nack H q cl reason floor_ns =
     and_then (of_result (nack_deadline H q cl floor_ns)) (\<lambda>not_before.
     and_then spend (\<lambda>_.
     and_then (put_record H q (KeyFail (cl_shard cl) (cl_job_id cl) (ucast (cl_generation cl)))
         (RecordFail (nack_record cl reason not_before))) (\<lambda>v.
       if v = NotCommitted then fail (EInternal ''nack not committed'')
       else case bucket_number not_before (fmt_delayed_bucket_width_ns (q_format q)) of
         None \<Rightarrow> ret ()
       | Some bucket \<Rightarrow>
           and_then spend (\<lambda>_.
           and_then (put_req (absolute q (KeyDelayIndex bucket (cl_shard cl) (cl_job_id cl))) [] (H []))
             (\<lambda>_. ret ())))))"

section \<open>Burial\<close>

datatype bury_outcome = Buried | SupersededByReceipt

definition bury_record :: "claim \<Rightarrow> u64 \<Rightarrow> dead_record" where
  "bury_record cl reason =
     \<lparr>dead_job_id = cl_job_id cl, dead_generation = cl_generation cl, dead_attempt = cl_attempt cl,
      dead_reason = reason\<rparr>"

definition write_dead :: "hash_fn \<Rightarrow> queue \<Rightarrow> claim \<Rightarrow> u64 \<Rightarrow> bury_outcome op" where
  "write_dead H q cl reason =
     (let rel = KeyDead (cl_shard cl) (cl_job_id cl)
      in and_then spend (\<lambda>_.
         and_then (put_record H q rel (RecordDead (bury_record cl reason))) (\<lambda>v. case v of
           WroteOurs \<Rightarrow> and_then (write_termidx H q Dead (cl_shard cl) (cl_job_id cl)) (\<lambda>_. ret Buried)
         | Lost \<Rightarrow>
             and_then (read_retrying (absolute q rel)) (\<lambda>obj.
             and_then (decode_op H q rel (obj_body obj)) (\<lambda>record.
               if (case record of RecordDead d \<Rightarrow>
                     dead_generation d = cl_generation cl \<and> dead_attempt d = cl_attempt cl
                   | _ \<Rightarrow> False)
               then ret Buried else fail (ERecord ''dead key holds conflicting evidence'')))
         | NotCommitted \<Rightarrow> fail (EInternal ''bury not committed''))))"

definition bury :: "hash_fn \<Rightarrow> queue \<Rightarrow> claim \<Rightarrow> u64 \<Rightarrow> bury_outcome op" where
  "bury H q cl reason =
     unless_present (absolute q (KeyReceipt (cl_shard cl) (cl_job_id cl))) SupersededByReceipt
       (write_dead H q cl reason)"

section \<open>Lemmas: requests, budget and termination\<close>

lemma emits_unless_present [emits_rules]: "emits_op (harmless p) m \<Longrightarrow> emits_op (harmless p) (unless_present k x m)"
  unfolding unless_present_def by (auto intro!: emits_rules split: sum.splits)

lemma within_unless_present [costs_rules]: "(\<And>c. within c m) \<Longrightarrow> within c (unless_present k x m)"
  unfolding unless_present_def by (auto intro!: within_rules costs_rules split: sum.splits)

lemma ends_unless_present [simp]: "ends n m \<Longrightarrow> ends n (unless_present k x m)"
  unfolding unless_present_def by (auto intro!: ends_rules split: sum.splits)

lemma emits_renew [emits_rules]: "emits_op (harmless (protected q)) (renew H q cl)"
  unfolding renew_def write_renewal_def by (auto simp: Let_def intro!: emits_rules)

lemma within_renew [costs_rules]: "within c (renew H q cl)"
  unfolding renew_def write_renewal_def
  by (auto simp: Let_def intro!: within_unless_present within_rules costs_rules)

lemma ends_renew [simp]: "ends n (renew H q cl)"
  unfolding renew_def write_renewal_def by (auto simp: Let_def intro!: ends_unless_present ends_rules)

lemma emits_classify_output [emits_rules]: "emits_op G (classify_output H obj d out)"
  unfolding classify_output_def by (intro emits_rules)

lemma within_classify_output [costs_rules]: "within c (classify_output H obj d out)"
  unfolding classify_output_def by (intro within_if costs_rules)

lemma ends_classify_output [simp]: "ends n (classify_output H obj d out)"
  unfolding classify_output_def by simp

lemma emits_commit_output [emits_rules]: "emits_op (harmless p) (commit_output H q cl name body)"
  unfolding commit_output_def
  by (auto simp: Let_def intro!: emits_rules split: sum.splits store_error.splits put_outcome.splits)

lemma within_commit_output [costs_rules]: "within c (commit_output H q cl name body)"
  unfolding commit_output_def Let_def
  by (rule within_any)
    (auto intro!: within_retrying within_rules costs_rules
      split: sum.splits store_error.splits put_outcome.splits)

lemma ends_commit_output [simp]: "ends n (commit_output H q cl name body)"
  unfolding commit_output_def Let_def
  by (auto intro!: ends_retrying ends_rules split: sum.splits store_error.splits put_outcome.splits)

lemma emits_verify_outputs [emits_rules]: "emits_op (harmless p) (verify_outputs H q j outs)"
  by (induction outs) (auto intro!: emits_rules split: sum.splits)

lemma within_verify_outputs [costs_rules]: "within c (verify_outputs H q j outs)"
  by (induction outs arbitrary: c) (auto intro!: within_rules costs_rules split: sum.splits)

lemma ends_verify_outputs [simp]: "ends n (verify_outputs H q j outs)"
  by (induction outs) (auto intro!: ends_rules split: sum.splits)

lemma emits_claim_payload [emits_rules]: "emits_op (harmless p) (claim_payload H cl)"
  unfolding claim_payload_def by (auto intro!: emits_rules split: payload_ref.splits)

lemma within_claim_payload: "within (Suc c) (claim_payload H cl)"
  unfolding claim_payload_def
  by (auto intro!: within_rules costs_rules split: payload_ref.splits)

lemma ends_claim_payload [simp]: "ends n (claim_payload H cl)"
  unfolding claim_payload_def by (auto intro!: ends_rules split: payload_ref.splits)

lemma emits_rebuilt_payload [emits_rules]: "emits_op (harmless p) (rebuilt_payload H root job)"
  unfolding rebuilt_payload_def by (auto intro!: emits_rules split: option.splits prod.splits)

lemma emits_detached_or_inline [emits_rules]:
  "emits_op (harmless p) (detached_or_inline H j s g a tok d time root)"
  unfolding detached_or_inline_def
  by (auto simp: Let_def intro!: emits_rules split: sum.splits stow_record.splits)

lemma emits_ack [emits_rules]: "emits_op (harmless p) (ack_inner H q cl outs)"
  unfolding ack_inner_def write_receipt_def
  by (auto simp: Let_def intro!: emits_rules split: sum.splits stow_record.splits)

lemma within_ack [costs_rules]: "within c (ack_inner H q cl outs)"
  unfolding ack_inner_def write_receipt_def
  by (auto simp: Let_def intro!: within_rules within_claim_payload costs_rules
    split: sum.splits stow_record.splits)

lemma ends_ack [simp]: "ends n (ack_inner H q cl outs)"
  unfolding ack_inner_def write_receipt_def
  by (auto simp: Let_def intro!: ends_rules split: sum.splits stow_record.splits)

lemma emits_nack [emits_rules]: "emits_op (harmless p) (nack H q cl reason f)"
  unfolding nack_def by (auto intro!: emits_rules split: option.splits)

lemma within_nack [costs_rules]: "within c (nack H q cl reason f)"
  unfolding nack_def by (auto intro!: within_rules costs_rules split: option.splits)

lemma nack_deadline_fuel [simp]: "nack_deadline H q cl f \<noteq> Inl OutOfFuel"
  by (auto simp: nack_deadline_def sum_bind_def map_err_def ok_or_def split: sum.splits option.splits)

lemma ends_nack [simp]: "ends n (nack H q cl reason f)"
  unfolding nack_def by (auto intro!: ends_rules split: option.splits)

lemma emits_bury [emits_rules]: "emits_op (harmless p) (bury H q cl reason)"
  unfolding bury_def write_dead_def
  by (auto simp: Let_def intro!: emits_rules split: resolved.splits stow_record.splits)

lemma within_bury [costs_rules]: "within c (bury H q cl reason)"
  unfolding bury_def write_dead_def
  by (auto simp: Let_def intro!: within_unless_present within_rules costs_rules
    split: resolved.splits stow_record.splits)

lemma ends_bury [simp]: "ends n (bury H q cl reason)"
  unfolding bury_def write_dead_def
  by (auto simp: Let_def intro!: ends_unless_present ends_rules split: resolved.splits stow_record.splits)

end
