(* ===== verification/Settle_Safety.thy ===== *)
theory Settle_Safety
  imports Queue_Settle
begin

text \<open>
  What the outcomes of settling a claim mean on the contents of the store, with other clients
  active: a receipt implies that its payload and its outputs were verified, and every answer of
  \<open>renew\<close>, \<open>commit_output\<close>, \<open>ack\<close>, \<open>nack\<close> and \<open>bury\<close> names an object that is there and stays.
\<close>

section \<open>Evidence\<close>

definition payload_matches :: "hash_fn \<Rightarrow> claim \<Rightarrow> bytes \<Rightarrow> bool" where
  "payload_matches H cl body = (case cl_payload cl of
     Inline b \<Rightarrow> body = b
   | Detached k digest len \<Rightarrow> H body = digest \<and> of_nat (length body) = len)"

definition output_final :: "hash_fn \<Rightarrow> committed_output \<Rightarrow> contents \<Rightarrow> bool" where
  "output_final H out c \<longleftrightarrow> (\<exists>obj. c (out_key out) = Some obj \<and> H (obj_body obj) = out_digest out)"

definition outputs_final :: "hash_fn \<Rightarrow> queue \<Rightarrow> id16 \<Rightarrow> committed_output list \<Rightarrow> contents \<Rightarrow> bool" where
  "outputs_final H q j outs c \<longleftrightarrow>
     (\<forall>out. out \<in> set outs \<longrightarrow> prefix (outputs_dir q j) (out_key out) \<and> output_final H out c)"

definition record_at :: "hash_fn \<Rightarrow> queue \<Rightarrow> key \<Rightarrow> stow_record \<Rightarrow> contents \<Rightarrow> bool" where
  "record_at H q rel r c \<longleftrightarrow>
     (\<exists>obj. c (absolute q rel) = Some obj \<and> decode_at H q rel (obj_body obj) = Inr r)"

definition receipt_key :: "claim \<Rightarrow> key" where
  "receipt_key cl = KeyReceipt (cl_shard cl) (cl_job_id cl)"

definition dead_key :: "claim \<Rightarrow> key" where
  "dead_key cl = KeyDead (cl_shard cl) (cl_job_id cl)"

definition ack_post ::
  "hash_fn \<Rightarrow> queue \<Rightarrow> claim \<Rightarrow> committed_output list \<Rightarrow> queue_error + ack_outcome \<Rightarrow> contents \<Rightarrow> bool" where
  "ack_post H q cl outs x c = (case x of
     Inr Acked \<Rightarrow> (\<exists>body. payload_matches H cl body \<and> outputs_final H q (cl_job_id cl) outs c
       \<and> holds_bytes c (absolute q (receipt_key cl))
           (record_bytes H q (receipt_key cl) (RecordReceipt (ack_record q cl (H body) outs))))
   | Inr AlreadyAcked \<Rightarrow> (\<exists>body r. payload_matches H cl body \<and> outputs_final H q (cl_job_id cl) outs c
       \<and> record_at H q (receipt_key cl) (RecordReceipt r) c
       \<and> same_evidence r (ack_record q cl (H body) outs))
   | Inr SupersededByDead \<Rightarrow> present c (absolute q (dead_key cl))
   | Inl _ \<Rightarrow> True)"

definition bury_post ::
  "hash_fn \<Rightarrow> queue \<Rightarrow> claim \<Rightarrow> u64 \<Rightarrow> queue_error + bury_outcome \<Rightarrow> contents \<Rightarrow> bool" where
  "bury_post H q cl reason x c = (case x of
     Inr Buried \<Rightarrow>
       holds_bytes c (absolute q (dead_key cl))
         (record_bytes H q (dead_key cl) (RecordDead (bury_record cl reason)))
       \<or> (\<exists>d. record_at H q (dead_key cl) (RecordDead d) c
            \<and> dead_generation d = cl_generation cl \<and> dead_attempt d = cl_attempt cl)
   | Inr SupersededByReceipt \<Rightarrow> present c (absolute q (receipt_key cl))
   | Inl _ \<Rightarrow> True)"

definition renew_post ::
  "hash_fn \<Rightarrow> queue \<Rightarrow> claim \<Rightarrow> queue_error + renew_outcome \<Rightarrow> contents \<Rightarrow> bool" where
  "renew_post H q cl x c = (\<forall>cl'. x = Inr (Renewed cl') \<longrightarrow>
     cl_generation cl < u32_max
     \<and> cl' = cl\<lparr>cl_generation := cl_generation cl + 1, cl_claim_store_time_ns := cl_claim_store_time_ns cl'\<rparr>
     \<and> claim_object H q (cl_shard cl) (renewal_record q cl) (cl_claim_store_time_ns cl') c)"

text \<open>What a fail record of this claim says: the reason given, the attempt of the claim, and the delay of the
  retry policy after the floor. A nack takes an occupied fail key for success, so the record is the
  one of this call as long as nobody else writes a different one for the generation.\<close>

definition fail_key :: "claim \<Rightarrow> key" where
  "fail_key cl = KeyFail (cl_shard cl) (cl_job_id cl) (ucast (cl_generation cl))"

definition fail_as_due :: "hash_fn \<Rightarrow> queue \<Rightarrow> claim \<Rightarrow> u64 \<Rightarrow> u64 \<Rightarrow> bytes \<Rightarrow> bool" where
  "fail_as_due H q cl reason floor_ns body \<longleftrightarrow> (\<exists>delay_ms not_before.
     retry_delay_ms H (queue_id q) (cl_job_id cl) (ucast (min (cl_attempt cl) u32_max)) (oo_retry (q_opts q)) = Inr delay_ms
     \<and> retry_not_before floor_ns (delay_ms * 1000000) = Some not_before
     \<and> decode_at H q (fail_key cl) body = Inr (RecordFail
          \<lparr>fail_job_id = cl_job_id cl, fail_generation = cl_generation cl, fail_reason = reason,
           fail_attempt = cl_attempt cl, fail_retry_not_before_ns = not_before\<rparr>))"

definition fail_unforged :: "hash_fn \<Rightarrow> queue \<Rightarrow> claim \<Rightarrow> u64 \<Rightarrow> u64 \<Rightarrow> contents \<Rightarrow> bool" where
  "fail_unforged H q cl reason floor_ns c \<longleftrightarrow>
     (\<forall>obj. c (absolute q (fail_key cl)) = Some obj \<longrightarrow> fail_as_due H q cl reason floor_ns (obj_body obj))"

definition nack_post :: "queue \<Rightarrow> claim \<Rightarrow> queue_error + unit \<Rightarrow> contents \<Rightarrow> bool" where
  "nack_post q cl x c \<longleftrightarrow> (x = Inr () \<longrightarrow> present c (absolute q (fail_key cl)))"

definition nack_exact_post ::
  "hash_fn \<Rightarrow> queue \<Rightarrow> claim \<Rightarrow> u64 \<Rightarrow> u64 \<Rightarrow> queue_error + unit \<Rightarrow> contents \<Rightarrow> bool" where
  "nack_exact_post H q cl reason floor_ns x c \<longleftrightarrow> (x = Inr () \<longrightarrow>
     (\<exists>obj. c (absolute q (fail_key cl)) = Some obj \<and> fail_as_due H q cl reason floor_ns (obj_body obj)))"

definition commit_post ::
  "hash_fn \<Rightarrow> queue \<Rightarrow> claim \<Rightarrow> string \<Rightarrow> bytes \<Rightarrow> queue_error + commit_outcome \<Rightarrow> contents \<Rightarrow> bool" where
  "commit_post H q cl name body x c =
     (let out = \<lparr>out_key = outputs_dir q (cl_job_id cl) @ name, out_digest = H body\<rparr>
      in case x of
        Inr (OutputCommitted o') \<Rightarrow> o' = out \<and> valid_output_name name \<and> holds_bytes c (out_key out) body
      | Inr (Converged o') \<Rightarrow> o' = out \<and> valid_output_name name \<and> output_final H out c
      | Inl _ \<Rightarrow> True)"

section \<open>Stability\<close>

lemma protected_outputs: "prefix (outputs_dir q j) k \<Longrightarrow> protected q k"
  by (rule protected_plane [of q "''outputs/''"]) (auto simp: outputs_dir_def prefix_def mutable_planes_def)

lemma stays_output_final [stays_rules]: "prot (out_key out) \<Longrightarrow> stays prot (output_final H out)"
  unfolding output_final_def by (intro stays_rules)

lemma stays_outputs_final [stays_rules]: "stays (protected q) (outputs_final H q j outs)"
  unfolding stays_def outputs_final_def output_final_def using protected_outputs growsD by blast

lemma stays_record_at [stays_rules]: "prot (absolute q rel) \<Longrightarrow> stays prot (record_at H q rel r)"
  unfolding record_at_def by (intro stays_rules)

lemma advisory_terminal [simp]: "\<not> advisory (receipt_key cl)" "\<not> advisory (dead_key cl)"
  by (simp_all add: receipt_key_def dead_key_def)

lemma stays_ack_post [stays_rules]: "stays (protected q) (ack_post H q cl outs x)"
  unfolding ack_post_def by (cases x) (auto intro!: stays_rules split: ack_outcome.split)

lemma stays_bury_post [stays_rules]: "stays (protected q) (bury_post H q cl reason x)"
  unfolding bury_post_def by (cases x) (auto intro!: stays_rules split: bury_outcome.split)

lemma stays_renew_post [stays_rules]: "stays (protected q) (renew_post H q cl x)"
  unfolding renew_post_def by (intro stays_rules)

lemma stays_commit_post [stays_rules]: "stays (protected q) (commit_post H q cl name body x)"
  unfolding commit_post_def Let_def
  by (cases x) (auto intro!: stays_rules protected_outputs [of q "cl_job_id cl"] split: commit_outcome.split)

lemma post_errors [simp]:
  "ack_post H q cl outs (Inl e) c" "bury_post H q cl reason (Inl e) c"
  "renew_post H q cl (Inl e) c" "renew_post H q cl (Inr LeaseLost) c" "commit_post H q cl name body (Inl e) c"
  by (simp_all add: ack_post_def bury_post_def renew_post_def commit_post_def)

section \<open>Presence checks\<close>

lemma triple_unless_present:
  assumes "triple prot (\<lambda>c. True) m Q" "prot k" "\<And>x. stays prot (Q x)"
    and "\<And>e c. Q (Inl e) c" "\<And>c. present c k \<Longrightarrow> Q (Inr out) c"
  shows "triple prot (\<lambda>c. True) (unless_present k out m) Q"
  unfolding unless_present_def
  by (intro triple_spend triple_head assms stays_rules)
    (auto simp: head_ans_def present_def split: sum.splits
      intro!: triple_ret triple_fail triple_pre [OF assms(1)] assms(3-5))

lemma record_atI: "c (absolute q rel) = Some obj \<Longrightarrow> decode_at H q rel (obj_body obj) = Inr r \<Longrightarrow>
    record_at H q rel r c"
  by (auto simp: record_at_def)

text \<open>Reading back the record that won a key.\<close>

lemma triple_read_back:
  assumes "stays prot P" "prot (absolute q rel)"
    and "\<And>r. triple prot (\<lambda>c. P c \<and> record_at H q rel r c) (f r) Q"
    and "\<And>e. stays prot (Q (Inl e))" "\<And>e c. Q (Inl e) c"
  shows "triple prot P (and_then (read_retrying (absolute q rel)) (\<lambda>obj.
    and_then (decode_op H q rel (obj_body obj)) f)) Q"
  by (intro triple_then [OF triple_read_retrying [OF assms(1,2)]] triple_decode_op)
    (auto intro!: assms(4,5) triple_pre [OF assms(3)] record_atI)

section \<open>Acknowledgement\<close>

lemma triple_claim_payload:
  assumes "stays prot P"
  shows "triple prot P (claim_payload H cl) (\<lambda>x c. P c \<and> (\<forall>b. x = Inr b \<longrightarrow> payload_matches H cl b))"
  unfolding claim_payload_def
  by (cases "cl_payload cl")
    (auto simp: payload_matches_def intro!: triple_ret triple_fail triple_get triple_of_store assms stays_rules)

lemma triple_verify_outputs:
  assumes "stays (protected q) P"
  shows "triple (protected q) P (verify_outputs H q j outs)
    (\<lambda>x c. P c \<and> (x = Inr () \<longrightarrow> outputs_final H q j outs c))" (is "triple _ _ _ ?Q")
  using assms
proof (induction outs arbitrary: P)
  case Nil
  then show ?case
    by (auto simp: outputs_final_def intro!: triple_ret)
next
  case (Cons out outs)
  let ?F = "\<lambda>c. P c \<and> output_final H out c"
  show ?case
  proof (cases "prefix (outputs_dir q j) (out_key out)")
    case True
    note prot = protected_outputs [OF True]
    have F: "stays (protected q) ?F"
      by (intro stays_rules Cons.prems prot)
    have rest: "triple (protected q) ?F (verify_outputs H q j outs)
        (\<lambda>x c. P c \<and> (x = Inr () \<longrightarrow> outputs_final H q j (out # outs) c))"
      by (rule triple_weaken [OF Cons.IH [OF F]]) (use True in \<open>auto simp: outputs_final_def\<close>)
    show ?thesis
      unfolding verify_outputs.simps using True
      by (simp, intro triple_attempt [OF triple_read_retrying [OF Cons.prems prot]])
        (auto split: sum.splits intro!: triple_fail triple_pre [OF rest] stays_rules Cons.prems
          simp: output_final_def)
  next
    case False
    then show ?thesis
      unfolding verify_outputs.simps by (auto intro!: triple_fail Cons.prems)
  qed
qed

lemma ack_post_already:
  "payload_matches H cl body \<Longrightarrow> outputs_final H q (cl_job_id cl) outs c \<Longrightarrow>
   record_at H q (receipt_key cl) (RecordReceipt r) c \<Longrightarrow> same_evidence r (ack_record q cl (H body) outs) \<Longrightarrow>
   ack_post H q cl outs (Inr AlreadyAcked) c"
  by (auto simp: ack_post_def)

lemma triple_write_receipt:
  assumes "payload_matches H cl body"
  shows "triple (protected q) (outputs_final H q (cl_job_id cl) outs)
    (write_receipt H q cl (ack_record q cl (H body) outs)) (ack_post H q cl outs)"
    (is "triple ?p ?F _ ?Q")
proof -
  let ?r = "ack_record q cl (H body) outs"
  have F: "stays ?p ?F" by (rule stays_rules)
  have won: "triple ?p (\<lambda>c. ?F c \<and> holds_bytes c (absolute q (receipt_key cl))
        (record_bytes H q (receipt_key cl) (RecordReceipt ?r)))
      (and_then (write_termidx H q Receipt (cl_shard cl) (cl_job_id cl)) (\<lambda>_. ret Acked)) ?Q"
    by (intro triple_then_harmless emits_rules triple_ret stays_rules)
      (use assms in \<open>auto simp: ack_post_def\<close>)
  have lost: "triple ?p ?F
      (and_then (read_retrying (absolute q (receipt_key cl))) (\<lambda>obj.
       and_then (decode_op H q (receipt_key cl) (obj_body obj)) (\<lambda>record. case record of
         RecordReceipt r \<Rightarrow> if same_evidence r ?r then ret AlreadyAcked else fail ReceiptEvidenceMismatch
       | _ \<Rightarrow> fail (ERecord ''receipt key holds a non-receipt record'')))) ?Q"
    by (intro triple_read_back F stays_rules)
      (use assms in \<open>auto split: stow_record.splits intro!: triple_ret triple_fail stays_rules
        ack_post_already\<close>)
  show ?thesis
    unfolding write_receipt_def Let_def receipt_key_def [symmetric]
    by (intro triple_spend triple_then [OF triple_put_record [OF F]] triple_if stays_rules)
      (auto intro: triple_pre [OF won] triple_pre [OF lost])
qed

lemma triple_ack:
  "triple (protected q) (\<lambda>c. True) (ack_inner H q cl outs) (ack_post H q cl outs)" (is "triple ?p ?T _ ?Q")
proof -
  have rest: "triple ?p ?T (and_then (verify_outputs H q (cl_job_id cl) outs) (\<lambda>_.
      write_receipt H q cl (ack_record q cl (H body) outs))) ?Q" if "payload_matches H cl body" for body
    by (intro triple_then [OF triple_verify_outputs] stays_rules triple_pre [OF triple_write_receipt [OF that]])
      simp_all
  have checked: "triple ?p (\<lambda>c. \<forall>b. payload = Inr b \<longrightarrow> payload_matches H cl b)
      (and_then (of_result payload) (\<lambda>body. and_then (verify_outputs H q (cl_job_id cl) outs) (\<lambda>_.
        write_receipt H q cl (ack_record q cl (H body) outs)))) ?Q" for payload
  proof (cases payload)
    case (Inr b)
    show ?thesis
    proof (cases "payload_matches H cl b")
      case True
      with Inr show ?thesis by (auto intro: triple_pre [OF rest])
    next
      case False
      with Inr show ?thesis by (auto simp: triple_def)
    qed
  qed (auto intro!: triple_fail stays_rules)
  have step: "triple ?p (\<lambda>c. head_ans c (absolute q (dead_key cl)) dead)
      (attempt (claim_payload H cl) (\<lambda>payload. case dead of
         Inr _ \<Rightarrow> ret SupersededByDead
       | Inl e \<Rightarrow>
           if e \<noteq> NotFound then fail (EStore e)
           else and_then (of_result payload) (\<lambda>body.
                and_then (verify_outputs H q (cl_job_id cl) outs) (\<lambda>_.
                  write_receipt H q cl (ack_record q cl (H body) outs))))) ?Q" for dead
  proof (cases dead)
    case (Inl e)
    show ?thesis
      unfolding Inl sum.case
      by (intro triple_attempt [OF triple_pre [OF triple_claim_payload [OF stays_True]]] triple_if triple_fail
          triple_pre [OF checked] stays_rules) simp_all
  next
    case (Inr m)
    have pres: "stays ?p (\<lambda>c. present c (absolute q (dead_key cl)))"
      by (intro stays_rules) simp
    show ?thesis
      unfolding Inr sum.case
      by (intro triple_attempt [OF triple_pre [OF triple_claim_payload [OF pres]]] triple_ret stays_rules)
        (auto simp: head_ans_def present_def ack_post_def)
  qed
  show ?thesis
    unfolding ack_inner_def dead_key_def [symmetric]
    by (intro triple_spend triple_head stays_rules triple_pre [OF step]) simp_all
qed

section \<open>Burial, failure and renewal\<close>

lemma triple_write_dead:
  "triple (protected q) (\<lambda>c. True) (write_dead H q cl reason) (bury_post H q cl reason)" (is "triple ?p ?T _ ?Q")
proof -
  have lost: "triple ?p ?T
      (and_then (read_retrying (absolute q (dead_key cl))) (\<lambda>obj.
       and_then (decode_op H q (dead_key cl) (obj_body obj)) (\<lambda>record.
         if (case record of RecordDead d \<Rightarrow>
               dead_generation d = cl_generation cl \<and> dead_attempt d = cl_attempt cl | _ \<Rightarrow> False)
         then ret Buried else fail (ERecord ''dead key holds conflicting evidence'')))) ?Q"
    by (intro triple_read_back stays_rules triple_if triple_ret triple_fail)
      (auto split: stow_record.splits simp: bury_post_def)
  have won: "triple ?p (\<lambda>c. holds_bytes c (absolute q (dead_key cl))
        (record_bytes H q (dead_key cl) (RecordDead (bury_record cl reason))))
      (and_then (write_termidx H q Dead (cl_shard cl) (cl_job_id cl)) (\<lambda>_. ret Buried)) ?Q"
    by (intro triple_then_harmless emits_rules triple_ret stays_rules) (auto simp: bury_post_def)
  show ?thesis
    unfolding write_dead_def Let_def dead_key_def [symmetric]
    by (intro triple_spend triple_then [OF triple_put_record [OF stays_True]] stays_rules)
      (auto split: resolved.splits intro: triple_pre [OF won] triple_pre [OF lost] intro!: triple_fail stays_rules)
qed

lemma triple_bury: "triple (protected q) (\<lambda>c. True) (bury H q cl reason) (bury_post H q cl reason)"
  unfolding bury_def receipt_key_def [symmetric]
  by (intro triple_unless_present triple_write_dead stays_rules) (simp_all add: bury_post_def)

lemma triple_nack:
  "triple (protected q) (\<lambda>c. True) (nack H q cl reason floor_ns)
     (\<lambda>x c. x = Inr () \<longrightarrow> present c (absolute q (KeyFail (cl_shard cl) (cl_job_id cl) (ucast (cl_generation cl)))))"
    (is "triple ?p ?T _ ?Q")
proof -
  let ?k = "absolute q (KeyFail (cl_shard cl) (cl_job_id cl) (ucast (cl_generation cl)))"
  have Q: "stays ?p (?Q x)" for x
    by (intro stays_rules) simp
  have P: "stays ?p (\<lambda>c. present c ?k)"
    by (intro stays_rules) simp
  have rest: "triple ?p (\<lambda>c. verdict_ok ?k b (Inr v) c)
      (if v = NotCommitted then fail (EInternal ''nack not committed'')
       else case bucket of
         None \<Rightarrow> ret ()
       | Some bk \<Rightarrow>
           and_then spend (\<lambda>_. and_then (put_req (idx bk) [] (H [])) (\<lambda>_. ret ()))) ?Q" for b v bucket idx
  proof (cases "v = NotCommitted")
    case False
    have "triple ?p (\<lambda>c. present c ?k) (case bucket of
         None \<Rightarrow> ret ()
       | Some bk \<Rightarrow>
           and_then spend (\<lambda>_. and_then (put_req (idx bk) [] (H [])) (\<lambda>_. ret ()))) ?Q"
      by (cases bucket) (auto intro!: triple_ret triple_spend triple_then_harmless emits_rules P Q)
    with False show ?thesis
      by (cases v) (auto elim!: triple_pre simp: holds_bytes_def present_def)
  qed (auto intro!: triple_fail Q)
  show ?thesis
    unfolding nack_def
    by (cases "nack_deadline H q cl floor_ns")
      (auto intro!: triple_fail triple_spend triple_then [OF triple_put_record [OF stays_True]] Q
        triple_pre [OF rest])
qed

lemma nack_keeps_unforged: "emits_op (keeps_fact (fail_unforged H q cl reason floor_ns)) (nack H q cl reason floor_ns)"
proof (cases "nack_deadline H q cl floor_ns")
  case (Inr nb)
  let ?b = "record_bytes H q (fail_key cl) (RecordFail (nack_record cl reason nb))"
  have due: "fail_as_due H q cl reason floor_ns ?b"
    using Inr by (auto simp: nack_deadline_def sum_bind_def map_err_def ok_or_def fail_as_due_def decode_at_Inr_iff nack_record_def
      split: sum.splits option.splits)
  have own: "put_allowed (keeps_fact (fail_unforged H q cl reason floor_ns)) (absolute q (fail_key cl)) ?b d" for d
    using due by (simp add: put_allowed_def fail_unforged_def)
  have idx: "keeps_fact (fail_unforged H q cl reason floor_ns) (ReqPut (absolute q (KeyDelayIndex b s j)) [] d)" for b s j d
    by (simp add: fail_unforged_def fail_key_def)
  show ?thesis
    unfolding nack_def Inr fail_key_def [symmetric]
    by (auto simp del: keeps_fact.simps(1) intro!: emits_rules own idx split: option.splits)
qed (auto simp: nack_def intro: emits_rules)

lemma nack_exact_postI:
  "nack_post q cl x c \<Longrightarrow> fail_unforged H q cl reason floor_ns c \<Longrightarrow> nack_exact_post H q cl reason floor_ns x c"
  by (auto simp: nack_post_def nack_exact_post_def fail_unforged_def present_def)

lemma triple_write_renewal:
  assumes "cl_generation cl < u32_max"
  shows "triple (protected q) (\<lambda>c. True) (write_renewal H q cl) (renew_post H q cl)" (is "triple ?p ?T _ ?Q")
proof -
  let ?rel = "KeyClaim (cl_shard cl) (cl_job_id cl) (ucast (cl_generation cl + 1))"
  let ?b = "record_bytes H q ?rel (RecordClaim (renewal_record q cl))"
  have obj: "claim_object H q (cl_shard cl) (renewal_record q cl) (meta_store_time_ns m) c"
    if "holds_bytes c (absolute q ?rel) ?b" "head_ans c (absolute q ?rel) (Inr m)" for c m
    by (rule claim_objectI [OF that]) (simp_all add: renewal_record_def)
  have hint: "triple ?p (claim_object H q (cl_shard cl) (renewal_record q cl) (meta_store_time_ns m))
      (and_then (update_tail_hint H q (cl_shard cl) (cl_job_id cl) (cl_generation cl + 1)) (\<lambda>_.
         ret (Renewed (cl\<lparr>cl_generation := cl_generation cl + 1,
           cl_claim_store_time_ns := meta_store_time_ns m\<rparr>)))) ?Q" for m
    by (intro triple_then_harmless emits_rules triple_ret stays_rules)
      (use assms in \<open>auto simp: renew_post_def\<close>)
  have P: "stays ?p (\<lambda>c. holds_bytes c (absolute q ?rel) ?b)"
    by (intro stays_rules) simp
  have won: "triple ?p (\<lambda>c. holds_bytes c (absolute q ?rel) ?b)
      (and_then spend (\<lambda>_. and_then (head_req (absolute q ?rel)) (\<lambda>r. and_then (of_store r) (\<lambda>m.
       and_then (update_tail_hint H q (cl_shard cl) (cl_job_id cl) (cl_generation cl + 1)) (\<lambda>_.
         ret (Renewed (cl\<lparr>cl_generation := cl_generation cl + 1,
           cl_claim_store_time_ns := meta_store_time_ns m\<rparr>))))))) ?Q"
    by (intro triple_spend triple_head P stays_rules triple_of_store triple_pre [OF hint]) (auto intro: obj)
  show ?thesis
    unfolding write_renewal_def Let_def
    by (intro triple_spend triple_then [OF triple_put_record [OF stays_True]] triple_if stays_rules
        triple_pre [OF won] triple_ret) auto
qed

lemma triple_renew: "triple (protected q) (\<lambda>c. True) (renew H q cl) (renew_post H q cl)"
proof (cases "cl_generation cl \<ge> u32_max")
  case True
  then show ?thesis
    by (auto simp: renew_def intro!: triple_fail stays_rules)
next
  case False
  then show ?thesis
    unfolding renew_def if_not_P [OF False]
    by (intro triple_unless_present triple_write_renewal stays_rules) (simp_all add: not_le)
qed

section \<open>Outputs\<close>

lemma triple_commit_output:
  "triple (protected q) (\<lambda>c. True) (commit_output H q cl name body) (commit_post H q cl name body)"
    (is "triple ?p ?T _ ?Q")
proof (cases "valid_output_name name")
  case False
  then show ?thesis
    by (auto simp: commit_output_def intro!: triple_fail stays_rules)
next
  case True
  let ?k = "outputs_dir q (cl_job_id cl) @ name"
  let ?out = "\<lparr>out_key = ?k, out_digest = H body\<rparr>"
  have k: "protected q ?k"
    by (rule protected_outputs [of q "cl_job_id cl"]) simp
  note rd = triple_read_retrying [OF stays_True, of "protected q", OF k]
  have classify: "triple ?p (\<lambda>c. c ?k = Some obj) (classify_output H obj (H body) ?out) ?Q" for obj
    unfolding classify_output_def
    by (intro triple_if triple_ret triple_fail stays_rules)
      (auto simp: commit_post_def Let_def True output_final_def)
  show ?thesis
    unfolding commit_output_def Let_def if_not_P [OF not_not [THEN iffD2, OF True]]
  proof (rule triple_retrying)
    fix again assume again: "triple ?p ?T again ?Q"
    have unknown: "triple ?p ?T (attempt (read_retrying ?k) (\<lambda>x. case x of
          Inr obj \<Rightarrow> classify_output H obj (H body) ?out
        | Inl e \<Rightarrow> if e = EStore NotFound then again else fail e)) ?Q"
      by (intro triple_attempt [OF rd])
        (auto split: sum.splits intro!: triple_pre [OF classify] triple_pre [OF again] triple_fail stays_rules)
    have rejected: "triple ?p ?T (and_then (read_retrying ?k) (\<lambda>obj.
        classify_output H obj (H body) ?out)) ?Q"
      by (intro triple_then [OF rd] triple_pre [OF classify] stays_rules) auto
    have committed: "triple ?p (\<lambda>c. holds_bytes c ?k body) (ret (OutputCommitted ?out)) ?Q"
      by (intro triple_ret stays_rules) (simp add: commit_post_def Let_def True)
    show "triple ?p ?T (and_then spend (\<lambda>_. and_then (put_req ?k body (H body)) (\<lambda>r. case r of
          Inr (Committed _) \<Rightarrow> ret (OutputCommitted ?out)
        | Inr Rejected \<Rightarrow> and_then (read_retrying ?k) (\<lambda>obj. classify_output H obj (H body) ?out)
        | Inl (Transport _) \<Rightarrow> again
        | Inl (OutcomeUnknown _) \<Rightarrow>
            attempt (read_retrying ?k) (\<lambda>x. case x of
              Inr obj \<Rightarrow> classify_output H obj (H body) ?out
            | Inl e \<Rightarrow> if e = EStore NotFound then again else fail e)
        | Inl e \<Rightarrow> fail (EStore e)))) ?Q"
      by (intro triple_spend triple_put stays_rules)
        (auto split: sum.splits store_error.splits put_outcome.splits intro!: triple_fail stays_rules
          triple_pre [OF again] triple_pre [OF unknown] triple_pre [OF rejected] triple_pre [OF committed]
          simp: put_ans_def put_change_def holds_bytes_def)
  qed (auto intro!: triple_fail stays_rules)
qed

end
