(* ===== verification/Queue_Sweep.thy ===== *)
theory Queue_Sweep
  imports Index_Scan Settle_Safety
begin

text \<open>
  The sweeps of expired leases and due delays (\<open>stowq-core\<close>, \<open>sweep_expired_leases\<close> and
  \<open>sweep_delayed\<close>): they walk an advisory index, re-evaluate each entry against the authoritative
  records and delete the entry. Nothing but index entries is ever deleted.
\<close>

section \<open>Re-evaluation\<close>

record sweep_report =
  sw_entries :: nat
  sw_reclaimed :: nat
  sw_promoted :: nat

definition empty_sweep :: sweep_report where
  "empty_sweep = \<lparr>sw_entries = 0, sw_reclaimed = 0, sw_promoted = 0\<rparr>"

text \<open>Generation, metadata and lease duration of the tail; the duration is 0 when the record of the
  tail is gone or is not a claim.\<close>

definition claim_tail :: "hash_fn \<Rightarrow> queue \<Rightarrow> u16 \<Rightarrow> id16 \<Rightarrow> (u64 \<times> meta \<times> u64) op" where
  "claim_tail H q shard job_id =
     and_then (list_tail (claims_dir q shard job_id)) (\<lambda>tail. case tail of
       None \<Rightarrow> ret (0, no_meta, 0)
     | Some (gen, m) \<Rightarrow>
         let rel = KeyClaim shard job_id (ucast gen)
         in and_then spend (\<lambda>_.
            and_then (get_req (absolute q rel)) (\<lambda>r. case r of
              Inl e \<Rightarrow> if e = NotFound then ret (gen, m, 0) else fail (EStore e)
            | Inr obj \<Rightarrow>
                and_then (decode_op H q rel (obj_body obj)) (\<lambda>record. case record of
                  RecordClaim c \<Rightarrow> ret (gen, m, claim_lease_duration_ns c)
                | _ \<Rightarrow> ret (gen, m, 0)))))"

definition lease_reclaimable :: "hash_fn \<Rightarrow> queue \<Rightarrow> u16 \<Rightarrow> id16 \<Rightarrow> u64 \<Rightarrow> bool op" where
  "lease_reclaimable H q shard job_id floor_ns =
     unless_present (absolute q (KeyReceipt shard job_id)) False
       (unless_present (absolute q (KeyDead shard job_id)) False
         (and_then (claim_tail H q shard job_id) (\<lambda>(gen, m, duration).
           if gen = 0 then ret False
           else ret (saturating_add (saturating_add (meta_store_time_ns m) duration)
                  (oo_skew_guard_ns (q_opts q)) \<le> floor_ns))))"

text \<open>The gate at the tail: a fail record there that has not run out yet.\<close>

definition still_backing_off :: "hash_fn \<Rightarrow> queue \<Rightarrow> u16 \<Rightarrow> id16 \<Rightarrow> u64 \<Rightarrow> u64 \<Rightarrow> bool op" where
  "still_backing_off H q shard job_id gen floor_ns =
     (let rel = KeyFail shard job_id (ucast gen)
      in and_then spend (\<lambda>_.
         and_then (get_req (absolute q rel)) (\<lambda>r. case r of
           Inr obj \<Rightarrow>
             and_then (decode_op H q rel (obj_body obj)) (\<lambda>record. case record of
               RecordFail f \<Rightarrow> ret (floor_ns < fail_retry_not_before_ns f)
             | _ \<Rightarrow> ret False)
         | Inl e \<Rightarrow> if e = NotFound then ret False else fail (EStore e))))"

definition tail_promotable :: "hash_fn \<Rightarrow> queue \<Rightarrow> u16 \<Rightarrow> id16 \<Rightarrow> u64 \<Rightarrow> bool op" where
  "tail_promotable H q shard job_id floor_ns =
     and_then (claim_tail H q shard job_id) (\<lambda>(gen, m, duration).
       if gen > 0 then
         and_then (still_backing_off H q shard job_id gen floor_ns) (\<lambda>waiting. ret (\<not> waiting))
       else ret True)"

definition job_promotable :: "hash_fn \<Rightarrow> queue \<Rightarrow> u16 \<Rightarrow> id16 \<Rightarrow> u64 \<Rightarrow> bool op" where
  "job_promotable H q shard job_id floor_ns =
     (let rel = KeyJob shard job_id
      in and_then spend (\<lambda>_.
         and_then (get_req (absolute q rel)) (\<lambda>r. case r of
           Inl e \<Rightarrow> if e = NotFound then ret False else fail (EStore e)
         | Inr obj \<Rightarrow>
             and_then (decode_op H q rel (obj_body obj)) (\<lambda>record. case record of
               RecordJob job \<Rightarrow>
                 if (case job_not_before_ns job of Some nb \<Rightarrow> floor_ns < nb | None \<Rightarrow> False) then ret False
                 else tail_promotable H q shard job_id floor_ns
             | _ \<Rightarrow> ret False))))"

section \<open>The sweeps\<close>

text \<open>Errors of the delete are ignored.\<close>

definition paid_delete :: "string \<Rightarrow> unit op" where
  "paid_delete k = and_then spend (\<lambda>_. and_then (delete_req k) (\<lambda>_. ret ()))"

definition sweep_lease :: "hash_fn \<Rightarrow> queue \<Rightarrow> u64 \<Rightarrow> u64 \<Rightarrow> listing \<Rightarrow> sweep_report \<Rightarrow> sweep_report op" where
  "sweep_lease H q floor_ns max_bucket item report =
     (case index_entry q ''leases/'' (item_key item) of
        (None, rest) \<Rightarrow> ret report
      | (Some bucket, rest) \<Rightarrow>
          if bucket > max_bucket then ret report
          else let report = report\<lparr>sw_entries := sw_entries report + 1\<rparr>
               in and_then (of_result (parse_lease_entry rest)) (\<lambda>entry. case entry of
                    None \<Rightarrow> ret report
                  | Some (shard, job_id, gen) \<Rightarrow>
                      and_then (lease_reclaimable H q shard job_id floor_ns) (\<lambda>yes.
                      and_then (paid_delete (item_key item)) (\<lambda>_.
                        ret (if yes then report\<lparr>sw_reclaimed := sw_reclaimed report + 1\<rparr> else report)))))"

definition sweep_expired_leases :: "hash_fn \<Rightarrow> queue \<Rightarrow> u64 \<Rightarrow> sweep_report op" where
  "sweep_expired_leases H q floor_ns =
     (case bucket_number floor_ns (fmt_lease_bucket_width_ns (q_format q)) of
        None \<Rightarrow> fail (EInternal ''zero lease width'')
      | Some max_bucket \<Rightarrow>
          scan_prefix (sweep_lease H q floor_ns max_bucket) (q_root q @ ''leases/'') empty_sweep)"

definition sweep_delay :: "hash_fn \<Rightarrow> queue \<Rightarrow> u64 \<Rightarrow> u64 \<Rightarrow> listing \<Rightarrow> sweep_report \<Rightarrow> sweep_report op" where
  "sweep_delay H q floor_ns max_bucket item report =
     (case index_entry q ''delayed/'' (item_key item) of
        (None, rest) \<Rightarrow> ret report
      | (Some bucket, rest) \<Rightarrow>
          if bucket > max_bucket then ret report
          else let report = report\<lparr>sw_entries := sw_entries report + 1\<rparr>
               in and_then (of_result (parse_delay_entry rest)) (\<lambda>entry. case entry of
                    None \<Rightarrow> ret report
                  | Some (shard, job_id) \<Rightarrow>
                      and_then (job_promotable H q shard job_id floor_ns) (\<lambda>yes.
                      and_then (paid_delete (item_key item)) (\<lambda>_.
                        ret (if yes then report\<lparr>sw_promoted := sw_promoted report + 1\<rparr> else report)))))"

definition sweep_delayed :: "hash_fn \<Rightarrow> queue \<Rightarrow> u64 \<Rightarrow> sweep_report op" where
  "sweep_delayed H q floor_ns =
     (case bucket_number floor_ns (fmt_delayed_bucket_width_ns (q_format q)) of
        None \<Rightarrow> fail (EInternal ''zero delayed width'')
      | Some max_bucket \<Rightarrow>
          scan_prefix (sweep_delay H q floor_ns max_bucket) (q_root q @ ''delayed/'') empty_sweep)"

section \<open>Lemmas: requests\<close>

lemma emits_claim_tail [emits_rules]: "emits_op (harmless p) (claim_tail H q s j)"
  unfolding claim_tail_def
  by (auto simp: Let_def intro!: emits_rules split: option.splits sum.splits stow_record.splits)

lemma emits_lease_reclaimable [emits_rules]: "emits_op (harmless p) (lease_reclaimable H q s j f)"
  unfolding lease_reclaimable_def by (auto intro!: emits_rules)

lemma emits_job_promotable [emits_rules]: "emits_op (harmless p) (job_promotable H q s j f)"
  unfolding job_promotable_def tail_promotable_def still_backing_off_def
  by (auto simp: Let_def intro!: emits_rules split: sum.splits stow_record.splits option.splits)

lemma emits_paid_delete [emits_rules]: "G (ReqDelete k) \<Longrightarrow> emits_op_when A G (paid_delete k)"
  unfolding paid_delete_def by (intro emits_rules)

text \<open>Keys below an index plane are not protected.\<close>

lemma index_not_protected:
  "prefix (q_root q @ m) k \<Longrightarrow> m \<in> set mutable_planes \<Longrightarrow> \<not> protected q k"
  by (auto simp: protected_def list_all_iff)

lemma emits_sweep_expired_leases [emits_rules]:
  "emits_op (harmless (protected q)) (sweep_expired_leases H q f)"
proof -
  have "\<not> protected q (item_key it)" if "prefix (q_root q @ ''leases/'') (item_key it)" for it :: listing
    using index_not_protected [OF that] by (simp add: mutable_planes_def)
  then show ?thesis
    unfolding sweep_expired_leases_def sweep_lease_def
    by (auto simp: Let_def intro!: emits_rules emits_scan_prefix split: option.splits prod.splits)
qed

lemma emits_sweep_delayed [emits_rules]:
  "emits_op (harmless (protected q)) (sweep_delayed H q f)"
proof -
  have "\<not> protected q (item_key it)" if "prefix (q_root q @ ''delayed/'') (item_key it)" for it :: listing
    using index_not_protected [OF that] by (simp add: mutable_planes_def)
  then show ?thesis
    unfolding sweep_delayed_def sweep_delay_def
    by (auto simp: Let_def intro!: emits_rules emits_scan_prefix split: option.splits prod.splits)
qed

section \<open>Lemmas: budget and termination\<close>

lemma within_claim_tail [costs_rules]: "within c (claim_tail H q s j)"
  unfolding claim_tail_def
  by (auto simp: Let_def intro!: within_rules costs_rules split: option.splits sum.splits stow_record.splits)

lemma within_lease_reclaimable [costs_rules]: "within c (lease_reclaimable H q s j f)"
  unfolding lease_reclaimable_def
  by (intro within_unless_present) (auto intro!: within_rules costs_rules split: prod.splits)

lemma within_job_promotable [costs_rules]: "within c (job_promotable H q s j f)"
  unfolding job_promotable_def tail_promotable_def still_backing_off_def
  by (auto simp: Let_def intro!: within_rules costs_rules
    split: sum.splits stow_record.splits option.splits prod.splits)

lemma within_paid_delete [costs_rules]: "within c (paid_delete k)"
  unfolding paid_delete_def by (auto intro!: within_rules costs_rules)

lemma within_sweeps [costs_rules]: "within c (sweep_expired_leases H q f)" "within c (sweep_delayed H q f)"
  unfolding sweep_expired_leases_def sweep_delayed_def
  by (auto split: option.splits intro!: within_scan_prefix costs_rules)
    (auto simp: sweep_lease_def sweep_delay_def Let_def intro!: within_rules costs_rules
      split: option.splits prod.splits)

lemma ends_claim_tail [simp]: "ends n (claim_tail H q s j)"
  unfolding claim_tail_def
  by (auto simp: Let_def intro!: ends_rules split: option.splits sum.splits stow_record.splits)

lemma ends_lease_reclaimable [simp]: "ends n (lease_reclaimable H q s j f)"
  unfolding lease_reclaimable_def by (intro ends_unless_present) (auto intro!: ends_rules split: prod.splits)

lemma ends_job_promotable [simp]: "ends n (job_promotable H q s j f)"
  unfolding job_promotable_def tail_promotable_def still_backing_off_def
  by (auto simp: Let_def intro!: ends_rules split: sum.splits stow_record.splits option.splits prod.splits)

lemma ends_paid_delete [simp]: "ends n (paid_delete k)"
  unfolding paid_delete_def by (auto intro!: ends_rules)

lemma ends_sweeps [simp]: "ends n (sweep_expired_leases H q f)" "ends n (sweep_delayed H q f)"
  unfolding sweep_expired_leases_def sweep_delayed_def
  by (auto split: option.splits intro!: ends_scan_prefix)
    (auto simp: sweep_lease_def sweep_delay_def Let_def intro!: ends_rules split: option.splits prod.splits)

section \<open>Lemmas: index entries are understood\<close>

lemma hex_digits: "list_all (\<lambda>c. hex_digit_value c \<noteq> None) (hex w)"
  unfolding hex_def by (rule push_hex_digits)

lemma from_str_radix_hex:
  fixes w :: "'a::len word"
  assumes "8 dvd LENGTH('a)"
  shows "from_str_radix (hex w) = Some w"
proof -
  have "0 < LENGTH('a) div 8"
    using assms len_gt_0 [where 'a = 'a] by (auto simp del: len_gt_0 elim!: dvdE)
  then have ne: "hex w \<noteq> []"
    by (auto simp flip: length_0_conv)
  then obtain c t where ct: "hex w = c # t"
    by (cases "hex w") auto
  then have "c \<noteq> CHR ''+''"
    using hex_digits [of w] by (auto simp: hex_digit_value_def)
  with ct have "(case hex w of c # t \<Rightarrow> if c = CHR ''+'' \<and> t \<noteq> [] then t else hex w | [] \<Rightarrow> hex w) = hex w"
    by simp
  then show ?thesis
    using from_hex_radix_hex [OF assms, of w] hex_digits [of w] ne
    unfolding from_str_radix_def by (simp add: Let_def)
qed

lemma push_hex_boundary:
  assumes "i \<le> length (push_hex bs)"
  shows "char_boundary (push_hex bs) i"
proof -
  have "\<not> utf8_cont (as_bytes (push_hex bs) ! i)" if "i < length (push_hex bs)"
  proof -
    have "hex_digit_value (push_hex bs ! i) \<noteq> None"
      using push_hex_digits [of bs] that by (simp add: list_all_length)
    then have "(of_char (push_hex bs ! i) :: nat) < 128"
      by (auto simp: hex_digit_value_def Let_def split: if_splits)
    then have "unat (of_char (push_hex bs ! i) :: byte) < 128"
      by (subst of_nat_of_char [symmetric], subst unat_of_nat) simp
    then show ?thesis
      using that by (simp add: as_bytes_def utf8_cont_def word_le_nat_alt)
  qed
  with assms show ?thesis
    by (auto simp: char_boundary_def)
qed

lemma take_push_hex: "k < length bs \<Longrightarrow> take 2 (drop (2 * k) (push_hex bs)) = push_hex [bs ! k]"
proof (induction bs arbitrary: k)
  case (Cons b bs)
  then show ?case
    by (cases k) (auto simp: numeral_2_eq_2)
qed simp

lemma hex_pairs_push_hex: "k \<le> length bs \<Longrightarrow> hex_pairs [k..<length bs] (push_hex bs) = Inr (Some (drop k bs))"
proof (induction "length bs - k" arbitrary: k)
  case (Suc n)
  then have k: "k < length bs" "[k..<length bs] = k # [Suc k..<length bs]"
    by (auto simp: upt_rec)
  have "hex_pairs [Suc k..<length bs] (push_hex bs) = Inr (Some (drop (Suc k) bs))"
    using Suc k by (intro Suc.hyps(1)) auto
  moreover have "from_str_radix (push_hex [bs ! k]) = Some (bs ! k)"
    using from_str_radix_hex [of "bs ! k"] by (simp add: hex_def to_be_bytes_def)
  ultimately show ?case
    using k push_hex_boundary [of "2 * k" bs] push_hex_boundary [of "2 * k + 2" bs]
    by (simp add: take_push_hex sum_bind_def Cons_nth_drop_Suc)
qed simp

lemma parse_job_hex_hex [simp]: "parse_job_hex (hex (j :: id16)) = Inr (Some j)"
proof -
  have "length (to_be_bytes j) = 16"
    by simp
  then have "hex_pairs [0..<16] (hex j) = Inr (Some (to_be_bytes j))"
    using hex_pairs_push_hex [of 0 "to_be_bytes j"] by (simp add: hex_def)
  then show ?thesis
    by (simp add: parse_job_hex_def sum_bind_def from_to_be_bytes)
qed

lemma index_entry_absolute:
  assumes "show_key rel = plane @ hex (b :: u64) @ CHR ''/'' # rest"
  shows "index_entry q plane (absolute q rel) = (Some b, rest)"
proof -
  have "split_once (CHR ''/'') (hex b @ CHR ''/'' # rest) = Some (hex b, rest)"
    by (simp add: split_once_Some_iff)
  then show ?thesis
    using assms from_str_radix_hex [of b]
    by (simp add: index_entry_def absolute_def strip_prefix_def Let_def)
qed

lemma sweep_entries_understood:
  "index_entry q ''leases/'' (absolute q (KeyLeaseIndex b s j g)) = (Some b, hex s @ ''/'' @ hex j @ ''.'' @ hex g)"
  "parse_lease_entry (hex s @ ''/'' @ hex j @ ''.'' @ hex g) = Inr (Some (s, j, g))"
  "index_entry q ''delayed/'' (absolute q (KeyDelayIndex b s j)) = (Some b, hex s @ ''/'' @ hex j)"
  "parse_delay_entry (hex s @ ''/'' @ hex j) = Inr (Some (s, j))"
  "parse_term_entry (show_key (KeyTermIndex b k s j)) = Inr (Some (as_char k, s, j))"
proof -
  have once: "split_once (CHR ''/'') (hex w @ CHR ''/'' # t) = Some (hex w, t)" for w :: "'w::len word" and t
    by (simp add: split_once_Some_iff)
  have "split_once (CHR ''.'') (rev (hex j @ CHR ''.'' # hex g)) = Some (rev (hex g), rev (hex j))"
    by (simp add: split_once_Some_iff)
  then have dot: "rsplit_once (CHR ''.'') (hex j @ CHR ''.'' # hex g) = Some (hex j, hex g)"
    by (simp add: rsplit_once_def)
  show "parse_lease_entry (hex s @ ''/'' @ hex j @ ''.'' @ hex g) = Inr (Some (s, j, g))"
    using from_str_radix_hex [of s] from_str_radix_hex [of g]
    by (simp add: parse_lease_entry_def once dot sum_bind_def)
  show "parse_delay_entry (hex s @ ''/'' @ hex j) = Inr (Some (s, j))"
    using from_str_radix_hex [of s] by (simp add: parse_delay_entry_def once sum_bind_def)
  show "parse_term_entry (show_key (KeyTermIndex b k s j)) = Inr (Some (as_char k, s, j))"
    using from_str_radix_hex [of s]
    by (cases k) (simp_all add: parse_term_entry_def strip_prefix_def four_parts_def once as_char_def sum_bind_def)
qed (simp_all add: index_entry_absolute)

end
