(* ===== verification/Queue_Gc.thy ===== *)
theory Queue_Gc
  imports Queue_Sweep
begin

text \<open>
  Retention (\<open>stowq-core\<close>, \<open>gc\<close> and \<open>delete_terminal_graph\<close>): orphan payloads, orphan claims,
  stale beacons, and the graphs of jobs whose terminal record is older than the retention period,
  deleted in a fixed order with the terminal record last.
\<close>

section \<open>The operations\<close>

record gc_report =
  gc_jobs_deleted :: nat
  gc_claim_orphans_deleted :: nat
  gc_beacons_deleted :: nat
  gc_orphans_deleted :: nat

definition empty_gc :: gc_report where
  "empty_gc = \<lparr>gc_jobs_deleted = 0, gc_claim_orphans_deleted = 0, gc_beacons_deleted = 0, gc_orphans_deleted = 0\<rparr>"

definition rel_of :: "queue \<Rightarrow> string \<Rightarrow> key option" where
  "rel_of q k = (case strip_prefix (q_root q) k of
     None \<Rightarrow> None
   | Some s \<Rightarrow> (case parse_key s of Inr rel \<Rightarrow> Some rel | Inl _ \<Rightarrow> None))"

text \<open>Both orphan passes end alike: with the job proven absent and the store time of the object
  unchanged since the listing, the object is deleted and counted.\<close>

definition reap_orphan :: "string \<Rightarrow> listing \<Rightarrow> 'r \<Rightarrow> 'r \<Rightarrow> 'r op" where
  "reap_orphan job_key item counted report =
     and_then spend (\<lambda>_.
     and_then (head_req job_key) (\<lambda>r. case r of
       Inr _ \<Rightarrow> ret report
     | Inl e \<Rightarrow>
         if e = NotFound then
           and_then spend (\<lambda>_.
           and_then (head_req (item_key item)) (\<lambda>r'. case r' of
             Inr now \<Rightarrow>
               if meta_store_time_ns now = meta_store_time_ns (item_meta item)
               then and_then (paid_delete (item_key item)) (\<lambda>_. ret counted)
               else ret report
           | Inl e \<Rightarrow> if e = NotFound then ret counted else fail (EStore e)))
         else fail (EStore e)))"

definition gc_payload :: "hash_fn \<Rightarrow> queue \<Rightarrow> u64 \<Rightarrow> listing \<Rightarrow> gc_report \<Rightarrow> gc_report op" where
  "gc_payload H q cutoff item report =
     (if meta_store_time_ns (item_meta item) \<ge> cutoff then ret report
      else case rel_of q (item_key item) of
        Some (KeyPayload job_id digest) \<Rightarrow>
          (case compute_shard H (queue_id q) job_id (fmt_shard_count (q_format q)) of
             None \<Rightarrow> fail Panic
           | Some shard \<Rightarrow>
               reap_orphan (absolute q (KeyJob shard job_id)) item
                 (report\<lparr>gc_orphans_deleted := gc_orphans_deleted report + 1\<rparr>) report)
      | _ \<Rightarrow> ret report)"

definition gc_claim :: "queue \<Rightarrow> u64 \<Rightarrow> listing \<Rightarrow> gc_report \<Rightarrow> gc_report op" where
  "gc_claim q cutoff item report =
     (if meta_store_time_ns (item_meta item) \<ge> cutoff then ret report
      else case rel_of q (item_key item) of
        Some (KeyClaim shard job_id gen) \<Rightarrow>
          reap_orphan (absolute q (KeyJob shard job_id)) item
            (report\<lparr>gc_claim_orphans_deleted := gc_claim_orphans_deleted report + 1\<rparr>) report
      | _ \<Rightarrow> ret report)"

definition gc_beacon :: "u64 \<Rightarrow> listing \<Rightarrow> gc_report \<Rightarrow> gc_report op" where
  "gc_beacon cutoff item report =
     (if meta_store_time_ns (item_meta item) < cutoff
      then and_then (paid_delete (item_key item)) (\<lambda>_.
             ret (report\<lparr>gc_beacons_deleted := gc_beacons_deleted report + 1\<rparr>))
      else ret report)"

definition delete_under :: "string \<Rightarrow> unit op" where
  "delete_under p = scan_prefix (\<lambda>item _. paid_delete (item_key item)) p ()"

definition delete_containing :: "string \<Rightarrow> string \<Rightarrow> unit op" where
  "delete_containing s p =
     scan_prefix (\<lambda>item _. if sublist s (item_key item) then paid_delete (item_key item) else ret ()) p ()"

text \<open>Everything of the graph before its terminal record.\<close>

definition delete_members :: "queue \<Rightarrow> u16 \<Rightarrow> id16 \<Rightarrow> string \<Rightarrow> unit op" where
  "delete_members q shard job_id index_key =
     (let slice = ''/'' @ hex shard @ ''/'' @ hex job_id
      in and_then (delete_containing slice (q_root q @ ''leases/'')) (\<lambda>_.
         and_then (delete_containing slice (q_root q @ ''delayed/'')) (\<lambda>_.
         and_then (paid_delete index_key) (\<lambda>_.
         and_then (paid_delete (absolute q (KeyTail shard job_id))) (\<lambda>_.
         and_then (delete_under (q_root q @ ''fails/'' @ hex shard @ ''/'' @ hex job_id @ ''/'')) (\<lambda>_.
         and_then (delete_under (q_root q @ ''claims/'' @ hex shard @ ''/'' @ hex job_id @ ''/'')) (\<lambda>_.
         and_then (delete_under (q_root q @ ''payloads/'' @ hex job_id @ ''/'')) (\<lambda>_.
           paid_delete (absolute q (KeyJob shard job_id))))))))))"

definition delete_terminal_graph :: "queue \<Rightarrow> u16 \<Rightarrow> id16 \<Rightarrow> key \<Rightarrow> string \<Rightarrow> bool op" where
  "delete_terminal_graph q shard job_id terminal_rel index_key =
     and_then (delete_members q shard job_id index_key) (\<lambda>_.
     and_then (paid_delete (absolute q terminal_rel)) (\<lambda>_. ret True))"

definition gc_terminal :: "queue \<Rightarrow> u64 \<Rightarrow> listing \<Rightarrow> gc_report \<Rightarrow> gc_report op" where
  "gc_terminal q cutoff item report =
     (let rel_str = (case strip_prefix (q_root q) (item_key item) of Some s \<Rightarrow> s | None \<Rightarrow> [])
      in and_then (of_result (parse_term_entry rel_str)) (\<lambda>entry. case entry of
           None \<Rightarrow> ret report
         | Some (kind, shard, job_id) \<Rightarrow>
             let terminal_rel = (if kind = CHR ''r'' then KeyReceipt shard job_id else KeyDead shard job_id)
             in and_then spend (\<lambda>_.
                and_then (head_req (absolute q terminal_rel)) (\<lambda>r. case r of
                  Inl e \<Rightarrow>
                    if e = NotFound then and_then (paid_delete (item_key item)) (\<lambda>_. ret report)
                    else fail (EStore e)
                | Inr m \<Rightarrow>
                    if meta_store_time_ns m \<ge> cutoff then ret report
                    else and_then (delete_terminal_graph q shard job_id terminal_rel (item_key item)) (\<lambda>yes.
                           ret (if yes then report\<lparr>gc_jobs_deleted := gc_jobs_deleted report + 1\<rparr>
                                else report))))))"

definition gc :: "hash_fn \<Rightarrow> queue \<Rightarrow> u64 \<Rightarrow> u64 \<Rightarrow> u64 \<Rightarrow> gc_report op" where
  "gc H q now_ns retention_ns orphan_horizon_ns =
     (let cutoff = saturating_sub now_ns retention_ns;
          orphan_cutoff = saturating_sub now_ns orphan_horizon_ns;
          beacon_cutoff = saturating_sub now_ns (saturating_mul FLOOR_STALENESS_NS 10)
      in and_then (scan_prefix (gc_payload H q orphan_cutoff) (q_root q @ ''payloads/'') empty_gc) (\<lambda>report.
         and_then (scan_prefix (gc_claim q orphan_cutoff) (q_root q @ ''claims/'') report) (\<lambda>report.
         and_then (scan_prefix (gc_beacon beacon_cutoff) (q_root q @ ''meta/clock/'') report) (\<lambda>report.
           scan_prefix (gc_terminal q cutoff) (q_root q @ ''termidx/'') report))))"

section \<open>Lemmas: budget and termination\<close>

lemma within_reap_orphan [costs_rules]: "within c (reap_orphan k item r r')"
  unfolding reap_orphan_def by (auto intro!: within_rules costs_rules split: sum.splits)

lemma within_delete_under [costs_rules]: "within c (delete_under p)"
  unfolding delete_under_def by (intro within_scan_prefix costs_rules)

lemma within_delete_containing [costs_rules]: "within c (delete_containing s p)"
  unfolding delete_containing_def by (intro within_scan_prefix within_if costs_rules)

lemma within_delete_terminal_graph [costs_rules]: "within c (delete_terminal_graph q s j rel k)"
  unfolding delete_terminal_graph_def delete_members_def Let_def
  by (auto intro!: within_rules costs_rules)

lemma within_gc_items [costs_rules]:
  "within c (gc_payload H q cutoff item report)" "within c (gc_claim q cutoff item report)"
  "within c (gc_beacon cutoff item report)"
  by (auto simp: gc_payload_def gc_claim_def gc_beacon_def intro!: within_rules costs_rules
    split: option.splits key.splits)

lemma within_gc_terminal [costs_rules]: "within c (gc_terminal q cutoff item report)"
  unfolding gc_terminal_def Let_def
  by (auto intro!: within_rules costs_rules split: option.splits sum.splits prod.splits)

lemma within_gc [costs_rules]: "within c (gc H q now retention horizon)"
  unfolding gc_def Let_def by (intro within_then within_scan_prefix costs_rules)

lemma ends_reap_orphan [simp]: "ends n (reap_orphan k item r r')"
  unfolding reap_orphan_def by (auto intro!: ends_rules split: sum.splits)

lemma ends_delete_under [simp]: "ends n (delete_under p)"
  unfolding delete_under_def by (intro ends_scan_prefix) simp

lemma ends_delete_containing [simp]: "ends n (delete_containing s p)"
  unfolding delete_containing_def by (intro ends_scan_prefix) simp

lemma ends_delete_terminal_graph [simp]: "ends n (delete_terminal_graph q s j rel k)"
  unfolding delete_terminal_graph_def delete_members_def Let_def by (auto intro!: ends_rules)

lemma ends_gc_items [simp]:
  "ends n (gc_payload H q cutoff item report)" "ends n (gc_claim q cutoff item report)"
  "ends n (gc_beacon cutoff item report)"
  by (auto simp: gc_payload_def gc_claim_def gc_beacon_def intro!: ends_rules split: option.splits key.splits)

lemma ends_gc_terminal [simp]: "ends n (gc_terminal q cutoff item report)"
  unfolding gc_terminal_def Let_def
  by (auto intro!: ends_rules split: option.splits sum.splits prod.splits)

lemma ends_gc [simp]: "ends n (gc H q now retention horizon)"
  unfolding gc_def Let_def by (intro ends_then ends_scan_prefix) simp_all

section \<open>Lemmas: what is deleted\<close>

lemma prefix_hex_then [simp]:
  "prefix (hex (v :: 'a::len word) @ xs) (hex (w :: 'a word) @ ys) \<longleftrightarrow> hex v = hex w \<and> prefix xs ys"
  by (auto simp: prefix_def append_eq_append_conv)

lemma prefix_hex_longer [simp]: "\<not> prefix (hex (v :: 'a::len word) @ c # xs) (hex (w :: 'a word))"
  by (auto dest: prefix_length_le)

lemma rel_of_Some: "rel_of q k = Some rel \<Longrightarrow> k = absolute q rel"
  by (auto simp: rel_of_def strip_prefix_Some_iff parse_key_Inr_iff absolute_def split: option.splits sum.splits)

lemma emits_delete_under:
  assumes "\<And>k. prefix p k \<Longrightarrow> G (ReqDelete k)" "\<And>a. G (ReqList p a 64)"
  shows "emits_op_when A G (delete_under p)"
  unfolding delete_under_def using assms by (intro emits_scan_prefix emits_paid_delete)

lemma emits_delete_containing:
  assumes "\<And>k. prefix p k \<Longrightarrow> G (ReqDelete k)" "\<And>a. G (ReqList p a 64)"
  shows "emits_op_when A G (delete_containing s p)"
  unfolding delete_containing_def using assms by (intro emits_scan_prefix emits_op_if emits_op_ret emits_paid_delete)

text \<open>The members of a graph lie in fixed planes.\<close>

lemma emits_delete_members:
  assumes "\<And>k. prefix (q_root q @ ''leases/'') k \<or> prefix (q_root q @ ''delayed/'') k
      \<or> prefix (q_root q @ ''fails/'' @ hex s @ ''/'' @ hex j @ ''/'') k
      \<or> prefix (q_root q @ ''claims/'' @ hex s @ ''/'' @ hex j @ ''/'') k
      \<or> prefix (q_root q @ ''payloads/'' @ hex j @ ''/'') k \<Longrightarrow> \<not> prot k"
    and "\<not> prot index_key" "\<not> prot (absolute q (KeyTail s j))" "\<not> prot (absolute q (KeyJob s j))"
  shows "emits_op_when A (prunes prot) (delete_members q s j index_key)"
  unfolding delete_members_def Let_def
  by (intro emits_op_then emits_delete_containing emits_delete_under emits_paid_delete)
    (auto simp: assms)

end
