(* ===== verification/Gc_Safety.thy ===== *)
theory Gc_Safety
  imports Queue_Gc
begin

text \<open>
  What retention leaves alone: the outputs of the application, the quarantine, the format and the
  watermark always; the whole graph of a job that is present and has no terminal record older
  than the retention period; and the terminal record until everything else of its graph has been
  asked to go.
\<close>

section \<open>Planes that retention never touches\<close>

definition kept :: "queue \<Rightarrow> string \<Rightarrow> bool" where
  "kept q k \<longleftrightarrow> prefix (q_root q @ ''outputs/'') k \<or> prefix (q_root q @ ''quarantine/'') k
     \<or> k = absolute q KeyFormat \<or> k = absolute q KeyWatermark"

text \<open>The objects of one job.\<close>

definition in_graph :: "queue \<Rightarrow> u16 \<Rightarrow> id16 \<Rightarrow> string \<Rightarrow> bool" where
  "in_graph q s j k \<longleftrightarrow>
     k \<in> {absolute q (KeyJob s j), absolute q (KeyReceipt s j), absolute q (KeyDead s j)}
     \<or> prefix (q_root q @ ''claims/'' @ hex s @ ''/'' @ hex j @ ''/'') k
     \<or> prefix (q_root q @ ''fails/'' @ hex s @ ''/'' @ hex j @ ''/'') k
     \<or> prefix (q_root q @ ''payloads/'' @ hex j @ ''/'') k"

lemma prefix_clash: "prefix a k \<Longrightarrow> \<not> prefix a b \<Longrightarrow> \<not> prefix b a \<Longrightarrow> \<not> prefix b k"
  using prefix_same_cases by blast

lemma plane_not_kept:
  assumes "prefix (q_root q @ m) k"
    "m \<in> {''leases/'', ''delayed/'', ''termidx/'', ''meta/clock/'', ''payloads/'', ''claims/'', ''fails/''}"
  shows "\<not> kept q k"
  using assms prefix_clash [OF assms(1), of "q_root q @ ''outputs/''"]
    prefix_clash [OF assms(1), of "q_root q @ ''quarantine/''"]
  by (auto simp: kept_def absolute_def)

lemma index_not_in_graph:
  assumes "prefix (q_root q @ m) k" "m \<in> {''leases/'', ''delayed/'', ''termidx/'', ''meta/clock/''}"
  shows "\<not> in_graph q s j k"
proof -
  have "\<not> prefix (q_root q @ b) k" if "b \<noteq> []" "hd b \<notin> set [CHR ''l'', CHR ''d'', CHR ''t'', CHR ''m'']" for b
    by (rule prefix_clash [OF assms(1)]) (use assms(2) that in \<open>cases b; auto\<close>)+
  then show ?thesis
    using assms by (auto simp: in_graph_def absolute_def)
qed

lemma other_slice_not_in_graph:
  fixes s' :: u16
  assumes "j' \<noteq> j"
    and "prefix (q_root q @ ''fails/'' @ hex s' @ ''/'' @ hex j' @ ''/'') k
      \<or> prefix (q_root q @ ''claims/'' @ hex s' @ ''/'' @ hex j' @ ''/'') k
      \<or> prefix (q_root q @ ''payloads/'' @ hex j' @ ''/'') k"
  shows "\<not> in_graph q s j k"
  using assms(2)
proof (elim disjE)
  assume k: "prefix (q_root q @ ''fails/'' @ hex s' @ ''/'' @ hex j' @ ''/'') k"
  show ?thesis
    using prefix_clash [OF k, of "q_root q @ ''claims/'' @ hex s @ ''/'' @ hex j @ ''/''"]
      prefix_clash [OF k, of "q_root q @ ''fails/'' @ hex s @ ''/'' @ hex j @ ''/''"]
      prefix_clash [OF k, of "q_root q @ ''payloads/'' @ hex j @ ''/''"] k assms(1)
    by (auto simp: in_graph_def absolute_def)
next
  assume k: "prefix (q_root q @ ''claims/'' @ hex s' @ ''/'' @ hex j' @ ''/'') k"
  show ?thesis
    using prefix_clash [OF k, of "q_root q @ ''claims/'' @ hex s @ ''/'' @ hex j @ ''/''"]
      prefix_clash [OF k, of "q_root q @ ''fails/'' @ hex s @ ''/'' @ hex j @ ''/''"]
      prefix_clash [OF k, of "q_root q @ ''payloads/'' @ hex j @ ''/''"] k assms(1)
    by (auto simp: in_graph_def absolute_def)
next
  assume k: "prefix (q_root q @ ''payloads/'' @ hex j' @ ''/'') k"
  show ?thesis
    using prefix_clash [OF k, of "q_root q @ ''claims/'' @ hex s @ ''/'' @ hex j @ ''/''"]
      prefix_clash [OF k, of "q_root q @ ''fails/'' @ hex s @ ''/'' @ hex j @ ''/''"]
      prefix_clash [OF k, of "q_root q @ ''payloads/'' @ hex j @ ''/''"] k assms(1)
    by (auto simp: in_graph_def absolute_def)
qed

lemma keys_not_in_graph [simp]:
  "\<not> in_graph q s j (absolute q (KeyTail s' j'))"
  "in_graph q s j (absolute q (KeyJob s' j')) \<longleftrightarrow> s' = s \<and> j' = j"
  "in_graph q s j (absolute q (KeyReceipt s' j')) \<longleftrightarrow> s' = s \<and> j' = j"
  "in_graph q s j (absolute q (KeyDead s' j')) \<longleftrightarrow> s' = s \<and> j' = j"
  "in_graph q s j (absolute q (KeyPayload j' d)) \<longleftrightarrow> j' = j"
  "in_graph q s j (absolute q (KeyClaim s' j' g)) \<longleftrightarrow> s' = s \<and> j' = j"
  by (auto simp: in_graph_def absolute_def)

lemma keys_not_kept [simp]:
  "\<not> kept q (absolute q (KeyTail s' j'))" "\<not> kept q (absolute q (KeyJob s' j'))"
  "\<not> kept q (absolute q (KeyReceipt s' j'))" "\<not> kept q (absolute q (KeyDead s' j'))"
  by (auto simp: kept_def absolute_def)

section \<open>The passes\<close>

lemma emits_reap_orphan:
  assumes "(\<exists>r. A job_key r \<and> r = Inl NotFound) \<Longrightarrow> \<not> prot (item_key item)"
  shows "emits_op_when A (prunes prot) (reap_orphan job_key item r r')"
  unfolding reap_orphan_def
  by (intro emits_op_then [OF emits_op_handle(5)] emits_op_head)
    (use assms in \<open>auto intro!: emits_rules split: sum.splits\<close>)

text \<open>The protected keys, the answers about metadata and the cutoff fit together.\<close>

locale retained =
  fixes H :: hash_fn and q :: queue and prot :: "string \<Rightarrow> bool"
    and A :: "string \<Rightarrow> meta store_result \<Rightarrow> bool" and cutoff :: u64
  assumes indexes: "\<And>m k. prefix (q_root q @ m) k \<Longrightarrow>
      m \<in> {''leases/'', ''delayed/'', ''termidx/'', ''meta/clock/''} \<Longrightarrow> \<not> prot k"
    and tails: "\<And>s j. \<not> prot (absolute q (KeyTail s j))"
    and payloads: "\<And>j d s. compute_shard H (queue_id q) j (fmt_shard_count (q_format q)) = Some s \<Longrightarrow>
      A (absolute q (KeyJob s j)) (Inl NotFound) \<Longrightarrow> \<not> prot (absolute q (KeyPayload j d))"
    and claims: "\<And>s j g. A (absolute q (KeyJob s j)) (Inl NotFound) \<Longrightarrow> \<not> prot (absolute q (KeyClaim s j g))"
    and graphs: "\<And>s j t m k. t \<in> {KeyReceipt s j, KeyDead s j} \<Longrightarrow> A (absolute q t) (Inr m) \<Longrightarrow>
      meta_store_time_ns m < cutoff \<Longrightarrow>
      k \<in> {absolute q t, absolute q (KeyJob s j)}
      \<or> prefix (q_root q @ ''fails/'' @ hex s @ ''/'' @ hex j @ ''/'') k
      \<or> prefix (q_root q @ ''claims/'' @ hex s @ ''/'' @ hex j @ ''/'') k
      \<or> prefix (q_root q @ ''payloads/'' @ hex j @ ''/'') k \<Longrightarrow> \<not> prot k"
begin

lemma emits_gc_payload:
  "emits_op_when A (prunes prot) (gc_payload H q horizon item report)"
  unfolding gc_payload_def using payloads
  by (auto dest: rel_of_Some intro!: emits_rules emits_reap_orphan split: option.splits key.splits)

lemma emits_gc_claim: "emits_op_when A (prunes prot) (gc_claim q horizon item report)"
  unfolding gc_claim_def using claims
  by (auto dest: rel_of_Some intro!: emits_rules emits_reap_orphan split: option.splits key.splits)

lemma emits_gc_beacon:
  "prefix (q_root q @ ''meta/clock/'') (item_key item) \<Longrightarrow>
    emits_op_when A (prunes prot) (gc_beacon horizon item report)"
  unfolding gc_beacon_def using indexes [of "''meta/clock/''" "item_key item"] by (auto intro!: emits_rules)

lemma emits_graph:
  assumes "t \<in> {KeyReceipt s j, KeyDead s j}" "A (absolute q t) (Inr m)" "meta_store_time_ns m < cutoff"
    and "\<not> prot index_key"
  shows "emits_op_when A (prunes prot) (delete_terminal_graph q s j t index_key)"
proof -
  note g = graphs [OF assms(1-3)]
  have members: "\<not> prot k" if "prefix (q_root q @ ''leases/'') k \<or> prefix (q_root q @ ''delayed/'') k
      \<or> prefix (q_root q @ ''fails/'' @ hex s @ ''/'' @ hex j @ ''/'') k
      \<or> prefix (q_root q @ ''claims/'' @ hex s @ ''/'' @ hex j @ ''/'') k
      \<or> prefix (q_root q @ ''payloads/'' @ hex j @ ''/'') k" for k
    using that g [of k] indexes [of "''leases/''" k] indexes [of "''delayed/''" k] by auto
  have "\<not> prot (absolute q (KeyJob s j))" "\<not> prot (absolute q t)"
    using g [of "absolute q (KeyJob s j)"] g [of "absolute q t"] by auto
  then show ?thesis
    unfolding delete_terminal_graph_def
    by (intro emits_op_then emits_delete_members [OF members] emits_paid_delete emits_op_ret)
      (simp_all add: tails assms(4))
qed

lemma emits_gc_terminal:
  assumes "prefix (q_root q @ ''termidx/'') (item_key item)"
  shows "emits_op_when A (prunes prot) (gc_terminal q cutoff item report)"
proof -
  have item: "\<not> prot (item_key item)"
    using assms indexes by blast
  have "emits_op_when A (prunes prot) (and_then (head_req (absolute q t)) (\<lambda>r. case r of
        Inl e \<Rightarrow> if e = NotFound then and_then (paid_delete (item_key item)) (\<lambda>_. ret report) else fail (EStore e)
      | Inr m \<Rightarrow> if meta_store_time_ns m \<ge> cutoff then ret report
          else and_then (delete_terminal_graph q s j t (item_key item)) (\<lambda>yes.
            ret (if yes then report\<lparr>gc_jobs_deleted := gc_jobs_deleted report + 1\<rparr> else report))))"
    if "t \<in> {KeyReceipt s j, KeyDead s j}" for s j t
    by (rule emits_op_head)
      (auto intro!: emits_rules emits_graph [OF that] item split: sum.splits simp: not_le)
  then show ?thesis
    unfolding gc_terminal_def Let_def
    by (auto intro!: emits_op_then [OF emits_op_of_result] emits_op_then [OF emits_op_handle(5)] emits_op_ret
      split: option.splits prod.splits)
qed

lemma emits_gc:
  assumes "cutoff = saturating_sub now retention"
  shows "emits_op_when A (prunes prot) (gc H q now retention horizon)"
  unfolding gc_def Let_def assms [symmetric]
  by (intro emits_op_then emits_scan_prefix emits_gc_payload emits_gc_claim emits_gc_beacon emits_gc_terminal)
    simp_all

end

section \<open>Live jobs\<close>

text \<open>The graph of a job in its shard, and what the store says about it: the job is present, and no
  terminal record for it is older than the cutoff.\<close>

definition live_graph :: "hash_fn \<Rightarrow> queue \<Rightarrow> u16 \<Rightarrow> id16 \<Rightarrow> string \<Rightarrow> bool" where
  "live_graph H q s j k \<longleftrightarrow>
     compute_shard H (queue_id q) j (fmt_shard_count (q_format q)) = Some s \<and> in_graph q s j k"

definition terminal_keys :: "queue \<Rightarrow> id16 \<Rightarrow> string set" where
  "terminal_keys q j = {k. \<exists>s. k = absolute q (KeyReceipt s j) \<or> k = absolute q (KeyDead s j)}"

definition live_job :: "hash_fn \<Rightarrow> queue \<Rightarrow> u16 \<Rightarrow> id16 \<Rightarrow> u64 \<Rightarrow> contents \<Rightarrow> bool" where
  "live_job H q s j cutoff c \<longleftrightarrow>
     compute_shard H (queue_id q) j (fmt_shard_count (q_format q)) = Some s
     \<and> c (absolute q (KeyJob s j)) \<noteq> None
     \<and> (\<forall>k obj. k \<in> terminal_keys q j \<longrightarrow> c k = Some obj \<longrightarrow> cutoff \<le> meta_store_time_ns (obj_meta obj))"

definition live_answer :: "queue \<Rightarrow> u16 \<Rightarrow> id16 \<Rightarrow> u64 \<Rightarrow> string \<Rightarrow> meta store_result \<Rightarrow> bool" where
  "live_answer q s j cutoff k r \<longleftrightarrow> (k = absolute q (KeyJob s j) \<longrightarrow> r \<noteq> Inl NotFound)
     \<and> (\<forall>m. k \<in> terminal_keys q j \<longrightarrow> r = Inr m \<longrightarrow> cutoff \<le> meta_store_time_ns m)"

lemma live_answer_head: "live_job H q s j cutoff c \<Longrightarrow> head_ans c k r \<Longrightarrow> live_answer q s j cutoff k r"
  by (auto simp: live_job_def live_answer_def head_ans_def split: sum.splits)

interpretation live_gc: retained H q "live_graph H q s j" "live_answer q s j cutoff" cutoff
  for H q s j cutoff
proof unfold_locales
  fix s' j' t m k
  assume t: "t \<in> {KeyReceipt s' j', KeyDead s' j'}" "live_answer q s j cutoff (absolute q t) (Inr m)"
    "meta_store_time_ns m < cutoff"
    and k: "k \<in> {absolute q t, absolute q (KeyJob s' j')}
      \<or> prefix (q_root q @ ''fails/'' @ hex s' @ ''/'' @ hex j' @ ''/'') k
      \<or> prefix (q_root q @ ''claims/'' @ hex s' @ ''/'' @ hex j' @ ''/'') k
      \<or> prefix (q_root q @ ''payloads/'' @ hex j' @ ''/'') k"
  have j: "j' \<noteq> j"
    using t by (auto simp: live_answer_def terminal_keys_def)
  then show "\<not> live_graph H q s j k"
    using k t(1) other_slice_not_in_graph [OF j, of q s' k] by (auto simp: live_graph_def)
qed (auto simp: live_graph_def live_answer_def dest: index_not_in_graph)

interpretation kept_gc: retained H q "kept q" "\<lambda>k r. True" cutoff for H q cutoff
proof unfold_locales
  fix s j t m k
  assume "t \<in> {KeyReceipt s j, KeyDead s j}" "k \<in> {absolute q t, absolute q (KeyJob s j)}
      \<or> prefix (q_root q @ ''fails/'' @ hex s @ ''/'' @ hex j @ ''/'') k
      \<or> prefix (q_root q @ ''claims/'' @ hex s @ ''/'' @ hex j @ ''/'') k
      \<or> prefix (q_root q @ ''payloads/'' @ hex j @ ''/'') k"
  then show "\<not> kept q k"
    using plane_not_kept [of q "''fails/''" k] plane_not_kept [of q "''claims/''" k]
      plane_not_kept [of q "''payloads/''" k] by (auto simp: prefix_def)
qed (auto simp: kept_def absolute_def dest: plane_not_kept)

lemma live_job_prune: "live_job H q s j cutoff c \<Longrightarrow> \<not> live_graph H q s j k \<Longrightarrow> live_job H q s j cutoff (c(k := None))"
  by (auto simp: live_job_def live_graph_def)

text \<open>The terminal record goes last: whatever stops the deletion earlier leaves it in place.\<close>

lemma emits_members_before_terminal:
  assumes "t \<in> {KeyReceipt s j, KeyDead s j}" "index_key \<noteq> absolute q t"
  shows "emits_op (prunes (\<lambda>k. k = absolute q t)) (delete_members q s j index_key)"
  by (rule emits_delete_members) (use assms in \<open>auto simp: absolute_def\<close>)

lemma prunes_harmless: "prunes prot r \<Longrightarrow> harmless prot r"
  by (cases r) simp_all

lemma triple_graph_terminal_last:
  assumes "t \<in> {KeyReceipt s j, KeyDead s j}" "index_key \<noteq> absolute q t"
  shows "triple (\<lambda>k. k = absolute q t) (\<lambda>c. c (absolute q t) = Some obj)
    (delete_terminal_graph q s j t index_key) (\<lambda>x c. x \<noteq> Inr True \<longrightarrow> c (absolute q t) = Some obj)"
proof -
  have "triple (\<lambda>k. k = absolute q t) (\<lambda>c. c (absolute q t) = Some obj)
    (delete_members q s j index_key) (\<lambda>x c. c (absolute q t) = Some obj)"
    by (rule triple_harmless) (auto intro: emits_op_mono [OF emits_members_before_terminal [OF assms]] prunes_harmless)
  then show ?thesis
    unfolding delete_terminal_graph_def paid_delete_def and_then_assoc
    by (rule triple_then) (auto intro!: triple_spend triple_delete triple_ret stays_rules simp: and_then_assoc)
qed

end
