(* ===== verification/Queue_Repair.thy ===== *)
theory Queue_Repair
  imports Queue_Gc
begin

text \<open>
  The repair scan (\<open>stowq-core\<close>: \<open>repair_scan\<close>, \<open>repair_shard\<close>, \<open>audit_claim_chain\<close>,
  \<open>write_quarantine\<close>): it lists a shard, reports violations, writes them as quarantine records when
  the format asks for it, and regenerates missing index entries. The order in which a hash map is
  iterated is the parameter \<open>shuffle\<close>.
\<close>

section \<open>Findings\<close>

datatype finding_kind = KeyGrammar | RecordCorrupt | ClaimWithoutJob | InadmissibleClaim
  | DuplicateTerminal | ChainGap | PayloadMissing

record finding =
  fd_kind :: finding_kind
  fd_key :: string
  fd_reason :: u64

record repair_report =
  rr_shards_scanned :: u32
  rr_jobs_scanned :: nat
  rr_claim_chains_scanned :: nat
  rr_indexes_regenerated :: nat
  rr_findings :: "finding list"

definition empty_repair :: repair_report where
  "empty_repair = \<lparr>rr_shards_scanned = 0, rr_jobs_scanned = 0, rr_claim_chains_scanned = 0,
     rr_indexes_regenerated = 0, rr_findings = []\<rparr>"

definition quarantine_qid :: "hash_fn \<Rightarrow> id16 \<Rightarrow> string \<Rightarrow> u64 \<Rightarrow> id16" where
  "quarantine_qid H qid rel_key reason =
     from_be_bytes (take 16 (to_be_bytes (H (as_bytes ''StowQ-1-qid'' @ [0] @ to_be_bytes qid
       @ as_bytes rel_key @ to_be_bytes reason))))"

definition record_violation_reason :: "record_error \<Rightarrow> u64" where
  "record_violation_reason e = (if e = RecField ''queue binding'' then 4 else 1)"

definition write_quarantine :: "hash_fn \<Rightarrow> queue \<Rightarrow> string \<Rightarrow> u64 \<Rightarrow> u64 \<Rightarrow> u64 option \<Rightarrow> unit op" where
  "write_quarantine H q rel_key reason observed detail =
     (if fmt_required_feature_bits (q_format q) AND 1 = 0 then ret ()
      else let qid = quarantine_qid H (queue_id q) rel_key reason
           in and_then (of_result (ok_or (bucket_number observed (fmt_terminal_bucket_width_ns (q_format q)))
                  (EInternal ''zero terminal width''))) (\<lambda>bucket.
                let rel = KeyQuarantine bucket qid;
                    body = record_bytes H q rel (RecordQuarantine
                      \<lparr>quar_qid = qid, quar_source_key = rel_key, quar_reason = reason,
                       quar_observed_store_ns = observed, quar_detail = detail\<rparr>)
                in put_bytes_resolving (absolute q rel) body (H body)))"

definition push_finding :: "finding_kind \<Rightarrow> string \<Rightarrow> u64 \<Rightarrow> repair_report \<Rightarrow> repair_report" where
  "push_finding kind k reason report =
     report\<lparr>rr_findings := rr_findings report @ [\<lparr>fd_kind = kind, fd_key = k, fd_reason = reason\<rparr>]\<rparr>"

text \<open>A finding and its quarantine record.\<close>

definition report_violation :: "hash_fn \<Rightarrow> queue \<Rightarrow> finding_kind \<Rightarrow> string \<Rightarrow> string \<Rightarrow> u64 \<Rightarrow> u64
    \<Rightarrow> u64 option \<Rightarrow> repair_report \<Rightarrow> repair_report op" where
  "report_violation H q kind k rel_key reason observed detail report =
     and_then (write_quarantine H q rel_key reason observed detail) (\<lambda>_.
       ret (push_finding kind k reason report))"

definition list_authoritative :: "string \<Rightarrow> listing list op" where
  "list_authoritative p = scan_prefix (\<lambda>item out. ret (out @ [item])) p []"

text \<open>The HEAD of \<open>ensure_index\<close> spends no budget.\<close>

definition ensure_index :: "hash_fn \<Rightarrow> string \<Rightarrow> bool op" where
  "ensure_index H idx =
     and_then (head_req idx) (\<lambda>r. case r of
       Inr _ \<Rightarrow> ret False
     | Inl e \<Rightarrow>
         if e = NotFound then
           and_then spend (\<lambda>_. and_then (put_req idx [] (H [])) (\<lambda>_. ret True))
         else fail (EStore e))"

definition regenerate :: "hash_fn \<Rightarrow> string \<Rightarrow> repair_report \<Rightarrow> repair_report op" where
  "regenerate H idx report =
     and_then (ensure_index H idx) (\<lambda>missing.
       ret (if missing then report\<lparr>rr_indexes_regenerated := rr_indexes_regenerated report + 1\<rparr> else report))"

section \<open>The audit of a claim chain\<close>

type_synonym claim_chain = "(u64 \<times> meta) list"

fun audit_gaps :: "hash_fn \<Rightarrow> queue \<Rightarrow> u16 \<Rightarrow> id16 \<Rightarrow> claim_chain \<Rightarrow> repair_report \<Rightarrow> repair_report op" where
  "audit_gaps H q shard job_id ((g, m) # (g', m') # chain) report =
     and_then
       (if g' \<noteq> g + 1 then
          let rel = KeyClaim shard job_id (ucast (g + 1))
          in report_violation H q ChainGap (absolute q rel) (show_key rel) 0x15 (meta_store_time_ns m)
               (Some (g + 1)) report
        else ret report)
       (audit_gaps H q shard job_id ((g', m') # chain))"
| "audit_gaps H q shard job_id chain report = ret report"

definition audit_head :: "hash_fn \<Rightarrow> queue \<Rightarrow> u16 \<Rightarrow> id16 \<Rightarrow> claim_chain \<Rightarrow> repair_report \<Rightarrow> repair_report op" where
  "audit_head H q shard job_id chain report = (case chain of
     [] \<Rightarrow> fail Panic
   | (g, m) # _ \<Rightarrow>
       if g \<noteq> 1 then
         let rel = KeyClaim shard job_id (ucast g)
         in report_violation H q ChainGap (absolute q rel) (show_key rel) 0x15 (meta_store_time_ns m) (Some g) report
       else ret report)"

primrec decode_chain :: "hash_fn \<Rightarrow> queue \<Rightarrow> u16 \<Rightarrow> id16 \<Rightarrow> claim_chain \<Rightarrow> repair_report
    \<Rightarrow> (claim_record option list \<times> repair_report) op" where
  "decode_chain H q shard job_id [] report = ret ([], report)"
| "decode_chain H q shard job_id (gm # chain) report =
     (let rel = KeyClaim shard job_id (ucast (fst gm));
          corrupt = (\<lambda>reason. and_then (report_violation H q RecordCorrupt (absolute q rel) (show_key rel) reason
            (meta_store_time_ns (snd gm)) None report) (\<lambda>report. ret (None, report)))
      in and_then spend (\<lambda>_.
         and_then (get_req (absolute q rel)) (\<lambda>r.
         and_then
           (case r of
              Inr obj \<Rightarrow> (case decode_at H q rel (obj_body obj) of
                Inr (RecordClaim c) \<Rightarrow> ret (Some c, report)
              | Inr _ \<Rightarrow> corrupt 5
              | Inl e \<Rightarrow> corrupt (record_violation_reason e))
            | Inl e \<Rightarrow> if e = NotFound then ret (None, report) else fail (EStore e))
           (\<lambda>(c, report).
         and_then (decode_chain H q shard job_id chain report) (\<lambda>(cs, report). ret (c # cs, report))))))"

definition quarantine_inadmissible :: "hash_fn \<Rightarrow> queue \<Rightarrow> u16 \<Rightarrow> id16 \<Rightarrow> claim_chain \<Rightarrow> u64 \<Rightarrow> repair_report
    \<Rightarrow> repair_report op" where
  "quarantine_inadmissible H q shard job_id chain gen report =
     (let rel = KeyClaim shard job_id (ucast gen);
          observed = (case find (\<lambda>gm. fst gm = gen) chain of Some gm \<Rightarrow> meta_store_time_ns (snd gm) | None \<Rightarrow> 0)
      in report_violation H q InadmissibleClaim (absolute q rel) (show_key rel) 0x10 observed (Some gen) report)"

text \<open>Whether a generation carries the evidence that its predecessor, stored at \<open>prev_time\<close>, requires.\<close>

definition admissible :: "claim_record \<Rightarrow> claim_record \<Rightarrow> u64 \<Rightarrow> bool" where
  "admissible rec prev prev_time \<longleftrightarrow>
     (if claim_continuation rec
      then claim_worker_id rec = claim_worker_id prev \<and> claim_prev_token rec = Some (claim_worker_token prev)
      else case claim_basis_of rec of
        None \<Rightarrow> False
      | Some b \<Rightarrow> basis_prev_store_time_ns b = prev_time
          \<and> basis_prev_duration_ns b = claim_lease_duration_ns prev
          \<and> saturating_add (basis_prev_store_time_ns b) (basis_prev_duration_ns b) \<le> basis_observed_watermark_ns b)"

fun audit_evidence :: "hash_fn \<Rightarrow> queue \<Rightarrow> u16 \<Rightarrow> id16 \<Rightarrow> claim_chain
    \<Rightarrow> ((u64 \<times> meta) \<times> claim_record option) list \<Rightarrow> repair_report \<Rightarrow> repair_report op" where
  "audit_evidence H q shard job_id chain ((gm, prev) # (gm', rec) # rest) report =
     and_then
       (case (rec, prev) of
          (Some c, Some p) \<Rightarrow>
            if admissible c p (meta_store_time_ns (snd gm)) then ret report
            else quarantine_inadmissible H q shard job_id chain (fst gm') report
        | _ \<Rightarrow> ret report)
       (audit_evidence H q shard job_id chain ((gm', rec) # rest))"
| "audit_evidence H q shard job_id chain _ report = ret report"

text \<open>Tail generation, its metadata and lease duration, with the report.\<close>

definition audit_claim_chain :: "hash_fn \<Rightarrow> queue \<Rightarrow> u16 \<Rightarrow> id16 \<Rightarrow> claim_chain \<Rightarrow> repair_report
    \<Rightarrow> ((u64 \<times> meta \<times> u64) \<times> repair_report) op" where
  "audit_claim_chain H q shard job_id chain report =
     (if chain = [] then fail Panic
      else and_then (audit_gaps H q shard job_id chain report) (\<lambda>report.
           and_then (audit_head H q shard job_id chain report) (\<lambda>report.
           and_then (decode_chain H q shard job_id chain report) (\<lambda>(decoded, report).
           and_then (audit_evidence H q shard job_id chain (zip chain decoded) report) (\<lambda>report.
             let (tail_gen, tail_meta) = last chain;
                 duration = (if decoded = [] then 0
                             else case last decoded of Some c \<Rightarrow> claim_lease_duration_ns c | None \<Rightarrow> 0)
             in ret ((tail_gen, tail_meta, duration), report))))))"

section \<open>One shard\<close>

definition stripped_key :: "queue \<Rightarrow> string \<Rightarrow> string" where
  "stripped_key q k = (case strip_prefix (q_root q) k of Some s \<Rightarrow> s | None \<Rightarrow> [])"

definition repair_job_record :: "hash_fn \<Rightarrow> queue \<Rightarrow> u16 \<Rightarrow> listing \<Rightarrow> id16 \<Rightarrow> job_record \<Rightarrow> repair_report
    \<Rightarrow> repair_report op" where
  "repair_job_record H q shard item job_id job report =
     and_then
       (case job_payload_key job of
          None \<Rightarrow> ret report
        | Some pk \<Rightarrow>
            and_then spend (\<lambda>_.
            and_then (head_req (q_root q @ pk)) (\<lambda>r. case r of
              Inr _ \<Rightarrow> ret report
            | Inl e \<Rightarrow>
                if e = NotFound then
                  report_violation H q PayloadMissing (q_root q @ pk) pk 0x14
                    (meta_store_time_ns (item_meta item)) None report
                else fail (EStore e))))
       (\<lambda>report. case job_not_before_ns job of
          None \<Rightarrow> ret report
        | Some nb \<Rightarrow> (case bucket_number nb (fmt_delayed_bucket_width_ns (q_format q)) of
            None \<Rightarrow> ret report
          | Some bucket \<Rightarrow> regenerate H (absolute q (KeyDelayIndex bucket shard job_id)) report))"

text \<open>The GET of a listed job spends no budget.\<close>

definition repair_job :: "hash_fn \<Rightarrow> queue \<Rightarrow> u16 \<Rightarrow> listing \<Rightarrow> id16 list \<times> repair_report
    \<Rightarrow> (id16 list \<times> repair_report) op" where
  "repair_job H q shard item acc =
     (let (job_ids, report) = acc;
          report = report\<lparr>rr_jobs_scanned := rr_jobs_scanned report + 1\<rparr>;
          observed = meta_store_time_ns (item_meta item)
      in case parse_key (stripped_key q (item_key item)) of
           Inr (KeyJob key_shard job_id) \<Rightarrow>
             (let rel = KeyJob shard job_id;
                  corrupt = (\<lambda>reason. report_violation H q RecordCorrupt (item_key item) (show_key rel) reason
                    observed None report)
              in and_then (get_req (absolute q rel)) (\<lambda>r.
                 and_then
                   (case r of
                      Inr obj \<Rightarrow> (case decode_at H q rel (obj_body obj) of
                        Inr (RecordJob job) \<Rightarrow> repair_job_record H q shard item job_id job report
                      | Inr _ \<Rightarrow> corrupt 5
                      | Inl e \<Rightarrow> corrupt (record_violation_reason e))
                    | Inl e \<Rightarrow> if e = NotFound then ret report else fail (EStore e))
                   (\<lambda>report. ret (List.insert job_id job_ids, report))))
         | _ \<Rightarrow>
             and_then (report_violation H q KeyGrammar (item_key item) (stripped_key q (item_key item)) 3
               observed None report) (\<lambda>report. ret (job_ids, report)))"

primrec fold_items :: "('x \<Rightarrow> 'r \<Rightarrow> 'r op) \<Rightarrow> 'x list \<Rightarrow> 'r \<Rightarrow> 'r op" where
  "fold_items f [] r = ret r"
| "fold_items f (x # xs) r = and_then (f x r) (fold_items f xs)"

definition gather_chain :: "hash_fn \<Rightarrow> queue \<Rightarrow> listing \<Rightarrow> (id16 \<times> claim_chain) list \<times> repair_report
    \<Rightarrow> ((id16 \<times> claim_chain) list \<times> repair_report) op" where
  "gather_chain H q item acc =
     (let (chains, report) = acc
      in case rel_of q (item_key item) of
           Some (KeyClaim shard job_id gen) \<Rightarrow>
             ret (AList.map_default job_id [(ucast gen, item_meta item)]
               (\<lambda>chain. chain @ [(ucast gen, item_meta item)]) chains, report)
         | _ \<Rightarrow>
             and_then (report_violation H q KeyGrammar (item_key item) (stripped_key q (item_key item)) 3
               (meta_store_time_ns (item_meta item)) None report) (\<lambda>report. ret (chains, report)))"

definition repair_chain :: "hash_fn \<Rightarrow> queue \<Rightarrow> u16 \<Rightarrow> id16 list \<Rightarrow> id16 \<times> claim_chain \<Rightarrow> repair_report
    \<Rightarrow> repair_report op" where
  "repair_chain H q shard job_ids entry report =
     (let (job_id, chain) = entry;
          report = report\<lparr>rr_claim_chains_scanned := rr_claim_chains_scanned report + 1\<rparr>;
          orphaned = (job_id \<notin> set job_ids);
          job_rel = KeyJob shard job_id;
          report = (if orphaned then push_finding ClaimWithoutJob (absolute q job_rel) 5 report else report)
      in and_then (audit_claim_chain H q shard job_id (sort_key fst chain) report)
           (\<lambda>((tail_gen, tail_meta, duration), report).
         and_then
           (if orphaned
            then write_quarantine H q (show_key job_rel) 5 (meta_store_time_ns tail_meta) None
            else ret ())
           (\<lambda>_. case bucket_number (saturating_add (meta_store_time_ns tail_meta) duration)
                      (fmt_lease_bucket_width_ns (q_format q)) of
              None \<Rightarrow> ret report
            | Some bucket \<Rightarrow>
                regenerate H (absolute q (KeyLeaseIndex bucket shard job_id (ucast tail_gen))) report)))"

definition repair_terminal :: "hash_fn \<Rightarrow> queue \<Rightarrow> u16 \<Rightarrow> listing \<Rightarrow> (id16 \<times> u64) list \<times> repair_report
    \<Rightarrow> ((id16 \<times> u64) list \<times> repair_report) op" where
  "repair_terminal H q shard item acc =
     (let (jobs, report) = acc;
          time = meta_store_time_ns (item_meta item);
          index = (\<lambda>kind job_id. and_then
            (case bucket_number time (fmt_terminal_bucket_width_ns (q_format q)) of
               None \<Rightarrow> ret report
             | Some bucket \<Rightarrow> regenerate H (absolute q (KeyTermIndex bucket kind shard job_id)) report)
            (\<lambda>report. ret (AList.update job_id time jobs, report)))
      in case rel_of q (item_key item) of
           Some (KeyReceipt s job_id) \<Rightarrow> index Receipt job_id
         | Some (KeyDead s job_id) \<Rightarrow> index Dead job_id
         | _ \<Rightarrow>
             and_then (report_violation H q KeyGrammar (item_key item) (stripped_key q (item_key item)) 3
               time None report) (\<lambda>report. ret (jobs, report)))"

definition repair_duplicate :: "hash_fn \<Rightarrow> queue \<Rightarrow> u16 \<Rightarrow> id16 \<times> u64 \<Rightarrow> repair_report \<Rightarrow> repair_report op" where
  "repair_duplicate H q shard entry report =
     (let rel = KeyReceipt shard (fst entry)
      in report_violation H q DuplicateTerminal (absolute q rel) (show_key rel) 7 (snd entry) None report)"

definition list_and_fold :: "(listing \<Rightarrow> 'r \<Rightarrow> 'r op) \<Rightarrow> string \<Rightarrow> 'r \<Rightarrow> 'r op" where
  "list_and_fold f p r = and_then (list_authoritative p) (\<lambda>items. fold_items f items r)"

definition repair_shard :: "hash_fn \<Rightarrow> queue
    \<Rightarrow> ((id16 \<times> claim_chain) list \<Rightarrow> (id16 \<times> claim_chain) list) \<Rightarrow> ((id16 \<times> u64) list \<Rightarrow> (id16 \<times> u64) list)
    \<Rightarrow> u16 \<Rightarrow> repair_report \<Rightarrow> repair_report op" where
  "repair_shard H q shuffle shuffle' shard report =
     and_then (list_and_fold (repair_job H q shard) (q_root q @ ''jobs/'' @ hex shard @ ''/'') ([], report))
       (\<lambda>(job_ids, report).
     and_then (list_and_fold (gather_chain H q) (q_root q @ ''claims/'' @ hex shard @ ''/'') ([], report))
       (\<lambda>(chains, report).
     and_then (fold_items (repair_chain H q shard job_ids) (shuffle chains) report) (\<lambda>report.
     and_then (list_and_fold (repair_terminal H q shard) (q_root q @ ''receipts/'' @ hex shard @ ''/'') ([], report))
       (\<lambda>(receipts, report).
     and_then (list_and_fold (repair_terminal H q shard) (q_root q @ ''dead/'' @ hex shard @ ''/'') ([], report))
       (\<lambda>(dead, report).
       fold_items (repair_duplicate H q shard)
         (filter (\<lambda>entry. fst entry \<in> set (map fst dead)) (shuffle' receipts)) report)))))"

section \<open>The scan\<close>

text \<open>The loop over shards, with the number of shards still to scan.\<close>

primrec repair_loop :: "hash_fn \<Rightarrow> queue
    \<Rightarrow> ((id16 \<times> claim_chain) list \<Rightarrow> (id16 \<times> claim_chain) list) \<Rightarrow> ((id16 \<times> u64) list \<Rightarrow> (id16 \<times> u64) list)
    \<Rightarrow> nat \<Rightarrow> u32 \<Rightarrow> repair_report \<Rightarrow> (repair_report \<times> u32) op" where
  "repair_loop H q shuffle shuffle' 0 shard report = ret (report, shard)"
| "repair_loop H q shuffle shuffle' (Suc left) shard report =
     and_then (repair_shard H q shuffle shuffle' (ucast shard) report) (\<lambda>report.
       let report = report\<lparr>rr_shards_scanned := rr_shards_scanned report + 1\<rparr>
       in and_then get_handle (\<lambda>h.
            if max_ops h \<le> 4 then ret (report, shard + 1)
            else repair_loop H q shuffle shuffle' left (shard + 1) report))"

definition repair_scan :: "hash_fn \<Rightarrow> queue
    \<Rightarrow> ((id16 \<times> claim_chain) list \<Rightarrow> (id16 \<times> claim_chain) list) \<Rightarrow> ((id16 \<times> u64) list \<Rightarrow> (id16 \<times> u64) list)
    \<Rightarrow> u16 \<Rightarrow> (repair_report \<times> u16 option) op" where
  "repair_scan H q shuffle shuffle' start_shard =
     (let count = fmt_shard_count (q_format q)
      in and_then (repair_loop H q shuffle shuffle' (unat count - unat start_shard) (ucast start_shard) empty_repair)
           (\<lambda>(report, next). ret (report, if next < count then Some (ucast next) else None)))"

section \<open>Lemmas: requests\<close>

lemma emits_write_quarantine [emits_rules]: "emits_op (harmless p) (write_quarantine H q k r o' d)"
  unfolding write_quarantine_def Let_def by (auto simp: put_allowed_def intro!: emits_rules)

lemma emits_report_violation [emits_rules]: "emits_op (harmless p) (report_violation H q kd k rk r o' d rep)"
  unfolding report_violation_def by (intro emits_rules)

lemma emits_list_authoritative [emits_rules]: "emits_op (harmless p) (list_authoritative pre)"
  unfolding list_authoritative_def by (intro emits_scan_prefix emits_rules) simp

lemma emits_regenerate [emits_rules]: "emits_op (harmless p) (regenerate H idx rep)"
  unfolding regenerate_def ensure_index_def by (auto intro!: emits_rules split: sum.splits)

lemma emits_audit_gaps [emits_rules]: "emits_op (harmless p) (audit_gaps H q s j chain rep)"
  by (induction H q s j chain rep rule: audit_gaps.induct) (auto simp: Let_def intro!: emits_rules)

lemma emits_audit_head [emits_rules]: "emits_op (harmless p) (audit_head H q s j chain rep)"
  unfolding audit_head_def by (auto simp: Let_def intro!: emits_rules split: list.splits)

lemma emits_decode_chain [emits_rules]: "emits_op (harmless p) (decode_chain H q s j chain rep)"
  by (induction chain arbitrary: rep)
    (auto simp: Let_def intro!: emits_rules split: sum.splits stow_record.splits)

lemma emits_audit_evidence [emits_rules]: "emits_op (harmless p) (audit_evidence H q s j chain xs rep)"
  by (induction H q s j chain xs rep rule: audit_evidence.induct)
    (auto simp: quarantine_inadmissible_def Let_def intro!: emits_rules split: option.splits)

lemma emits_audit_claim_chain [emits_rules]: "emits_op (harmless p) (audit_claim_chain H q s j chain rep)"
  unfolding audit_claim_chain_def Let_def by (auto intro!: emits_rules split: prod.splits)

lemma emits_fold_items [emits_rules]: "(\<And>x r. emits_op_when A G (f x r)) \<Longrightarrow> emits_op_when A G (fold_items f xs r)"
  by (induction xs arbitrary: r) (auto intro!: emits_rules)

lemma emits_list_and_fold [emits_rules]:
  "(\<And>x r. emits_op (harmless p) (f x r)) \<Longrightarrow> emits_op (harmless p) (list_and_fold f pre r)"
  unfolding list_and_fold_def by (intro emits_rules)

lemma emits_repair_job [emits_rules]: "emits_op (harmless p) (repair_job H q s item acc)"
  unfolding repair_job_def repair_job_record_def Let_def
  by (auto intro!: emits_rules split: prod.splits sum.splits key.splits stow_record.splits option.splits)

lemma emits_repair_parts [emits_rules]:
  "emits_op (harmless p) (gather_chain H q item acc)"
  "emits_op (harmless p) (repair_terminal H q s item acc')"
  "emits_op (harmless p) (repair_duplicate H q s entry rep)"
  unfolding gather_chain_def repair_terminal_def repair_duplicate_def Let_def
  by (auto intro!: emits_rules split: prod.splits option.splits key.splits)

lemma emits_repair_chain [emits_rules]: "emits_op (harmless p) (repair_chain H q s ids entry rep)"
  unfolding repair_chain_def Let_def by (auto intro!: emits_rules split: prod.splits option.splits)

lemma emits_repair_shard [emits_rules]: "emits_op (harmless p) (repair_shard H q sh sh' s rep)"
  unfolding repair_shard_def by (auto intro!: emits_rules split: prod.splits)

lemma emits_repair_scan [emits_rules]: "emits_op (harmless p) (repair_scan H q sh sh' s)"
proof -
  have "emits_op (harmless p) (repair_loop H q sh sh' n s rep)" for n s rep
    by (induction n arbitrary: s rep) (auto simp: Let_def intro!: emits_rules)
  then show ?thesis
    unfolding repair_scan_def Let_def by (auto intro!: emits_rules split: prod.splits)
qed

section \<open>Lemmas: termination\<close>

lemma ends_write_quarantine [simp]: "ends n (write_quarantine H q k r o' d)"
  unfolding write_quarantine_def Let_def
  by (auto simp: of_result_def ok_or_def intro!: ends_rules split: option.splits)

lemma ends_report_violation [simp]: "ends n (report_violation H q kd k rk r o' d rep)"
  unfolding report_violation_def by (auto intro!: ends_rules)

lemma ends_list_authoritative [simp]: "ends n (list_authoritative pre)"
  unfolding list_authoritative_def by (intro ends_scan_prefix) simp

lemma ends_regenerate [simp]: "ends n (regenerate H idx rep)"
  unfolding regenerate_def ensure_index_def by (auto intro!: ends_rules split: sum.splits)

lemma ends_audit_gaps [simp]: "ends n (audit_gaps H q s j chain rep)"
  by (induction H q s j chain rep rule: audit_gaps.induct) (auto simp: Let_def intro!: ends_rules)

lemma ends_audit_head [simp]: "ends n (audit_head H q s j chain rep)"
  unfolding audit_head_def by (auto simp: Let_def intro!: ends_rules split: list.splits)

lemma ends_decode_chain [simp]: "ends n (decode_chain H q s j chain rep)"
  by (induction chain arbitrary: rep)
    (auto simp: Let_def intro!: ends_rules split: sum.splits stow_record.splits prod.splits)

lemma ends_audit_evidence [simp]: "ends n (audit_evidence H q s j chain xs rep)"
  by (induction H q s j chain xs rep rule: audit_evidence.induct)
    (auto simp: quarantine_inadmissible_def Let_def intro!: ends_rules split: option.splits)

lemma ends_audit_claim_chain [simp]: "ends n (audit_claim_chain H q s j chain rep)"
  unfolding audit_claim_chain_def Let_def by (auto intro!: ends_rules split: prod.splits)

lemma ends_fold_items: "(\<And>x r. ends n (f x r)) \<Longrightarrow> ends n (fold_items f xs r)"
  by (induction xs arbitrary: r) (auto intro!: ends_rules)

lemma ends_list_and_fold: "(\<And>x r. ends n (f x r)) \<Longrightarrow> ends n (list_and_fold f pre r)"
  unfolding list_and_fold_def by (auto intro!: ends_rules ends_fold_items)

lemma ends_repair_job [simp]: "ends n (repair_job H q s item acc)"
  unfolding repair_job_def repair_job_record_def Let_def
  by (auto intro!: ends_rules split: prod.splits sum.splits key.splits stow_record.splits option.splits)

lemma ends_repair_parts [simp]:
  "ends n (gather_chain H q item acc)" "ends n (repair_terminal H q s item acc')"
  "ends n (repair_duplicate H q s entry rep)"
  unfolding gather_chain_def repair_terminal_def repair_duplicate_def Let_def
  by (auto intro!: ends_rules split: prod.splits option.splits key.splits)

lemma ends_repair_chain [simp]: "ends n (repair_chain H q s ids entry rep)"
  unfolding repair_chain_def Let_def by (auto intro!: ends_rules split: prod.splits option.splits)

lemma ends_repair_shard [simp]: "ends n (repair_shard H q sh sh' s rep)"
  unfolding repair_shard_def
  by (auto intro!: ends_rules ends_fold_items ends_list_and_fold split: prod.splits)

lemma ends_repair_scan [simp]: "ends n (repair_scan H q sh sh' s)"
proof -
  have "ends n (repair_loop H q sh sh' k s rep)" for k s rep
    by (induction k arbitrary: s rep) (auto simp: Let_def intro!: ends_rules)
  then show ?thesis
    unfolding repair_scan_def Let_def by (auto intro!: ends_rules split: prod.splits)
qed

end
