(* ===== verification/Queue_Calls.thy ===== *)
theory Queue_Calls
  imports Gc_Safety Queue_Repair
begin

text \<open>
  The public methods of \<open>Queue\<close> by which producers and workers share a queue as one datatype of calls
  (without \<open>open\<close>, \<open>init\<close>, \<open>gc\<close> and \<open>repair_scan\<close>), and what holds of all of them: the
  requests they may send, the budget they stay within and that their loops end. Histories are
  sequences of calls by any number of workers, each interleaved with the others, on the in-memory
  store behind the fault injector.
\<close>

section \<open>Calls\<close>

datatype call =
    CallEnqueue enqueue_input
  | CallClaim claim_options nat
  | CallRenew claim
  | CallCommit claim string bytes
  | CallAck claim "committed_output list"
  | CallNack claim u64 u64
  | CallBury claim u64
  | CallFloor
  | CallAdvance u64
  | CallWatermark
  | CallDepth u16
  | CallReceipt u16 id16
  | CallSweepLeases u64
  | CallSweepDelayed u64

definition discard :: "'a op \<Rightarrow> unit op" where
  "discard m = and_then m (\<lambda>_. ret ())"

primrec perform :: "hash_fn \<Rightarrow> queue \<Rightarrow> call \<Rightarrow> unit op" where
  "perform H q (CallEnqueue input) = discard (enqueue H q input)"
| "perform H q (CallClaim opts limit) = discard (claim_many H q opts limit)"
| "perform H q (CallRenew cl) = discard (renew H q cl)"
| "perform H q (CallCommit cl name body) = discard (commit_output H q cl name body)"
| "perform H q (CallAck cl outs) = discard (ack_with_outputs H q cl outs)"
| "perform H q (CallNack cl reason floor_ns) = discard (nack H q cl reason floor_ns)"
| "perform H q (CallBury cl reason) = discard (bury H q cl reason)"
| "perform H q CallFloor = discard (establish_floor H q)"
| "perform H q (CallAdvance floor_ns) = discard (advance_watermark H q floor_ns)"
| "perform H q CallWatermark = discard (watermark H q)"
| "perform H q (CallDepth shard) = discard (depth q shard)"
| "perform H q (CallReceipt shard job_id) = discard (receipt_for H q shard job_id)"
| "perform H q (CallSweepLeases floor_ns) = discard (sweep_expired_leases H q floor_ns)"
| "perform H q (CallSweepDelayed floor_ns) = discard (sweep_delayed H q floor_ns)"

lemma emits_discard [emits_rules]: "emits_op_when A G m \<Longrightarrow> emits_op_when A G (discard m)"
  unfolding discard_def by (intro emits_rules)

lemma within_discard [costs_rules]: "(\<And>c. within c m) \<Longrightarrow> within c (discard m)"
  unfolding discard_def by (auto intro!: within_rules costs_rules)

lemma ends_discard: "ends n m \<Longrightarrow> ends n (discard m)"
  unfolding discard_def by (auto intro!: ends_rules)

lemma emits_perform: "emits_op (harmless (protected q)) (perform H q call)"
  by (cases call) (auto simp: ack_with_outputs_def intro!: emits_rules)

lemma within_perform: "within c (perform H q call)"
  by (cases call) (auto simp: ack_with_outputs_def intro!: within_discard costs_rules)

lemma ends_perform: "ends n (perform H q call)"
  by (cases call) (auto simp: ack_with_outputs_def intro!: ends_discard)

section \<open>Histories\<close>

abbreviation faulty_memory :: "hash_fn \<Rightarrow> memory_store injector object_store" where
  "faulty_memory H \<equiv> injector_ops (memory_ops H)"

abbreviation faulty_contents :: "memory_store injector \<Rightarrow> contents" where
  "faulty_contents s \<equiv> mem_contents (inj_store s)"

abbreviation faulty_inv :: "memory_store injector \<Rightarrow> bool" where
  "faulty_inv s \<equiv> mem_inv (inj_store s)"

text \<open>One worker after another completes a call, with client steps of the others in between; a worker
  may have its own options, but all share the root and the identity of the queue.\<close>

definition same_queue :: "queue \<Rightarrow> queue \<Rightarrow> bool" where
  "same_queue q q' \<longleftrightarrow> q_root q = q_root q' \<and> queue_id q = queue_id q'"

inductive history :: "hash_fn \<Rightarrow> queue \<Rightarrow> memory_store injector \<Rightarrow> memory_store injector \<Rightarrow> bool"
  for H :: hash_fn and q :: queue where
  history_start: "history H q s s"
| history_call: "history H q s s1 \<Longrightarrow> same_queue q q' \<Longrightarrow>
    exec (faulty_memory H) (client_step (faulty_memory H) (protected q)) (perform H q' call h) s1 x s2 \<Longrightarrow>
    history H q s s2"

lemma protected_same_queue: "same_queue q q' \<Longrightarrow> protected q' = protected q"
  by (auto simp: same_queue_def protected_def fun_eq_iff)

lemma history_client_steps:
  "history H q s s' \<Longrightarrow> faulty_inv s \<Longrightarrow>
    (client_step (faulty_memory H) (protected q))\<^sup>*\<^sup>* s s' \<and> faulty_inv s'"
proof (induction rule: history.induct)
  case (history_call s s1 q' call h x s2)
  have "emits (harmless (protected q)) (perform H q' call h)"
    using emits_perform [of q' H call] protected_same_queue [OF history_call.hyps(2)]
    by (simp add: emits_op_when_def)
  then have "(client_step (faulty_memory H) (protected q))\<^sup>*\<^sup>* s1 s2"
    using inj.exec_client [OF history_call.hyps(3)] history_call by blast
  then show ?case
    using history_call inj.client_steps_grow [of H "protected q" s1 s2] by (meson rtranclp_trans)
qed simp

lemma history_grows:
  "history H q s s' \<Longrightarrow> faulty_inv s \<Longrightarrow> faulty_inv s' \<and> grows (protected q) (faulty_contents s) (faulty_contents s')"
  using history_client_steps inj.client_steps_grow by blast

section \<open>What the calls promise\<close>

definition claims_post :: "hash_fn \<Rightarrow> queue \<Rightarrow> claim_options \<Rightarrow> queue_error + claim list \<Rightarrow> contents \<Rightarrow> bool" where
  "claims_post H q opts x c \<longleftrightarrow> (\<forall>cs. x = Inr cs \<longrightarrow> all_taken H q opts cs c)"

text \<open>The terminal record stands unless the whole deletion went through.\<close>

definition terminal_kept :: "queue \<Rightarrow> key \<Rightarrow> object \<Rightarrow> queue_error + bool \<Rightarrow> contents \<Rightarrow> bool" where
  "terminal_kept q t obj x c \<longleftrightarrow> (x \<noteq> Inr True \<longrightarrow> c (absolute q t) = Some obj)"

section \<open>Fencing\<close>

text \<open>Two claims of the same generation of a job are the same claim.\<close>

definition same_generation :: "claim \<Rightarrow> claim \<Rightarrow> bool" where
  "same_generation cl cl' \<longleftrightarrow> cl_shard cl = cl_shard cl' \<and> cl_job_id cl = cl_job_id cl'
     \<and> cl_generation cl = cl_generation cl'"

definition fenced :: "claim list \<Rightarrow> queue_error + claim list \<Rightarrow> contents \<Rightarrow> bool" where
  "fenced cs x c \<longleftrightarrow> (\<forall>cs' cl cl'. x = Inr cs' \<longrightarrow> cl \<in> set cs \<longrightarrow> cl' \<in> set cs' \<longrightarrow> same_generation cl cl' \<longrightarrow>
     cl_worker_token cl = cl_worker_token cl' \<and> cl_attempt cl = cl_attempt cl')"

lemma record_bytes_inject:
  assumes "record_bytes H q rel r = record_bytes H q' rel r'" "same_queue q q'" "wf_record r" "wf_record r'"
  shows "r = r'"
proof -
  have "record_bytes H q' rel r' = record_bytes H q rel r'"
    using assms(2) by (simp add: record_bytes_def tag_for_def same_queue_def)
  then have "decode_at H q rel (record_bytes H q rel r) = Inr r'"
    using assms by (simp add: decode_at_Inr_iff)
  then show ?thesis
    using assms(3) decode_at_Inr_iff [of H q rel "record_bytes H q rel r" r] by simp
qed

lemma claims_fenced:
  assumes "claim_taken H q opts cl c" "claim_taken H q' opts' cl' c" "same_generation cl cl'" "same_queue q q'"
    and "valid_text (oo_worker_id (q_opts q))" "valid_text (oo_worker_id (q_opts q'))"
  shows "cl_worker_token cl = cl_worker_token cl' \<and> cl_attempt cl = cl_attempt cl'"
proof -
  obtain t where t: "cl_generation cl = t_gen t + 1" "cl_attempt cl = t_attempt t + 1"
      "claim_object H q (cl_shard cl) (takeover_record q (cl_job_id cl) opts t (cl_worker_token cl))
        (cl_claim_store_time_ns cl) c"
    using assms(1) by (auto simp: claim_taken_def)
  obtain t' where t': "cl_generation cl' = t_gen t' + 1" "cl_attempt cl' = t_attempt t' + 1"
      "claim_object H q' (cl_shard cl') (takeover_record q' (cl_job_id cl') opts' t' (cl_worker_token cl'))
        (cl_claim_store_time_ns cl') c"
    using assms(2) by (auto simp: claim_taken_def)
  let ?r = "takeover_record q (cl_job_id cl) opts t (cl_worker_token cl)"
  let ?r' = "takeover_record q' (cl_job_id cl') opts' t' (cl_worker_token cl')"
  let ?k = "KeyClaim (cl_shard cl) (cl_job_id cl) (ucast (cl_generation cl))"
  have "record_bytes H q ?k (RecordClaim ?r) = record_bytes H q' ?k (RecordClaim ?r')"
    using t t' assms(3,4)
    by (auto simp: claim_object_def same_generation_def same_queue_def absolute_def takeover_record_def)
  then have "RecordClaim ?r = RecordClaim ?r'"
    by (rule record_bytes_inject [OF _ assms(4)])
      (use assms(5,6) in \<open>simp_all add: takeover_record_def\<close>)
  then show ?thesis
    using t(2) t'(2) by (simp add: takeover_record_def)
qed

lemma triple_fenced:
  "triple (protected q)
     (\<lambda>c. all_taken H q opts cs c \<and> same_queue q q' \<and> valid_text (oo_worker_id (q_opts q))
       \<and> valid_text (oo_worker_id (q_opts q')))
     (claim_many H q' opts' limit) (fenced cs)"
proof (cases "same_queue q q'")
  case True
  note prot = protected_same_queue [OF True]
  let ?F = "\<lambda>c. all_taken H q opts cs c \<and> valid_text (oo_worker_id (q_opts q))
       \<and> valid_text (oo_worker_id (q_opts q'))"
  have "triple (protected q) (\<lambda>c. True \<and> ?F c) (claim_many H q' opts' limit)
      (\<lambda>r c. (\<forall>cs'. r = Inr cs' \<longrightarrow> all_taken H q' opts' cs' c) \<and> ?F c)"
    using triple_claim_many [of q' H opts' limit] emits_claim_many [of q' H opts' limit]
    unfolding prot by (intro triple_frame stays_rules)
  then show ?thesis
  proof (rule triple_weaken)
    fix r :: "queue_error + claim list" and c
    assume "(\<forall>cs'. r = Inr cs' \<longrightarrow> all_taken H q' opts' cs' c) \<and> ?F c"
    then show "fenced cs r c"
      unfolding fenced_def all_taken_def
      by (intro allI impI claims_fenced [where c = c and H = H and q = q and q' = q', OF _ _ _ True]) auto
  qed (simp add: True)
qed (simp add: triple_def)

end
