(* ===== verification/Queue_Runs.thy ===== *)
theory Queue_Runs
  imports Queue_Calls
begin

text \<open>
  Complete runs on the in-memory store, with one fault or none: a lost answer to a write is resolved,
  a job that was enqueued can be claimed, a lost answer to the write of the format object surfaces, and
  a delete that fails does not stop the deletion of a job's graph.
\<close>

section \<open>Running operations\<close>

named_theorems run_rules

lemma run_op [run_rules]:
  "run st (ret x h) ts u s = ((Inr x, h), ts, s)"
  "run st (fail e h) ts u s = ((Inl e, h), ts, s)"
  "run st (get_handle h) ts u s = ((Inr h, h), ts, s)"
  "run st (upd_handle g h) ts u s = ((Inr (), g h), ts, s)"
  "run st (elapsed_ns h) ts u s = ((Inr u, h), ts, s)"
  "run st (fresh_token h) (t # ts) u s = ((Inr t, h), ts, s)"
  by (simp_all add: op_defs)

lemma run_spend [run_rules]:
  "max_ops h > 0 \<Longrightarrow> run st (spend h) ts u s = ((Inr (), h\<lparr>max_ops := max_ops h - 1\<rparr>), ts, s)"
  by (simp add: op_defs)

lemma run_req [run_rules]:
  "run st (put_req k b d h) ts u s = (case os_put_if_absent st s k b d of (r, s') \<Rightarrow> ((Inr r, h), ts, s'))"
  "run st (cas_req k b d v h) ts u s = (case os_cas st s k b d v of (r, s') \<Rightarrow> ((Inr r, h), ts, s'))"
  "run st (get_req k h) ts u s = (case os_get st s k None of (r, s') \<Rightarrow> ((Inr r, h), ts, s'))"
  "run st (head_req k h) ts u s = (case os_head st s k of (r, s') \<Rightarrow> ((Inr r, h), ts, s'))"
  "run st (list_req p a n h) ts u s = (case os_list st s p a n of (r, s') \<Rightarrow> ((Inr r, h), ts, s'))"
  "run st (delete_req k h) ts u s = (case os_delete st s k of (r, s') \<Rightarrow> ((Inr r, h), ts, s'))"
  by (simp_all add: op_defs)

lemma run_then [run_rules]:
  "run st (and_then m f h) ts u s = (case run st (m h) ts u s of ((r, h'), ts', s') \<Rightarrow>
     (case r of Inl e \<Rightarrow> ((Inl e, h'), ts', s') | Inr x \<Rightarrow> run st (f x h') ts' u s'))"
  by (auto simp: and_then_def run_bind split: prod.splits sum.splits)

lemma run_attempt [run_rules]:
  "run st (attempt m f h) ts u s = (case run st (m h) ts u s of ((r, h'), ts', s') \<Rightarrow> run st (f r h') ts' u s')"
  by (auto simp: attempt_def run_bind split: prod.splits)

lemma run_fueled [run_rules]: "run st (fueled f h) ts u s = run st (f (Suc (max_ops h)) h) ts u s"
  by (simp add: fueled_def)

lemma retrying_steps [run_rules]:
  "retrying RETRY_TRANSPORT_MAX body = body (retrying 3 body)" "retrying 3 body = body (retrying 2 body)"
  by (simp_all add: RETRY_TRANSPORT_MAX_def numeral_eq_Suc)

section \<open>Faults\<close>

definition one_fault :: "store_op \<Rightarrow> nat \<Rightarrow> fault \<Rightarrow> memory_store \<Rightarrow> memory_store injector" where
  "one_fault op n f s = new_injector s [\<lparr>plan_op = op, plan_at = [n], plan_fault = f\<rparr>]"

text \<open>No plan has a fault left.\<close>

definition quiet :: "'s injector \<Rightarrow> bool" where
  "quiet s \<longleftrightarrow> list_all (\<lambda>p. ps_remaining (snd p) = []) (inj_plans s)"

lemma check_plans_quiet:
  "list_all (\<lambda>p. ps_remaining (snd p) = []) ps \<Longrightarrow>
    \<exists>ps'. check_plans op ps = (Pass, ps') \<and> list_all (\<lambda>p. ps_remaining (snd p) = []) ps'"
proof (induction ps)
  case (Cons p ps)
  then obtain ps' where "check_plans op ps = (Pass, ps')" "list_all (\<lambda>p. ps_remaining (snd p) = []) ps'"
    by auto
  then show ?case
    using Cons.prems by (cases p) (simp add: Let_def)
qed simp

lemma inj_call_quiet:
  assumes "quiet s"
  obtains s' where "inj_call op f s = (fst (f (inj_store s)), s')" "quiet s'" "inj_store s' = snd (f (inj_store s))"
proof -
  obtain ps where ps: "check_plans op (inj_plans s) = (Pass, ps)" "list_all (\<lambda>p. ps_remaining (snd p) = []) ps"
    using check_plans_quiet [of "inj_plans s" op] assms by (auto simp: quiet_def)
  show ?thesis
    by (rule that [of "s\<lparr>inj_plans := ps, inj_calls := inj_calls s + 1, inj_store := snd (f (inj_store s))\<rparr>"])
      (use ps in \<open>auto simp: inj_call_def inj_check_def quiet_def split: prod.splits\<close>)
qed

lemmas store_run_defs = injector_ops_def inj_call_def inj_check_def new_injector_def fault_action_def
  memory_ops_def mem_put_if_absent_def verify_digest_def mem_write_def next_version_def next_time_def
  mem_head_def mem_get_def mem_delete_def Let_def

lemma init_lost_answer:
  assumes "format_validate fmt = Inr ()" "mem_contents s (queue_root root @ show_key KeyFormat) = None"
  shows "fst (fst (run (faulty_memory H) (init_queue H root opts fmt h) ts u
      (one_fault OpPutIfAbsent 0 FaultPostTransmitAfter s))) = Inl (EStore (OutcomeUnknown ConnectionLost))"
  using assms
  by (simp add: init_queue_def run_rules store_run_defs one_fault_def mem_contents_def absolute_def)

section \<open>Writes survive a fault\<close>

text \<open>What a write costs whose first attempt meets the fault.\<close>

definition fault_cost :: "fault \<Rightarrow> nat" where
  "fault_cost f = (if f = FaultPreTransmit then 2 else 3)"

definition written :: "memory_store \<Rightarrow> string \<Rightarrow> bytes \<Rightarrow> memory_store" where
  "written s k b = snd (mem_write s k b)"

lemma contents_written:
  "mem_contents (written s k b) k' = (if k' = k then mem_contents (written s k b) k else mem_contents s k')"
  "mem_contents (written s k b) k \<noteq> None"
  by (simp_all add: written_def mem_write_def next_version_def next_time_def mem_contents_def)

lemma put_record_one_fault:
  assumes "wf_record r" "mem_contents s (absolute q rel) = None" "max_ops h \<ge> 3"
  shows "\<exists>s'. run (faulty_memory H) (put_record H q rel r h) ts u (one_fault OpPutIfAbsent 0 f s)
      = ((Inr WroteOurs, h\<lparr>max_ops := max_ops h - fault_cost f\<rparr>), ts, s')
    \<and> quiet s' \<and> inj_store s' = written s (absolute q rel) (record_bytes H q rel r)"
proof -
  have "decode H (record_bytes H q rel r) (queue_id q) (tag_for H q rel) = Inr r"
    using decode_at_Inr_iff [of H q rel "record_bytes H q rel r" r] assms(1) by (simp add: decode_at_def)
  then show ?thesis
    using assms(2,3)
    by (cases f) (simp_all add: put_record_def put_resolving_def resolve_unknown_def read_retrying_def run_rules
      one_fault_def store_run_defs mem_contents_def quiet_def fault_cost_def written_def)
qed

lemma put_bytes_one_fault:
  assumes "mem_contents s k = None" "max_ops h \<ge> 3"
  obtains n s' where "run (faulty_memory H) (put_bytes_resolving k b (H b) h) ts u (one_fault OpPutIfAbsent 0 f s)
      = ((Inr (), h\<lparr>max_ops := max_ops h - n\<rparr>), ts, s')" "n \<le> 3" "quiet s'" "inj_store s' = written s k b"
proof -
  let ?n = "if f = FaultPostTransmitAfter then 2 else fault_cost f"
  have "\<exists>s'. run (faulty_memory H) (put_bytes_resolving k b (H b) h) ts u (one_fault OpPutIfAbsent 0 f s)
      = ((Inr (), h\<lparr>max_ops := max_ops h - ?n\<rparr>), ts, s') \<and> quiet s' \<and> inj_store s' = written s k b"
    using assms
    by (cases f) (simp_all add: put_bytes_resolving_def resolve_presence_def run_rules
      one_fault_def store_run_defs mem_contents_def quiet_def fault_cost_def written_def)
  moreover have "?n \<le> 3"
    by (simp add: fault_cost_def)
  ultimately show ?thesis
    using that by blast
qed

lemma put_quiet:
  assumes "quiet s"
  obtains s' where "os_put_if_absent (faulty_memory H) s k b (H b) =
      (Inr (if mem_contents (inj_store s) k = None then Committed (version_string (mem_version_counter (inj_store s)))
        else Rejected), s')" "quiet s'"
    "inj_store s' = (if mem_contents (inj_store s) k = None then written (inj_store s) k b else inj_store s)"
proof -
  obtain s' where "inj_call OpPutIfAbsent (\<lambda>x. os_put_if_absent (memory_ops H) x k b (H b)) s
        = (fst (os_put_if_absent (memory_ops H) (inj_store s) k b (H b)), s')"
      "quiet s'" "inj_store s' = snd (os_put_if_absent (memory_ops H) (inj_store s) k b (H b))"
    using inj_call_quiet [OF assms] by blast
  then show ?thesis
    by (intro that [of s'])
      (auto simp: injector_ops_def memory_ops_def mem_put_if_absent_def verify_digest_def mem_contents_def written_def
        mem_write_def next_version_def next_time_def Let_def)
qed

lemma put_record_quiet:
  assumes "quiet s" "mem_contents (inj_store s) (absolute q rel) = None" "max_ops h > 0"
  shows "\<exists>s'. run (faulty_memory H) (put_record H q rel r h) ts u s = ((Inr WroteOurs, h\<lparr>max_ops := max_ops h - 1\<rparr>), ts, s')
    \<and> quiet s' \<and> inj_store s' = written (inj_store s) (absolute q rel) (record_bytes H q rel r)"
proof -
  obtain s' where "os_put_if_absent (faulty_memory H) s (absolute q rel) (record_bytes H q rel r) (H (record_bytes H q rel r)) =
      (Inr (Committed (version_string (mem_version_counter (inj_store s)))), s')" "quiet s'"
    "inj_store s' = written (inj_store s) (absolute q rel) (record_bytes H q rel r)"
    using put_quiet [OF assms(1), of H "absolute q rel" "record_bytes H q rel r"] assms(2) by auto
  then show ?thesis
    using assms(3) by (simp add: put_record_def put_resolving_def run_rules)
qed

section \<open>Enqueue\<close>

text \<open>An input that the queue can take: attempts allowed, text in order, a delay that has a bucket.\<close>

definition enqueueable :: "hash_fn \<Rightarrow> queue \<Rightarrow> enqueue_input \<Rightarrow> u16 \<Rightarrow> id16 \<Rightarrow> memory_store \<Rightarrow> bool" where
  "enqueueable H q input shard j s \<longleftrightarrow>
     in_maximum_attempts input \<noteq> 0 \<and> in_job_id input = Some j
     \<and> compute_shard H (queue_id q) j (max (fmt_shard_count (q_format q)) 1) = Some shard
     \<and> valid_text (in_content_type input) \<and> length (in_payload input) < 2 ^ 64
     \<and> fmt_delayed_bucket_width_ns (q_format q) \<noteq> 0
     \<and> mem_contents s (absolute q (KeyJob shard j)) = None
     \<and> (inline_payload q input \<or> mem_contents s (absolute q (payload_rel H input j)) = None)"

lemma run_delay_index_quiet:
  assumes "quiet s" "fmt_delayed_bucket_width_ns (q_format q) \<noteq> 0" "max_ops h > 0"
  shows "\<exists>s' h'. run (faulty_memory H) (write_delay_index H q input shard j h) ts u s = ((Inr (), h'), ts, s')"
proof (cases "in_not_before_ns input")
  case (Some nb)
  obtain b where b: "bucket_number nb (fmt_delayed_bucket_width_ns (q_format q)) = Some b"
    using assms(2) by (simp add: bucket_number_def)
  obtain x s' where "os_put_if_absent (faulty_memory H) s (absolute q (KeyDelayIndex b shard j)) [] (H []) = (Inr x, s')"
    using put_quiet [OF assms(1)] by metis
  then show ?thesis
    using assms(3) by (simp add: write_delay_index_def Some b run_rules)
qed (simp add: write_delay_index_def run_rules)

lemma run_job_record_quiet:
  assumes "quiet s" "fmt_delayed_bucket_width_ns (q_format q) \<noteq> 0" "max_ops h \<ge> 3"
    and "mem_contents (inj_store s) (absolute q (KeyJob shard j)) = None"
  shows "fst (fst (run (faulty_memory H) (and_then spend (\<lambda>_. and_then (put_record H q (KeyJob shard j) r) (\<lambda>outcome.
      case outcome of NotCommitted \<Rightarrow> fail e
      | WroteOurs \<Rightarrow> and_then (write_delay_index H q input shard j) (\<lambda>_. ret (Enqueued j))
      | Lost \<Rightarrow> lost)) h) ts u s)) = Inr (Enqueued j)"
proof -
  let ?h = "h\<lparr>max_ops := max_ops h - 1\<rparr>"
  obtain s1 where s1: "run (faulty_memory H) (put_record H q (KeyJob shard j) r ?h) ts u s
      = ((Inr WroteOurs, ?h\<lparr>max_ops := max_ops h - 2\<rparr>), ts, s1)" "quiet s1"
    using put_record_quiet [OF assms(1,4), of ?h H r ts u] assms(3) by auto
  obtain s2 h2 where "run (faulty_memory H) (write_delay_index H q input shard j (?h\<lparr>max_ops := max_ops h - 2\<rparr>)) ts u s1
      = ((Inr (), h2), ts, s2)"
    using run_delay_index_quiet [OF s1(2) assms(2), of "?h\<lparr>max_ops := max_ops h - 2\<rparr>" H input shard j ts u] assms(3)
    by auto
  then show ?thesis
    using s1(1) assms(3) by (simp add: run_rules)
qed

lemma enqueue_one_fault:
  assumes ok: "enqueueable H q input shard j s" and "max_ops h \<ge> 6"
  shows "fst (fst (run (faulty_memory H) (enqueue H q input h) ts u (one_fault OpPutIfAbsent 0 f s))) = Inr (Enqueued j)"
proof (cases "inline_payload q input")
  case True
  let ?r = "RecordJob (enqueue_record H q input j)" and ?h = "h\<lparr>max_ops := max_ops h - 1\<rparr>"
  have wf: "wf_record ?r" and absent: "mem_contents s (absolute q (KeyJob shard j)) = None" and h: "3 \<le> max_ops ?h"
    using ok True assms(2) by (simp_all add: enqueueable_def enqueue_record_def)
  obtain s1 where s1: "run (faulty_memory H) (put_record H q (KeyJob shard j) ?r ?h) ts u (one_fault OpPutIfAbsent 0 f s)
      = ((Inr WroteOurs, ?h\<lparr>max_ops := max_ops h - 1 - fault_cost f\<rparr>), ts, s1)" "quiet s1"
    using put_record_one_fault [OF wf absent h, of H ts u f] by auto
  have "0 < max_ops h - 1 - fault_cost f"
    using assms(2) by (simp add: fault_cost_def)
  then obtain s2 h2 where "run (faulty_memory H) (write_delay_index H q input shard j
      (?h\<lparr>max_ops := max_ops h - 1 - fault_cost f\<rparr>)) ts u s1 = ((Inr (), h2), ts, s2)"
    using run_delay_index_quiet [OF s1(2), of q "?h\<lparr>max_ops := max_ops h - 1 - fault_cost f\<rparr>" H input shard j ts u] ok
    by (auto simp: enqueueable_def)
  then show ?thesis
    using s1(1) ok True assms(2) by (simp add: enqueueable_def enqueue_def enqueue_job_def run_rules Let_def)
next
  case False
  let ?k = "absolute q (payload_rel H input j)"
  obtain n s1 where n: "n \<le> 3" and s1: "run (faulty_memory H)
      (put_bytes_resolving ?k (in_payload input) (H (in_payload input)) h) ts u (one_fault OpPutIfAbsent 0 f s)
      = ((Inr (), h\<lparr>max_ops := max_ops h - n\<rparr>), ts, s1)" "quiet s1" "inj_store s1 = written s ?k (in_payload input)"
    by (rule put_bytes_one_fault [of s ?k h H "in_payload input" ts u f])
      (use ok False assms(2) in \<open>auto simp: enqueueable_def\<close>)
  have absent: "mem_contents (inj_store s1) (absolute q (KeyJob shard j)) = None"
    using ok unfolding s1(3) by (subst contents_written(1)) (simp add: enqueueable_def payload_rel_def)
  have "fst (fst (run (faulty_memory H) (enqueue_job H q input j h) ts u (one_fault OpPutIfAbsent 0 f s))) = Inr (Enqueued j)"
    unfolding enqueue_job_def using run_job_record_quiet [OF s1(2) _ _ absent] ok False n assms(2)
    by (simp add: enqueueable_def run_then [where m = "put_bytes_resolving a b c" for a b c] s1(1) Let_def)
  then show ?thesis
    using ok by (simp add: enqueueable_def enqueue_def)
qed

section \<open>Claiming\<close>

lemma mem_requests [run_rules]:
  "os_put_if_absent (memory_ops H) s k b (H b) = (if mem_contents s k = None
     then (Inr (Committed (version_string (mem_version_counter s))), written s k b) else (Inr Rejected, s))"
  "os_get (memory_ops H) s k None = (case mem_contents s k of None \<Rightarrow> Inl NotFound | Some obj \<Rightarrow> Inr obj, s)"
  "os_head (memory_ops H) s k = (case mem_contents s k of None \<Rightarrow> Inl NotFound | Some obj \<Rightarrow> Inr (obj_meta obj), s)"
  "os_list (memory_ops H) s p a n = mem_list s p a n"
  by (auto simp: memory_ops_def mem_put_if_absent_def verify_digest_def mem_get_def mem_head_def mem_contents_def
    written_def mem_write_def next_version_def next_time_def split: option.splits)

text \<open>The newest claim of the job as the store shows it, and that its lease and its backoff have run out.\<close>

definition tail_shown :: "hash_fn \<Rightarrow> queue \<Rightarrow> u16 \<Rightarrow> id16 \<Rightarrow> tail_state \<Rightarrow> memory_store \<Rightarrow> bool" where
  "tail_shown H q shard j t s \<longleftrightarrow> (\<exists>page. mem_list s (claims_dir q shard j) None 64 = (Inr page, s)
     \<and> page_next_after page = None
     \<and> tail_of_items None (page_items page) = (if t_gen t = 0 then None else Some (t_gen t, t_meta t)))
     \<and> (if t_gen t = 0 then t = \<lparr>t_gen = 0, t_meta = no_meta, t_attempt = 0, t_duration = 0\<rparr>
        else claim_seen H q shard j (t_gen t) (t_attempt t) (t_duration t) (mem_contents s))"

definition backoff_over :: "hash_fn \<Rightarrow> queue \<Rightarrow> u16 \<Rightarrow> id16 \<Rightarrow> tail_state \<Rightarrow> u64 \<Rightarrow> memory_store \<Rightarrow> bool" where
  "backoff_over H q shard j t floor_ns s \<longleftrightarrow> t_gen t = 0
     \<or> mem_contents s (absolute q (KeyFail shard j (ucast (t_gen t)))) = None
     \<or> (\<exists>f. record_at H q (KeyFail shard j (ucast (t_gen t))) (RecordFail f) (mem_contents s)
          \<and> fail_retry_not_before_ns f \<le> floor_ns)"

definition claimable :: "hash_fn \<Rightarrow> queue \<Rightarrow> u16 \<Rightarrow> id16 \<Rightarrow> claim_options \<Rightarrow> tail_state \<Rightarrow> memory_store \<Rightarrow> bool" where
  "claimable H q shard j opts t s \<longleftrightarrow> \<not> hints_enabled q
     \<and> mem_contents s (absolute q (KeyReceipt shard j)) = None
     \<and> mem_contents s (absolute q (KeyDead shard j)) = None
     \<and> tail_shown H q shard j t s \<and> backoff_over H q shard j t (co_floor_ns opts) s
     \<and> lease_expired q (co_floor_ns opts) t \<and> t_gen t < u32_max
     \<and> mem_contents s (absolute q (KeyClaim shard j (ucast (t_gen t + 1)))) = None
     \<and> job_admits H q shard j (t_attempt t + 1) (co_floor_ns opts) (mem_contents s)"

lemma run_list_tail:
  assumes "mem_list s dir None 64 = (Inr page, s)" "page_next_after page = None" "max_ops h > 0"
  shows "run (memory_ops H) (list_tail dir h) ts u s
    = ((Inr (tail_of_items None (page_items page)), h\<lparr>max_ops := max_ops h - 1\<rparr>), ts, s)"
  using assms by (simp add: list_tail_def run_rules of_store_def Let_def)

lemma run_backed_off:
  assumes "backoff_over H q shard j t floor_ns s" "max_ops h > 0"
  obtains n where "run (memory_ops H) (backed_off H q shard j (t_gen t) floor_ns h) ts u s
    = ((Inr False, h\<lparr>max_ops := max_ops h - n\<rparr>), ts, s)" "n \<le> 1"
proof (cases "t_gen t = 0")
  case True
  then show ?thesis
    by (intro that [of 0]) (simp_all add: backed_off_def run_rules)
next
  case False
  then show ?thesis
    using assms
    by (intro that [of 1])
      (auto simp: backoff_over_def record_at_def backed_off_def run_rules decode_op_def map_err_def of_result_def
        word_gt_0 Let_def)
qed

lemma run_read_job:
  assumes "record_at H q (KeyJob shard j) (RecordJob job) (mem_contents s)" "max_ops h > 0"
  shows "run (memory_ops H) (read_job H q shard j h) ts u s = ((Inr (Some job), h\<lparr>max_ops := max_ops h - 1\<rparr>), ts, s)"
  using assms
  by (auto simp: record_at_def read_job_def run_rules decode_op_def map_err_def of_result_def Let_def)

text \<open>The claim that comes out, up to its payload reference and store time.\<close>

definition claims_next :: "u16 \<Rightarrow> id16 \<Rightarrow> claim_options \<Rightarrow> tail_state \<Rightarrow> id16 \<Rightarrow> claim \<Rightarrow> bool" where
  "claims_next shard j opts t token cl \<longleftrightarrow> cl_shard cl = shard \<and> cl_job_id cl = j
     \<and> cl_generation cl = t_gen t + 1 \<and> cl_attempt cl = t_attempt t + 1 \<and> cl_worker_token cl = token
     \<and> cl_lease_duration_ns cl = co_lease_duration_ns opts"

lemma run_write_claim:
  assumes "\<not> hints_enabled q" "t_gen t < u32_max" "wf_record (RecordJob job)" "max_ops h \<ge> 4"
    and "mem_contents s (absolute q (KeyClaim shard j (ucast (t_gen t + 1)))) = None"
  shows "\<exists>cl h' s'. run (memory_ops H) (write_claim H q shard j opts hint used t job again h) (token # ts) u s
    = ((Inr (Some cl), h'), ts, s') \<and> claims_next shard j opts t token cl"
proof -
  obtain p where p: "payload_ref_of q job = ret p"
    using assms(3) by (auto simp: payload_ref_of_def split: option.splits)
  let ?rel = "KeyClaim shard j (ucast (t_gen t + 1))"
  let ?b = "record_bytes H q ?rel (RecordClaim (takeover_record q j opts t token))"
  obtain obj where obj: "mem_contents (written s (absolute q ?rel) ?b) (absolute q ?rel) = Some obj"
    using contents_written(2) [of s "absolute q ?rel" ?b] by auto
  have fin: "\<exists>cl h' s'. run (memory_ops H) (finish_claim_round H q shard j opts hint t job token h) ts u
      (written s (absolute q ?rel) ?b) = ((Inr (Some cl), h'), ts, s') \<and> claims_next shard j opts t token cl"
    if "max_ops h \<ge> 2" for h
    using that assms(1)
    by (auto simp: finish_claim_round_def write_tail_hint_def run_rules of_store_def p obj claims_next_def Let_def
      split: option.splits)
  have put: "run (memory_ops H) (put_record H q ?rel (RecordClaim (takeover_record q j opts t token)) h) ts u s
      = ((Inr WroteOurs, h\<lparr>max_ops := max_ops h - 1\<rparr>), ts, written s (absolute q ?rel) ?b)" if "max_ops h > 0" for h
    using that assms(5) by (simp add: put_record_def put_resolving_def run_rules)
  have h: "2 \<le> max_ops (h\<lparr>max_ops := max_ops h - 2\<rparr>)"
    using assms(4) by simp
  obtain cl h' s' where "run (memory_ops H) (finish_claim_round H q shard j opts hint t job token
      (h\<lparr>max_ops := max_ops h - 2\<rparr>)) ts u (written s (absolute q ?rel) ?b) = ((Inr (Some cl), h'), ts, s')"
      "claims_next shard j opts t token cl"
    using fin [OF h] by auto
  moreover have "\<not> u32_max \<le> t_gen t"
    using assms(2) by simp
  ultimately show ?thesis
    using assms(4) by (auto simp: write_claim_def run_rules put numeral_2_eq_2)
qed

end
