(* ===== verification/Claim_Runs.thy ===== *)
theory Claim_Runs
  imports Queue_Runs
begin

text \<open>
  Claiming on the in-memory store: a job whose lease and backoff have run out is claimed, and a job
  that was enqueued in an empty shard is the next one claimed.
\<close>

lemma run_tail_record:
  assumes "claim_seen H q shard j g a d (mem_contents s)" "max_ops h > 0"
  shows "run (memory_ops H) (tail_record H q shard j g h) ts u s = ((Inr (a, d), h\<lparr>max_ops := max_ops h - 1\<rparr>), ts, s)"
  using assms
  by (auto simp: claim_seen_def tail_record_def run_rules of_store_def decode_op_def map_err_def of_result_def Let_def)

lemma run_claim_loop:
  assumes ok: "claimable H q shard j opts t s" and h: "max_ops h \<ge> 6"
  shows "\<exists>cl h' s'. run (memory_ops H) (claim_loop H q shard j opts hint 2 used t h) (token # ts) u s
    = ((Inr (Some cl), h'), ts, s') \<and> claims_next shard j opts t token cl"
proof -
  obtain obj job where job: "mem_contents s (absolute q (KeyJob shard j)) = Some obj"
      "decode_at H q (KeyJob shard j) (obj_body obj) = Inr (RecordJob job)"
      "t_attempt t + 1 \<le> job_maximum_attempts job" "\<And>nb. job_not_before_ns job = Some nb \<Longrightarrow> nb \<le> co_floor_ns opts"
    using ok by (auto simp: claimable_def job_admits_def)
  have rec: "record_at H q (KeyJob shard j) (RecordJob job) (mem_contents s)"
    using job(1,2) by (auto simp: record_at_def)
  have wf: "wf_record (RecordJob job)"
    using job(2) by (simp add: decode_at_Inr_iff)
  have late: "\<not> (case job_not_before_ns job of Some nb \<Rightarrow> co_floor_ns opts < nb | None \<Rightarrow> False)"
    using job(4) by (auto split: option.splits simp: not_less)
  have pos: "0 < max_ops h" using h by simp
  obtain n where n: "run (memory_ops H) (backed_off H q shard j (t_gen t) (co_floor_ns opts) h) (token # ts) u s
      = ((Inr False, h\<lparr>max_ops := max_ops h - n\<rparr>), token # ts, s)" "n \<le> 1"
    by (rule run_backed_off [OF _ pos]) (use ok in \<open>auto simp: claimable_def\<close>)
  let ?h = "h\<lparr>max_ops := max_ops h - n - 1\<rparr>"
  have read: "run (memory_ops H) (read_job H q shard j (h\<lparr>max_ops := max_ops h - n\<rparr>)) (token # ts) u s
      = ((Inr (Some job), ?h), token # ts, s)"
    using run_read_job [OF rec, of "h\<lparr>max_ops := max_ops h - n\<rparr>"] h n(2) by simp
  have "\<exists>cl h' s'. run (memory_ops H) (write_claim H q shard j opts hint used t job
        (claim_loop H q shard j opts hint (Suc 0) False) ?h) (token # ts) u s
      = ((Inr (Some cl), h'), ts, s') \<and> claims_next shard j opts t token cl"
    by (rule run_write_claim) (use ok wf h n(2) in \<open>auto simp: claimable_def\<close>)
  moreover have "\<not> t_attempt t + 1 > job_maximum_attempts job" "lease_expired q (co_floor_ns opts) t"
    using job(3) ok by (simp_all add: not_less claimable_def)
  ultimately show ?thesis
    using late n(1) read
    by (simp add: numeral_2_eq_2 claim_round_def claim_with_job_def run_then del: claim_loop.simps(1))
qed

lemma run_try_claim:
  assumes ok: "claimable H q shard j opts t s" and "max_ops h \<ge> 12"
  shows "\<exists>cl h' s'. run (memory_ops H) (try_claim H q j shard version opts h) (token # ts) u s
    = ((Inr (Some cl), h'), ts, s') \<and> claims_next shard j opts t token cl"
proof -
  obtain page where page: "mem_list s (claims_dir q shard j) None 64 = (Inr page, s)" "page_next_after page = None"
      "tail_of_items None (page_items page) = (if t_gen t = 0 then None else Some (t_gen t, t_meta t))"
    using ok by (auto simp: claimable_def tail_shown_def)
  let ?h = "h\<lparr>max_ops := max_ops h - 4\<rparr>"
  have gather: "run (memory_ops H) (gather_tail H q shard j (h\<lparr>max_ops := max_ops h - 3\<rparr>)) (token # ts) u s
      = ((Inr (tail_of_items None (page_items page), None, None), ?h), token # ts, s)"
    using ok assms(2) run_list_tail [OF page(1,2), of "h\<lparr>max_ops := max_ops h - 3\<rparr>" H "token # ts" u]
    by (simp add: gather_tail_def claimable_def run_then run_op Let_def)
  have spends: "run (memory_ops H) (try_claim H q j shard version opts h) (token # ts) u s
      = run (memory_ops H) (attempt (gather_tail H q shard j) (\<lambda>tail.
          and_then (of_result tail) (\<lambda>(tail, hint, hint_rec).
           let (g, m) = (case tail of Some x \<Rightarrow> x | None \<Rightarrow> (0, no_meta))
           in and_then
                (if g = 0 then ret (0, 0)
                 else case hint_rec of
                   Some c \<Rightarrow> ret (claim_attempt c, claim_lease_duration_ns c)
                 | None \<Rightarrow> tail_record H q shard j g)
                (\<lambda>(a, d). claim_loop H q shard j opts hint 2 (hint_rec \<noteq> None)
                   \<lparr>t_gen = g, t_meta = m, t_attempt = a, t_duration = d\<rparr>))) (h\<lparr>max_ops := max_ops h - 3\<rparr>)) (token # ts) u s"
    using ok assms(2)
    by (simp add: try_claim_def run_then run_spend run_req mem_requests claimable_def numeral_3_eq_3)
  have h4: "6 \<le> max_ops ?h" and h5: "6 \<le> max_ops (h\<lparr>max_ops := max_ops h - 5\<rparr>)"
    using assms(2) by simp_all
  show ?thesis
  proof (cases "t_gen t = 0")
    case True
    then have t: "\<lparr>t_gen = 0, t_meta = no_meta, t_attempt = 0, t_duration = 0\<rparr> = t"
      using ok by (simp add: claimable_def tail_shown_def)
    obtain cl h' s' where "run (memory_ops H) (claim_loop H q shard j opts None 2 False t ?h) (token # ts) u s
        = ((Inr (Some cl), h'), ts, s')" "claims_next shard j opts t token cl"
      using run_claim_loop [OF ok h4, of None False token ts u] by auto
    then show ?thesis
      unfolding spends run_attempt gather using page(3) True
      by (simp add: run_then run_op of_result_def t)
  next
    case False
    let ?h' = "h\<lparr>max_ops := max_ops h - 5\<rparr>"
    have seen: "claim_seen H q shard j (t_gen t) (t_attempt t) (t_duration t) (mem_contents s)"
      using ok False by (simp add: claimable_def tail_shown_def)
    have rd: "run (memory_ops H) (tail_record H q shard j (t_gen t) ?h) (token # ts) u s
        = ((Inr (t_attempt t, t_duration t), ?h'), token # ts, s)"
      by (rule run_tail_record [OF seen, THEN trans]) (use assms(2) in simp_all)
    have t: "\<lparr>t_gen = t_gen t, t_meta = t_meta t, t_attempt = t_attempt t, t_duration = t_duration t\<rparr> = t"
      by simp
    obtain cl h' s' where "run (memory_ops H) (claim_loop H q shard j opts None 2 False t ?h') (token # ts) u s
        = ((Inr (Some cl), h'), ts, s')" "claims_next shard j opts t token cl"
      using run_claim_loop [OF ok h5, of None False token ts u] by auto
    then show ?thesis
      unfolding spends run_attempt gather using page(3) False
      by (simp add: run_then run_op of_result_def rd t)
  qed
qed

section \<open>The scan\<close>

lemma run_gather_candidates:
  assumes "h_memo h = []"
  shows "\<exists>cs. run st (gather_candidates q items h) ts u s = ((Inr cs, h), ts, s)"
proof (induction items)
  case (Cons it items)
  then obtain cs where "run st (gather_candidates q items h) ts u s = ((Inr cs, h), ts, s)"
    by blast
  then show ?case
    using assms by (auto simp: run_rules is_memoized_terminal_def split: option.splits)
qed (simp add: run_rules)

lemma run_gather_first:
  assumes "h_memo h = []" "job_of_key q (item_key it) = Some (shard, j)"
  obtains v cs where "run st (gather_candidates q (it # items) h) ts u s
    = ((Inr (\<lparr>cand_job_id = j, cand_shard = shard, cand_version = v\<rparr> # cs), h), ts, s)"
proof -
  obtain cs where "run st (gather_candidates q items h) ts u s = ((Inr cs, h), ts, s)"
    using run_gather_candidates [OF assms(1), of st q items ts u s] by blast
  then show ?thesis
    using assms by (intro that) (simp add: run_rules is_memoized_terminal_def)
qed

lemma run_first_wave:
  assumes "claimable H q shard j opts t s" "max_ops h \<ge> 12" "pending = \<lparr>cand_job_id = j, cand_shard = shard, cand_version = v\<rparr> # cs"
  shows "\<exists>cl h' s'. run (memory_ops H) (claim_waves H q opts 1 pending [] h) (token # ts) u s
    = ((Inr (Finish (Inr [cl])), h'), ts, s') \<and> claims_next shard j opts t token cl"
proof -
  have h: "12 \<le> max_ops (h\<lparr>max_ops := max_ops h\<rparr>)"
    using assms(2) by simp
  obtain cl h' s' where cl: "run (memory_ops H) (try_claim H q j shard v opts (h\<lparr>max_ops := max_ops h\<rparr>)) (token # ts) u s
      = ((Inr (Some cl), h'), ts, s')" "claims_next shard j opts t token cl"
    using run_try_claim [OF assms(1) h, of v token ts u] by blast
  then show ?thesis
    unfolding claim_waves.simps [of H q opts 1 pending "[]"] using assms(2,3)
    by (simp add: run_rules run_wave_def split_budget_def with_budget_def
      run_bind collect_results_def Let_def)
qed

lemma run_claim_one:
  assumes ok: "claimable H q shard j opts t s" and h: "max_ops h \<ge> 13" "h_memo h = []"
    and page: "mem_list s (q_root q @ jobs_prefix (co_shard opts)) None 1024 = (Inr page, s)"
    "page_items page = it # rest" "job_of_key q (item_key it) = Some (shard, j)"
  shows "\<exists>cl h' s'. run (memory_ops H) (claim_one H q opts h) (token # ts) u s
    = ((Inr (Some cl), h'), ts, s') \<and> claims_next shard j opts t token cl"
proof -
  let ?h = "h\<lparr>max_ops := max_ops h - 1\<rparr>"
  have h': "12 \<le> max_ops ?h" "h_memo ?h = []"
    using h by simp_all
  obtain v cs where cs: "run (memory_ops H) (gather_candidates q (it # rest) ?h) (token # ts) u s
      = ((Inr (\<lparr>cand_job_id = j, cand_shard = shard, cand_version = v\<rparr> # cs), ?h), token # ts, s)"
    by (rule run_gather_first [OF h'(2) page(3)])
  obtain cl h2 s2 where wave: "run (memory_ops H)
      (claim_waves H q opts 1 (\<lparr>cand_job_id = j, cand_shard = shard, cand_version = v\<rparr> # cs) [] ?h) (token # ts) u s
      = ((Inr (Finish (Inr [cl])), h2), ts, s2)" "claims_next shard j opts t token cl"
    using run_first_wave [OF ok h'(1) refl] by blast
  obtain n where n: "max_ops h = Suc n"
    using h(1) by (cases "max_ops h") auto
  have first: "run (memory_ops H) (claim_waves H q opts 1 [] [] h) (token # ts) u s
      = ((Inr (More []), h), token # ts, s)"
    by (subst claim_waves.simps) (simp add: run_rules)
  have "run (memory_ops H) (claim_many H q opts 1 h) (token # ts) u s = ((Inr [cl], h2), ts, s2)"
    unfolding claim_many_def run_fueled n scan_loop.simps(2) run_then first
    using cs wave(1) page n
    by (simp add: run_rules of_result_def partial_batch_def split: option.splits del: gather_candidates.simps)
  then show ?thesis
    using wave(2) by (simp add: claim_one_def run_rules)
qed

section \<open>Enqueue, then claim\<close>

lemma mem_inv_written: "mem_inv s \<Longrightarrow> mem_inv (written s k b)"
  using mem_write_props(2) [of s k b "fst (mem_write s k b)" "snd (mem_write s k b)"] by (simp add: written_def)

lemma written_body: "\<exists>m. mem_contents (written s k b) k = Some \<lparr>obj_meta = m, obj_body = b\<rparr>"
  by (simp add: written_def mem_write_def next_version_def next_time_def mem_contents_def)

text \<open>What a write of the queue may add beside the job record.\<close>

definition side_key :: "queue \<Rightarrow> string \<Rightarrow> bool" where
  "side_key q k \<longleftrightarrow> prefix (q_root q @ ''payloads/'') k \<or> prefix (q_root q @ ''delayed/'') k"

lemma contents_written_other: "k' \<noteq> k \<Longrightarrow> mem_contents (written s k b) k' = mem_contents s k'"
  by (subst contents_written(1)) simp

lemma side_keys: "side_key q (absolute q (KeyPayload j d))" "side_key q (absolute q (KeyDelayIndex b shard j))"
  by (simp_all add: side_key_def absolute_def)

text \<open>Stores that differ in side keys only.\<close>

definition same_main :: "queue \<Rightarrow> memory_store \<Rightarrow> memory_store \<Rightarrow> bool" where
  "same_main q s s' \<longleftrightarrow> (mem_inv s \<longrightarrow> mem_inv s') \<and> (\<forall>k. \<not> side_key q k \<longrightarrow> mem_contents s' k = mem_contents s k)"

lemma same_main_written: "side_key q k \<Longrightarrow> same_main q s (written s k b)"
  unfolding same_main_def by (auto simp: mem_inv_written intro: contents_written_other)

lemma same_main_refl: "same_main q s s"
  by (simp add: same_main_def)

lemma run_put_record:
  assumes "mem_contents s (absolute q rel) = None" "max_ops h > 0"
  shows "run (memory_ops H) (put_record H q rel r h) ts u s
    = ((Inr WroteOurs, h\<lparr>max_ops := max_ops h - 1\<rparr>), ts, written s (absolute q rel) (record_bytes H q rel r))"
  using assms by (simp add: put_record_def put_resolving_def run_rules)

lemma run_delay_index:
  assumes "fmt_delayed_bucket_width_ns (q_format q) \<noteq> 0" "max_ops h > 0"
  shows "\<exists>h' s'. run (memory_ops H) (write_delay_index H q input shard j h) ts u s = ((Inr (), h'), ts, s')
    \<and> h_memo h' = h_memo h \<and> same_main q s s'"
  using assms
  by (auto simp: write_delay_index_def bucket_number_def run_rules of_result_def same_main_refl
    intro!: same_main_written side_keys split: option.splits)

lemma run_payload:
  assumes "inline_payload q input \<or> mem_contents s (absolute q (payload_rel H input j)) = None" "max_ops h > 0"
  shows "\<exists>n s'. n \<le> 1 \<and> run (memory_ops H) ((if inline_payload q input then ret ()
      else put_bytes_resolving (absolute q (payload_rel H input j)) (in_payload input) (H (in_payload input))) h) ts u s
    = ((Inr (), h\<lparr>max_ops := max_ops h - n\<rparr>), ts, s') \<and> same_main q s s'"
proof (cases "inline_payload q input")
  case True
  then show ?thesis
    by (intro exI [of _ 0]) (auto simp: run_rules same_main_refl)
next
  case False
  then show ?thesis
    using assms
    by (intro exI [of _ 1])
      (auto simp: put_bytes_resolving_def run_rules payload_rel_def intro!: same_main_written side_keys)
qed

lemma run_enqueue:
  assumes ok: "enqueueable H q input shard j s" and "max_ops h \<ge> 6"
  obtains h' s1 s' where "run (memory_ops H) (enqueue H q input h) ts u s = ((Inr (Enqueued j), h'), ts, s')"
    "h_memo h' = h_memo h" "same_main q s s1"
    "same_main q (written s1 (absolute q (KeyJob shard j))
       (record_bytes H q (KeyJob shard j) (RecordJob (enqueue_record H q input j)))) s'"
proof -
  let ?k = "absolute q (KeyJob shard j)" and ?r = "RecordJob (enqueue_record H q input j)"
  obtain n s1 where n: "n \<le> 1" and s1: "run (memory_ops H) ((if inline_payload q input then ret ()
      else put_bytes_resolving (absolute q (payload_rel H input j)) (in_payload input) (H (in_payload input))) h) ts u s
    = ((Inr (), h\<lparr>max_ops := max_ops h - n\<rparr>), ts, s1)" "same_main q s s1"
    using run_payload [of q input s H j h ts u] ok assms(2) by (auto simp: enqueueable_def)
  let ?h = "h\<lparr>max_ops := max_ops h - n\<rparr>" and ?s = "written s1 ?k (record_bytes H q (KeyJob shard j) ?r)"
  have "mem_contents s1 ?k = None"
    using s1(2) ok by (simp add: same_main_def enqueueable_def side_key_def absolute_def)
  then have put: "run (memory_ops H) (put_record H q (KeyJob shard j) ?r (h\<lparr>max_ops := max_ops h - n - 1\<rparr>)) ts u s1
      = ((Inr WroteOurs, h\<lparr>max_ops := max_ops h - n - 2\<rparr>), ts, ?s)"
    using run_put_record [of s1 q "KeyJob shard j" "h\<lparr>max_ops := max_ops h - n - 1\<rparr>" H ?r ts u] n assms(2) by simp
  obtain h' s' where last: "run (memory_ops H) (write_delay_index H q input shard j (h\<lparr>max_ops := max_ops h - n - 2\<rparr>)) ts u ?s
      = ((Inr (), h'), ts, s')" "h_memo h' = h_memo h" "same_main q ?s s'"
    using run_delay_index [of q "h\<lparr>max_ops := max_ops h - n - 2\<rparr>" H input shard j ts u ?s] ok n assms(2)
    by (auto simp: enqueueable_def)
  have "run (memory_ops H) (enqueue H q input h) ts u s = ((Inr (Enqueued j), h'), ts, s')"
    using ok n assms(2) put last(1)
    by (simp add: enqueue_def enqueue_job_def enqueueable_def run_then run_spend run_op s1(1) Let_def del: if_split)
  then show ?thesis
    using that last(2,3) s1(2) by blast
qed

lemma list_single:
  assumes "mem_inv s" "listed_keys (mem_contents s) p None = {k}" "n > 0"
  obtains page it where "mem_list s p None n = (Inr page, s)" "page_items page = [it]" "page_next_after page = None"
    "item_key it = k" "map_option obj_meta (mem_contents s k) = Some (item_meta it)"
proof -
  obtain page where page: "mem_list s p None n = (Inr page, s)"
    by (simp add: mem_list_def)
  obtain ks where ks: "sorted_wrt (<) ks" "set ks = {k}" "map item_key (page_items page) = take n ks"
      "\<forall>it \<in> set (page_items page). map_option obj_meta (mem_contents s (item_key it)) = Some (item_meta it)"
      "page_next_after page = (if n = 0 \<or> length ks \<le> n then None else Some (ks ! (n - 1)))"
    using mem_list_exact [OF assms(1) page] assms(2) by (auto simp: page_exact_def)
  have "ks = [k]"
    using ks(1,2) by (cases ks; cases "tl ks") auto
  then show ?thesis
    using ks(3-5) assms(3) page that by (cases n) (auto simp: map_eq_Cons_conv)
qed

lemma list_none:
  assumes "mem_inv s" "listed_keys (mem_contents s) p None = {}"
  obtains page where "mem_list s p None n = (Inr page, s)" "page_items page = []" "page_next_after page = None"
proof -
  obtain page where page: "mem_list s p None n = (Inr page, s)"
    by (simp add: mem_list_def)
  show ?thesis
    using mem_list_exact [OF assms(1) page] assms(2) page that by (auto simp: page_exact_def)
qed

lemma ascii_hex: "list_all (\<lambda>c. (of_char c :: nat) < 0x80) (hex w)"
  using hex_digits [of w] by (auto simp: list_all_iff hex_digit_value_def Let_def split: if_splits)

lemma valid_payload_key: "valid_text (show_key (payload_rel H input j))"
  unfolding payload_rel_def show_key.simps
  by (rule valid_text_ascii) (auto simp: list_all_iff dest: ascii_hex [unfolded list_all_iff, rule_format])

lemma wf_enqueue_input:
  "valid_text (in_content_type input) \<Longrightarrow> length (in_payload input) < 2 ^ 64 \<Longrightarrow> wf_record (RecordJob (enqueue_record H q input j))"
  by (simp add: enqueue_record_def valid_payload_key)

lemma wf_enqueue_record: "enqueueable H q input shard j s \<Longrightarrow> wf_record (RecordJob (enqueue_record H q input j))"
  by (simp add: enqueueable_def wf_enqueue_input del: wf_record.simps)

lemma job_of_key_absolute: "job_of_key q (absolute q (KeyJob shard j)) = Some (shard, j)"
  by (simp add: job_of_key_def absolute_def strip_prefix_def parse_show_key del: show_key.simps)

text \<open>No job in the shard, and nothing left of an earlier job of the same id.\<close>

definition shard_clear :: "queue \<Rightarrow> u16 \<Rightarrow> id16 \<Rightarrow> memory_store \<Rightarrow> bool" where
  "shard_clear q shard j s \<longleftrightarrow> mem_inv s
     \<and> listed_keys (mem_contents s) (q_root q @ jobs_prefix shard) None = {}
     \<and> listed_keys (mem_contents s) (claims_dir q shard j) None = {}
     \<and> mem_contents s (absolute q (KeyReceipt shard j)) = None
     \<and> mem_contents s (absolute q (KeyDead shard j)) = None"

lemma main_keys:
  "prefix (q_root q @ jobs_prefix shard) k \<Longrightarrow> \<not> side_key q k"
  "prefix (claims_dir q shard j) k \<Longrightarrow> \<not> side_key q k"
  "\<not> side_key q (absolute q (KeyReceipt shard j))" "\<not> side_key q (absolute q (KeyDead shard j))"
  by (auto simp: side_key_def jobs_prefix_def claims_dir_def claims_prefix_def absolute_def prefix_def)

lemma job_key_listed:
  "prefix (q_root q @ jobs_prefix shard) (absolute q (KeyJob shard j))"
  "\<not> prefix (claims_dir q shard j) (absolute q (KeyJob shard j))"
  "absolute q (KeyReceipt shard j) \<noteq> absolute q (KeyJob shard j)"
  "absolute q (KeyDead shard j) \<noteq> absolute q (KeyJob shard j)"
  by (auto simp: jobs_prefix_def claims_dir_def claims_prefix_def absolute_def prefix_def)

lemma listed_after_enqueue:
  assumes clear: "shard_clear q shard j s" and "same_main q s s1"
    and "same_main q (written s1 (absolute q (KeyJob shard j)) b) s'"
  shows "mem_inv s'" "listed_keys (mem_contents s') (q_root q @ jobs_prefix shard) None = {absolute q (KeyJob shard j)}"
    "listed_keys (mem_contents s') (claims_dir q shard j) None = {}"
    "mem_contents s' (absolute q (KeyReceipt shard j)) = None"
    "mem_contents s' (absolute q (KeyDead shard j)) = None"
    "\<exists>m. mem_contents s' (absolute q (KeyJob shard j)) = Some \<lparr>obj_meta = m, obj_body = b\<rparr>"
proof -
  let ?k = "absolute q (KeyJob shard j)"
  have same: "mem_contents s' k = (if k = ?k then mem_contents (written s1 ?k b) ?k else mem_contents s k)"
    if "\<not> side_key q k" for k
    using that assms(2,3) by (simp add: same_main_def contents_written_other)
  show "mem_inv s'"
    using assms by (simp add: same_main_def shard_clear_def mem_inv_written)
  show job: "\<exists>m. mem_contents s' ?k = Some \<lparr>obj_meta = m, obj_body = b\<rparr>"
    using same [OF main_keys(1) [OF job_key_listed(1)]] written_body [of s1 ?k b] by simp
  have none: "mem_contents s k = None"
    if "prefix (q_root q @ jobs_prefix shard) k \<or> prefix (claims_dir q shard j) k" for k
    using that clear by (auto simp: listed_keys_def shard_clear_def)
  show "listed_keys (mem_contents s') (q_root q @ jobs_prefix shard) None = {?k}"
    using job same [OF main_keys(1)] none job_key_listed(1) [of q shard j]
    by (auto simp: listed_keys_def split: if_splits)
  show "listed_keys (mem_contents s') (claims_dir q shard j) None = {}"
    using same [OF main_keys(2)] none job_key_listed(2) [of q shard j]
    by (auto simp: listed_keys_def split: if_splits)
  show "mem_contents s' (absolute q (KeyReceipt shard j)) = None" "mem_contents s' (absolute q (KeyDead shard j)) = None"
    using clear same [OF main_keys(3)] same [OF main_keys(4)] job_key_listed(3,4) [of q shard j]
    by (simp_all add: shard_clear_def)
qed

lemma enqueue_record_fields:
  "job_maximum_attempts (enqueue_record H q input j) = in_maximum_attempts input"
  "job_not_before_ns (enqueue_record H q input j) = in_not_before_ns input"
  by (simp_all add: enqueue_record_def)

text \<open>The tail of a job without claims.\<close>

abbreviation no_tail :: tail_state where
  "no_tail \<equiv> \<lparr>t_gen = 0, t_meta = no_meta, t_attempt = 0, t_duration = 0\<rparr>"

lemma claimable_after_enqueue:
  assumes ok: "enqueueable H q input shard j s" and "shard_clear q shard j s" "same_main q s s1"
    and "same_main q (written s1 (absolute q (KeyJob shard j))
       (record_bytes H q (KeyJob shard j) (RecordJob (enqueue_record H q input j)))) s'"
    and "\<not> hints_enabled q" and due: "\<And>nb. in_not_before_ns input = Some nb \<Longrightarrow> nb \<le> co_floor_ns opts"
  shows "claimable H q shard j opts no_tail s'"
proof -
  note post = listed_after_enqueue [OF assms(2-4)]
  obtain page where page: "mem_list s' (claims_dir q shard j) None 64 = (Inr page, s')"
      "page_items page = []" "page_next_after page = None"
    by (rule list_none [OF post(1,3)])
  have "mem_contents s' (absolute q (KeyClaim shard j 1)) = None"
    using post(3) by (auto simp: listed_keys_def claims_dir_def claims_prefix_def absolute_def)
  moreover have "1 \<le> in_maximum_attempts input"
    using ok by (simp add: enqueueable_def word_le_nat_alt Suc_le_eq unat_gt_0)
  then have "job_admits H q shard j 1 (co_floor_ns opts) (mem_contents s')"
    using post(6) due wf_enqueue_record [OF ok]
    by (auto simp: job_admits_def enqueue_record_fields decode_at_Inr_iff intro!: exI [of _ "enqueue_record H q input j"])

  ultimately show ?thesis
    using post page assms(5)
    by (auto simp: claimable_def tail_shown_def tail_of_items_def backoff_over_def lease_expired_def u32_max_def)
qed

lemma run_enqueue_then_claim:
  assumes ok: "enqueueable H q input (co_shard opts) j s" and clear: "shard_clear q (co_shard opts) j s"
    and "\<not> hints_enabled q" and due: "\<And>nb. in_not_before_ns input = Some nb \<Longrightarrow> nb \<le> co_floor_ns opts"
    and h: "max_ops h \<ge> 6" "h_memo h = []" and b: "b \<ge> 13"
  shows "\<exists>h1 s1 cl h2 s2. run (memory_ops H) (enqueue H q input h) (token # ts) u s = ((Inr (Enqueued j), h1), token # ts, s1)
    \<and> run (memory_ops H) (claim_one H q opts (h1\<lparr>max_ops := b\<rparr>)) (token # ts) u s1 = ((Inr (Some cl), h2), ts, s2)
    \<and> claims_next (co_shard opts) j opts no_tail token cl"
proof -
  obtain h' s1 s' where run: "run (memory_ops H) (enqueue H q input h) (token # ts) u s = ((Inr (Enqueued j), h'), token # ts, s')"
      "h_memo h' = h_memo h" and same: "same_main q s s1"
      "same_main q (written s1 (absolute q (KeyJob (co_shard opts) j))
         (record_bytes H q (KeyJob (co_shard opts) j) (RecordJob (enqueue_record H q input j)))) s'"
    by (rule run_enqueue [OF ok h(1)])
  note post = listed_after_enqueue [OF clear same]
  obtain page it where page: "mem_list s' (q_root q @ jobs_prefix (co_shard opts)) None 1024 = (Inr page, s')"
      "page_items page = [it]" "item_key it = absolute q (KeyJob (co_shard opts) j)"
    by (rule list_single [OF post(1,2), of 1024]) simp
  have "claimable H q (co_shard opts) j opts no_tail s'"
    by (rule claimable_after_enqueue [OF ok clear same assms(3) due])
  then show ?thesis
    using run_claim_one [of H q "co_shard opts" j opts no_tail s' "h'\<lparr>max_ops := b\<rparr>", OF _ _ _ page(1,2)]
      run h(2) b by (fastforce simp: page(3) job_of_key_absolute)
qed

end
