(* ===== verification/Gc_Runs.thy ===== *)
theory Gc_Runs
  imports Claim_Runs
begin

text \<open>
  A garbage collection whose delete of the job record fails: the graph counts as deleted, the tombstone
  goes, and the job can be claimed again.
\<close>

text \<open>A run under way: so much budget left, and an injector whose only plan, for deletes, has counted \<open>n\<close>.\<close>

definition deleting :: "nat \<Rightarrow> nat \<Rightarrow> nat list \<Rightarrow> memory_store \<Rightarrow> handle \<Rightarrow> memory_store injector \<Rightarrow> bool" where
  "deleting b n at s h i \<longleftrightarrow> b \<le> max_ops h \<and> inj_store i = s \<and> (\<exists>fired. inj_plans i =
     [(\<lparr>plan_op = OpDelete, plan_at = [2], plan_fault = FaultPreTransmit\<rparr>,
       \<lparr>ps_count = n, ps_remaining = at, ps_fired = fired\<rparr>)])"

lemma deleting_start: "b \<le> max_ops h \<Longrightarrow> deleting b 0 [2] s h (one_fault OpDelete 2 FaultPreTransmit s)"
  by (simp add: deleting_def one_fault_def new_injector_def)

text \<open>From there \<open>m\<close> succeeds and leaves \<open>P\<close>.\<close>

definition succeeds :: "hash_fn \<Rightarrow> 'a op \<Rightarrow> handle \<Rightarrow> memory_store injector \<Rightarrow> 'a \<Rightarrow> (handle \<Rightarrow> memory_store injector \<Rightarrow> bool) \<Rightarrow> bool" where
  "succeeds H m h i x P \<longleftrightarrow> (\<forall>ts u. \<exists>h' i'. run (faulty_memory H) (m h) ts u i = ((Inr x, h'), ts, i') \<and> P h' i')"

lemma succeeds_then:
  assumes "succeeds H m h i x P" "\<And>h' i'. P h' i' \<Longrightarrow> succeeds H (f x) h' i' y Q"
  shows "succeeds H (and_then m f) h i y Q"
  unfolding succeeds_def run_then
proof (intro allI)
  fix ts u
  obtain h' i' where "run (faulty_memory H) (m h) ts u i = ((Inr x, h'), ts, i')" "P h' i'"
    using assms(1) unfolding succeeds_def by blast
  then show "\<exists>h'' i''. (case run (faulty_memory H) (m h) ts u i of ((r, h'), ts', s') \<Rightarrow>
      case r of Inl e \<Rightarrow> ((Inl e, h'), ts', s') | Inr x \<Rightarrow> run (faulty_memory H) (f x h') ts' u s') = ((Inr y, h''), ts, i'')
      \<and> Q h'' i''"
    using assms(2) by (simp add: succeeds_def)
qed

lemma succeeds_weaken: "succeeds H m h i x P \<Longrightarrow> (\<And>h' i'. P h' i' \<Longrightarrow> Q h' i') \<Longrightarrow> succeeds H m h i x Q"
  unfolding succeeds_def by blast

lemma succeeds_ret: "P h i \<Longrightarrow> succeeds H (ret x) h i x P"
  by (simp add: succeeds_def run_rules)

definition mem_deleted :: "memory_store \<Rightarrow> string \<Rightarrow> memory_store" where
  "mem_deleted s k = snd (mem_delete s k)"

lemma contents_deleted: "mem_contents (mem_deleted s k) = (mem_contents s)(k := None)"
  by (auto simp: mem_deleted_def mem_delete_def mem_contents_def)

lemma mem_inv_deleted: "mem_inv s \<Longrightarrow> mem_inv (mem_deleted s k)"
  by (auto simp: mem_deleted_def mem_delete_def mem_inv_def sorted_bt_remove)

lemma paid_delete_succeeds:
  assumes "deleting b n at s h i" "b > 0" "\<not> (at \<noteq> [] \<and> hd at = n)"
  shows "succeeds H (paid_delete k) h i () (deleting (b - 1) (n + 1) at (mem_deleted s k))"
  using assms by (auto simp: succeeds_def deleting_def paid_delete_def run_rules store_run_defs mem_deleted_def)

lemma paid_delete_lost:
  assumes "deleting b n [2] s h i" "b > 0" "n = 2"
  shows "succeeds H (paid_delete k) h i () (deleting (b - 1) (n + 1) [] s)"
  using assms by (auto simp: succeeds_def deleting_def paid_delete_def run_rules store_run_defs)

lemma scan_succeeds:
  assumes "deleting b n at s h i" "b > 0" "mem_inv s" "listed_keys (mem_contents s) p None = {}"
  shows "succeeds H (scan_prefix f p r) h i r (deleting (b - 1) n at s)"
proof -
  obtain page where "mem_list s p None 64 = (Inr page, s)" "page_items page = []" "page_next_after page = None"
    by (rule list_none [OF assms(3,4)])
  then show ?thesis
    using assms(1,2) by (auto simp: succeeds_def deleting_def scan_prefix_def run_rules of_store_def store_run_defs)
qed

text \<open>A settled job of which only the record and the receipt are left.\<close>

definition settled_alone :: "hash_fn \<Rightarrow> queue \<Rightarrow> u16 \<Rightarrow> id16 \<Rightarrow> u64 \<Rightarrow> memory_store \<Rightarrow> bool" where
  "settled_alone H q shard j floor_ns s \<longleftrightarrow> mem_inv s
     \<and> list_all (\<lambda>p. listed_keys (mem_contents s) (q_root q @ p) None = {})
         [''leases/'', ''delayed/'', ''fails/'' @ hex shard @ ''/'' @ hex j @ ''/'',
          ''claims/'' @ hex shard @ ''/'' @ hex j @ ''/'', ''payloads/'' @ hex j @ ''/'']
     \<and> job_admits H q shard j 1 floor_ns (mem_contents s)
     \<and> mem_contents s (absolute q (KeyReceipt shard j)) \<noteq> None
     \<and> mem_contents s (absolute q (KeyDead shard j)) = None"

lemma nothing_listed_deleted:
  "listed_keys (mem_contents s) p a = {} \<Longrightarrow> listed_keys (mem_contents (mem_deleted s k)) p a = {}"
  by (auto simp: listed_keys_def contents_deleted)

lemma graph_lost_delete:
  assumes "settled_alone H q shard j floor_ns s" "max_ops h \<ge> 9"
  shows "succeeds H (delete_terminal_graph q shard j (KeyReceipt shard j) k) h (one_fault OpDelete 2 FaultPreTransmit s) True
    (deleting 0 4 [] (mem_deleted (mem_deleted (mem_deleted s k) (absolute q (KeyTail shard j))) (absolute q (KeyReceipt shard j))))"
proof -
  have facts: "mem_inv s" "listed_keys (mem_contents s) (q_root q @ ''leases/'') None = {}"
      "listed_keys (mem_contents s) (q_root q @ ''delayed/'') None = {}"
      "listed_keys (mem_contents s) (q_root q @ ''fails/'' @ hex shard @ ''/'' @ hex j @ ''/'') None = {}"
      "listed_keys (mem_contents s) (q_root q @ ''claims/'' @ hex shard @ ''/'' @ hex j @ ''/'') None = {}"
      "listed_keys (mem_contents s) (q_root q @ ''payloads/'' @ hex j @ ''/'') None = {}"
    using assms(1) by (simp_all add: settled_alone_def)
  note step = facts mem_inv_deleted nothing_listed_deleted
    succeeds_then [OF scan_succeeds [OF deleting_start [OF assms(2)]]] succeeds_then [OF scan_succeeds]
    succeeds_then [OF paid_delete_succeeds] succeeds_weaken [OF paid_delete_lost]
  have "succeeds H (delete_members q shard j k) h (one_fault OpDelete 2 FaultPreTransmit s) ()
      (deleting 1 3 [] (mem_deleted (mem_deleted s k) (absolute q (KeyTail shard j))))"
    unfolding delete_members_def Let_def delete_under_def delete_containing_def
    by (rule step | assumption | simp add: numeral_3_eq_3)+
  then show ?thesis
    unfolding delete_terminal_graph_def
    by (rule succeeds_then) (rule succeeds_then [OF paid_delete_succeeds] succeeds_ret | assumption | simp add: eval_nat_numeral)+
qed

text \<open>What was settled can be claimed from its first generation on.\<close>

lemma graph_lost_delete_claimable:
  assumes ok: "settled_alone H q shard j (co_floor_ns opts) s" and "\<not> hints_enabled q" and "max_ops h \<ge> 9"
  shows "succeeds H (delete_terminal_graph q shard j (KeyReceipt shard j) (absolute q (KeyTermIndex b kind shard j))) h
    (one_fault OpDelete 2 FaultPreTransmit s) True (\<lambda>h' i'. claimable H q shard j opts no_tail (inj_store i'))"
proof (rule succeeds_weaken [OF graph_lost_delete [OF ok assms(3)]])
  fix h' i'
  let ?s = "mem_deleted (mem_deleted (mem_deleted s (absolute q (KeyTermIndex b kind shard j)))
    (absolute q (KeyTail shard j))) (absolute q (KeyReceipt shard j))"
  assume i': "deleting 0 4 [] ?s h' i'"
  have "listed_keys (mem_contents s) (claims_dir q shard j) None = {}" "mem_inv s"
    using ok by (simp_all add: settled_alone_def claims_dir_def claims_prefix_def)
  then have claims: "listed_keys (mem_contents ?s) (claims_dir q shard j) None = {}" and inv: "mem_inv ?s"
    by (simp_all add: nothing_listed_deleted mem_inv_deleted)
  obtain page where page: "mem_list ?s (claims_dir q shard j) None 64 = (Inr page, ?s)"
      "page_items page = []" "page_next_after page = None"
    by (rule list_none [OF inv claims])
  have first: "mem_contents ?s (absolute q (KeyClaim shard j 1)) = None"
    using claims by (auto simp: listed_keys_def claims_dir_def claims_prefix_def absolute_def)
  have "mem_contents ?s (absolute q (KeyJob shard j)) = mem_contents s (absolute q (KeyJob shard j))"
    by (simp add: contents_deleted)
  then have "job_admits H q shard j 1 (co_floor_ns opts) (mem_contents ?s)"
    using ok by (simp add: settled_alone_def job_admits_def)
  moreover have "mem_contents ?s (absolute q (KeyReceipt shard j)) = None" "mem_contents ?s (absolute q (KeyDead shard j)) = None"
    using ok by (auto simp: contents_deleted settled_alone_def)
  moreover have "inj_store i' = ?s"
    using i' by (simp add: deleting_def)
  ultimately show "claimable H q shard j opts no_tail (inj_store i')"
    using page first assms(2)
    by (simp add: claimable_def tail_shown_def tail_of_items_def backoff_over_def lease_expired_def u32_max_def)
qed

end
