(* ===== verification/Typed_Store.thy ===== *)
theory Typed_Store
  imports Claim_Runs
begin

text \<open>
  The typing of the store: under every key of a record family lies an encoded record of that family
  whose identity fields agree with the key, and under a payload key lie bytes with the digest of the
  key. No write of the queue breaks it.
\<close>

section \<open>Typing\<close>

text \<open>The keys with a type, and that a record or a payload belongs there.\<close>

fun typed_key :: "key \<Rightarrow> bool" where
  "typed_key (KeyJob _ _) = True"
| "typed_key (KeyClaim _ _ _) = True"
| "typed_key (KeyFail _ _ _) = True"
| "typed_key (KeyReceipt _ _) = True"
| "typed_key (KeyDead _ _) = True"
| "typed_key KeyWatermark = True"
| "typed_key (KeyPayload _ _) = True"
| "typed_key _ = False"

fun record_fits :: "key \<Rightarrow> stow_record \<Rightarrow> bool" where
  "record_fits (KeyJob _ j) (RecordJob r) = (job_job_id r = j)"
| "record_fits (KeyClaim _ j g) (RecordClaim r) = (claim_job_id r = j \<and> ucast (claim_generation r) = g)"
| "record_fits (KeyFail _ j g) (RecordFail r) = (fail_job_id r = j \<and> ucast (fail_generation r) = g)"
| "record_fits (KeyReceipt _ j) (RecordReceipt r) = (receipt_job_id r = j)"
| "record_fits (KeyDead _ j) (RecordDead r) = (dead_job_id r = j)"
| "record_fits KeyWatermark (RecordWatermark r) = True"
| "record_fits _ _ = False"

definition typed_bytes :: "hash_fn \<Rightarrow> queue \<Rightarrow> key \<Rightarrow> bytes \<Rightarrow> bool" where
  "typed_bytes H q rel b \<longleftrightarrow> (case rel of
     KeyPayload _ digest \<Rightarrow> H b = digest
   | _ \<Rightarrow> \<exists>r. decode_at H q rel b = Inr r \<and> record_fits rel r)"

definition well_typed :: "hash_fn \<Rightarrow> queue \<Rightarrow> contents \<Rightarrow> bool" where
  "well_typed H q c \<longleftrightarrow> (\<forall>rel obj. c (absolute q rel) = Some obj \<longrightarrow> typed_key rel \<longrightarrow> typed_bytes H q rel (obj_body obj))"

fun typed_write :: "hash_fn \<Rightarrow> queue \<Rightarrow> request \<Rightarrow> bool" where
  "typed_write H q (ReqPut k b d) = (\<forall>rel. k = absolute q rel \<longrightarrow> typed_key rel \<longrightarrow> typed_bytes H q rel b)"
| "typed_write H q (ReqCas k b d v) = (\<forall>rel. k = absolute q rel \<longrightarrow> typed_key rel \<longrightarrow> typed_bytes H q rel b)"
| "typed_write H q _ = True"

lemma typed_record_bytes [simp]: "wf_record r \<Longrightarrow> record_fits rel r \<Longrightarrow> typed_bytes H q rel (record_bytes H q rel r)"
  by (cases rel) (auto simp: typed_bytes_def decode_at_Inr_iff)

lemma typed_payload [simp]: "typed_bytes H q (KeyPayload j d) b \<longleftrightarrow> H b = d"
  by (simp add: typed_bytes_def)

lemma put_allowed_typed [simp]:
  "put_allowed (typed_write H q) k b d \<longleftrightarrow> (\<forall>rel. k = absolute q rel \<longrightarrow> typed_key rel \<longrightarrow> typed_bytes H q rel b)"
  by (simp add: put_allowed_def)

section \<open>The writes of the queue\<close>

text \<open>Strings of the source are UTF-8 and shorter than \<open>2 ^ 64\<close>.\<close>

definition wf_input :: "enqueue_input \<Rightarrow> bool" where
  "wf_input input \<longleftrightarrow> valid_text (in_content_type input) \<and> length (in_payload input) < 2 ^ 64"

definition worker_text :: "queue \<Rightarrow> bool" where
  "worker_text q \<longleftrightarrow> valid_text (oo_worker_id (q_opts q))"

lemma typed_enqueue_record:
  "wf_input input \<Longrightarrow> typed_bytes H q (KeyJob s j) (record_bytes H q (KeyJob s j) (RecordJob (enqueue_record H q input j)))"
  by (rule typed_record_bytes) (simp_all add: wf_input_def enqueue_record_def valid_payload_key)

lemma typed_watermark [emits_rules]: "emits_op (typed_write H q) (watermark H q)"
  unfolding watermark_def
  by (intro emits_rules) (auto intro!: emits_rules split: sum.splits stow_record.splits)

lemma typed_watermark_covers [emits_rules]: "emits_op (typed_write H q) (watermark_covers H q b)"
  unfolding watermark_covers_def by (intro emits_rules)

lemma typed_watermark_write [emits_rules]:
  "typed_bytes H q KeyWatermark b \<Longrightarrow> emits_op (typed_write H q) (watermark_write e (absolute q KeyWatermark) b d)"
  unfolding watermark_write_def by (intro emits_rules) simp_all

lemma typed_advance_loop: "emits_op (typed_write H q) (advance_loop H q b n)"
proof (induction n)
  case (Suc n)
  then show ?case
    by (auto simp: Let_def intro!: emits_rules
      split: option.splits sum.splits put_outcome.splits store_error.splits)
qed (simp add: emits_op_fail)

lemma typed_advance_watermark [emits_rules]:
  "emits_op (typed_write H q) (advance_watermark H q f)"
  unfolding advance_watermark_def
  by (auto intro!: emits_rules typed_advance_loop split: option.splits)

lemma typed_beacon_loop [emits_rules]: "emits_op (typed_write H q) (beacon_loop H q n)"
  by (induction n) (auto intro!: emits_rules split: sum.splits put_outcome.splits)

lemma typed_establish_floor [emits_rules]: "emits_op (typed_write H q) (establish_floor H q)"
  unfolding establish_floor_def by (intro emits_rules)

lemma typed_receipt_for [emits_rules]: "emits_op (typed_write H q) (receipt_for H q s j)"
  unfolding receipt_for_def
  by (intro emits_rules) (auto intro!: emits_rules split: sum.splits stow_record.splits)

lemma typed_depth_pages: "emits_op (typed_write H q) (depth_pages pre n a k)"
  by (induction n arbitrary: a k) (auto simp: Let_def intro!: emits_rules split: option.splits)

lemma typed_depth [emits_rules]: "emits_op (typed_write H q) (depth q s)"
  unfolding depth_def depth_plane_def by (intro emits_rules typed_depth_pages)

lemma typed_write_delay_index [emits_rules]: "emits_op (typed_write H q) (write_delay_index H q i s j)"
  unfolding write_delay_index_def by (auto intro!: emits_rules split: option.splits)

lemma typed_enqueue_job [emits_rules]: "wf_input i \<Longrightarrow> emits_op (typed_write H q) (enqueue_job H q i j)"
  unfolding enqueue_job_def
  by (auto simp: Let_def payload_rel_def typed_enqueue_record intro!: emits_rules split: option.splits resolved.splits)

lemma typed_enqueue [emits_rules]: "wf_input i \<Longrightarrow> emits_op (typed_write H q) (enqueue H q i)"
  unfolding enqueue_def by (auto intro!: emits_rules split: option.splits)

lemma typed_list_tail [emits_rules]: "emits_op (typed_write H q) (list_tail d)"
proof -
  have "emits_op (typed_write H q) (list_tail_loop d n a t)" for n a t
    by (induction n arbitrary: a t) (auto simp: Let_def intro!: emits_rules split: option.splits)
  then show ?thesis
    unfolding list_tail_def by (intro emits_rules)
qed

lemma typed_tail_record [emits_rules]: "emits_op (typed_write H q) (tail_record H q s j g)"
  unfolding tail_record_def by (auto simp: Let_def intro!: emits_rules split: stow_record.splits)

lemma typed_rediscover [emits_rules]: "emits_op (typed_write H q) (rediscover H q s j)"
  unfolding rediscover_def by (auto simp: Let_def intro!: emits_rules split: prod.splits option.splits)

lemma typed_write_tail_hint [emits_rules]:
  "emits_op (typed_write H q) (write_tail_hint H q s j g k)"
  unfolding write_tail_hint_def by (auto simp: Let_def intro!: emits_rules split: option.splits)

lemma typed_read_tail_hint [emits_rules]: "emits_op (typed_write H q) (read_tail_hint q s j)"
  unfolding read_tail_hint_def by (auto simp: Let_def intro!: emits_rules split: sum.splits)

lemma typed_update_tail_hint [emits_rules]:
  "emits_op (typed_write H q) (update_tail_hint H q s j g)"
  unfolding update_tail_hint_def by (auto intro!: emits_rules split: sum.splits)

lemma typed_gather_tail [emits_rules]: "emits_op (typed_write H q) (gather_tail H q s j)"
  unfolding gather_tail_def
  by (auto simp: Let_def intro!: emits_rules split: option.splits sum.splits stow_record.splits)

lemma typed_backed_off [emits_rules]: "emits_op (typed_write H q) (backed_off H q s j g f)"
  unfolding backed_off_def
  by (auto simp: Let_def intro!: emits_rules split: sum.splits stow_record.splits)

lemma typed_read_job [emits_rules]: "emits_op (typed_write H q) (read_job H q s j)"
  unfolding read_job_def by (auto simp: Let_def intro!: emits_rules split: sum.splits stow_record.splits)

lemma typed_write_termidx [emits_rules]: "emits_op (typed_write H q) (write_termidx H q k s j)"
  unfolding write_termidx_def by (auto intro!: emits_rules split: sum.splits option.splits)

lemma typed_bury_exhausted [emits_rules]: "emits_op (typed_write H q) (bury_exhausted H q s j t)"
  unfolding bury_exhausted_def by (auto simp: Let_def intro!: emits_rules)

lemma typed_finish_claim_round [emits_rules]:
  "emits_op (typed_write H q) (finish_claim_round H q s j opts hint t job tok)"
  unfolding finish_claim_round_def by (auto simp: Let_def intro!: emits_rules split: option.splits)

lemma typed_claim_round:
  assumes "worker_text q" "\<And>t. emits_op (typed_write H q) (again t)"
  shows "emits_op (typed_write H q) (claim_round H q s j opts hint u t again)"
  unfolding claim_round_def claim_with_job_def write_claim_def
  using assms by (auto simp: takeover_record_def worker_text_def intro!: emits_rules split: option.splits)

lemma typed_claim_loop [emits_rules]:
  "worker_text q \<Longrightarrow> emits_op (typed_write H q) (claim_loop H q s j opts hint n u t)"
  by (induction n arbitrary: u t) (auto intro: typed_claim_round emits_rules)

lemma typed_try_claim [emits_rules]: "worker_text q \<Longrightarrow> emits_op (typed_write H q) (try_claim H q j s v opts)"
  unfolding try_claim_def
  by (auto simp: Let_def simp del: claim_loop.simps intro!: emits_rules split: sum.splits prod.splits option.splits)

lemma typed_claim_waves [emits_rules]:
  "worker_text q \<Longrightarrow> emits_op (typed_write H q) (claim_waves H q opts limit pending claims)"
  by (induction H q opts limit pending claims rule: claim_waves.induct)
    (subst claim_waves.simps, auto simp: Let_def intro!: emits_rules split: option.splits)

lemma typed_claim_many [emits_rules]:
  assumes "worker_text q"
  shows "emits_op (typed_write H q) (claim_many H q opts limit)"
proof -
  have "emits_op (typed_write H q) (scan_loop H q opts limit n a d p c)" for n a d p c
    by (induction n arbitrary: a d p c)
      (auto intro!: emits_rules assms split: scan_step.splits sum.splits option.splits)
  then show ?thesis
    unfolding claim_many_def by (intro emits_rules)
qed

lemma typed_unless_present [emits_rules]: "emits_op (typed_write H q) m \<Longrightarrow> emits_op (typed_write H q) (unless_present k x m)"
  unfolding unless_present_def by (auto intro!: emits_rules split: sum.splits)

lemma typed_renew [emits_rules]: "worker_text q \<Longrightarrow> emits_op (typed_write H q) (renew H q cl)"
  unfolding renew_def write_renewal_def by (auto simp: Let_def renewal_record_def worker_text_def intro!: emits_rules)

lemma output_not_record: "outputs_dir q j @ name = absolute q rel \<Longrightarrow> \<not> typed_key rel"
  by (cases rel) (auto simp: outputs_dir_def absolute_def)

lemma typed_commit_output [emits_rules]: "emits_op (typed_write H q) (commit_output H q cl name body)"
  unfolding commit_output_def
  by (auto simp: Let_def intro!: emits_rules dest: output_not_record split: sum.splits store_error.splits put_outcome.splits)

lemma typed_verify_outputs [emits_rules]: "emits_op (typed_write H q) (verify_outputs H q j outs)"
  by (induction outs) (auto intro!: emits_rules split: sum.splits)

lemma typed_claim_payload [emits_rules]: "emits_op (typed_write H q) (claim_payload H cl)"
  unfolding claim_payload_def by (auto intro!: emits_rules split: payload_ref.splits)

lemma typed_rebuilt_payload [emits_rules]: "emits_op (typed_write H q) (rebuilt_payload H root job)"
  unfolding rebuilt_payload_def by (auto intro!: emits_rules split: option.splits prod.splits)

lemma typed_detached_or_inline [emits_rules]:
  "emits_op (typed_write H q) (detached_or_inline H j s g a tok d time root)"
  unfolding detached_or_inline_def
  by (auto simp: Let_def intro!: emits_rules split: sum.splits stow_record.splits)

lemma typed_ack [emits_rules]: "worker_text q \<Longrightarrow> length outs < 2 ^ 64 \<Longrightarrow> emits_op (typed_write H q) (ack_inner H q cl outs)"
  unfolding ack_inner_def write_receipt_def
  by (auto simp: Let_def ack_record_def worker_text_def intro!: emits_rules split: sum.splits stow_record.splits)

lemma typed_nack [emits_rules]: "emits_op (typed_write H q) (nack H q cl reason f)"
  unfolding nack_def by (auto simp: nack_record_def intro!: emits_rules split: option.splits)

lemma typed_bury [emits_rules]: "emits_op (typed_write H q) (bury H q cl reason)"
  unfolding bury_def write_dead_def
  by (auto simp: Let_def bury_record_def intro!: emits_rules split: resolved.splits stow_record.splits)

lemma typed_claim_tail [emits_rules]: "emits_op (typed_write H q) (claim_tail H q s j)"
  unfolding claim_tail_def
  by (auto simp: Let_def intro!: emits_rules split: option.splits sum.splits stow_record.splits)

lemma typed_lease_reclaimable [emits_rules]: "emits_op (typed_write H q) (lease_reclaimable H q s j f)"
  unfolding lease_reclaimable_def by (auto intro!: emits_rules)

lemma typed_job_promotable [emits_rules]: "emits_op (typed_write H q) (job_promotable H q s j f)"
  unfolding job_promotable_def tail_promotable_def still_backing_off_def
  by (auto simp: Let_def intro!: emits_rules split: sum.splits stow_record.splits option.splits)

lemma typed_sweep_expired_leases [emits_rules]: "emits_op (typed_write H q) (sweep_expired_leases H q f)"
  unfolding sweep_expired_leases_def sweep_lease_def
  by (auto simp: Let_def intro!: emits_rules emits_scan_prefix split: option.splits prod.splits)

lemma typed_sweep_delayed [emits_rules]: "emits_op (typed_write H q) (sweep_delayed H q f)"
  unfolding sweep_delayed_def sweep_delay_def
  by (auto simp: Let_def intro!: emits_rules emits_scan_prefix split: option.splits prod.splits)

lemma typed_write_quarantine [emits_rules]: "emits_op (typed_write H q) (write_quarantine H q k r o' d)"
  unfolding write_quarantine_def Let_def by (auto simp: put_allowed_def intro!: emits_rules)

lemma typed_report_violation [emits_rules]: "emits_op (typed_write H q) (report_violation H q kd k rk r o' d rep)"
  unfolding report_violation_def by (intro emits_rules)

lemma typed_list_authoritative [emits_rules]: "emits_op (typed_write H q) (list_authoritative pre)"
  unfolding list_authoritative_def by (intro emits_scan_prefix emits_rules) simp

lemma typed_regenerate [emits_rules]: "\<not> typed_key idx \<Longrightarrow> emits_op (typed_write H q) (regenerate H (absolute q idx) rep)"
  unfolding regenerate_def ensure_index_def by (auto intro!: emits_rules split: sum.splits)

lemma typed_audit_gaps [emits_rules]: "emits_op (typed_write H q) (audit_gaps H q s j chain rep)"
  by (induction H q s j chain rep rule: audit_gaps.induct) (auto simp: Let_def intro!: emits_rules)

lemma typed_audit_head [emits_rules]: "emits_op (typed_write H q) (audit_head H q s j chain rep)"
  unfolding audit_head_def by (auto simp: Let_def intro!: emits_rules split: list.splits)

lemma typed_decode_chain [emits_rules]: "emits_op (typed_write H q) (decode_chain H q s j chain rep)"
  by (induction chain arbitrary: rep)
    (auto simp: Let_def intro!: emits_rules split: sum.splits stow_record.splits)

lemma typed_audit_evidence [emits_rules]: "emits_op (typed_write H q) (audit_evidence H q s j chain xs rep)"
  by (induction H q s j chain xs rep rule: audit_evidence.induct)
    (auto simp: quarantine_inadmissible_def Let_def intro!: emits_rules split: option.splits)

lemma typed_audit_claim_chain [emits_rules]: "emits_op (typed_write H q) (audit_claim_chain H q s j chain rep)"
  unfolding audit_claim_chain_def Let_def by (auto intro!: emits_rules split: prod.splits)

lemma typed_list_and_fold [emits_rules]:
  "(\<And>x r. emits_op (typed_write H q) (f x r)) \<Longrightarrow> emits_op (typed_write H q) (list_and_fold f pre r)"
  unfolding list_and_fold_def by (intro emits_rules)

lemma typed_repair_job [emits_rules]: "emits_op (typed_write H q) (repair_job H q s item acc)"
  unfolding repair_job_def repair_job_record_def Let_def
  by (auto intro!: emits_rules split: prod.splits sum.splits key.splits stow_record.splits option.splits)

lemma typed_repair_parts [emits_rules]:
  "emits_op (typed_write H q) (gather_chain H q item acc)"
  "emits_op (typed_write H q) (repair_terminal H q s item acc')"
  "emits_op (typed_write H q) (repair_duplicate H q s entry rep)"
  unfolding gather_chain_def repair_terminal_def repair_duplicate_def Let_def
  by (auto intro!: emits_rules split: prod.splits option.splits key.splits)

lemma typed_repair_chain [emits_rules]: "emits_op (typed_write H q) (repair_chain H q s ids entry rep)"
  unfolding repair_chain_def Let_def by (auto intro!: emits_rules split: prod.splits option.splits)

lemma typed_repair_shard [emits_rules]: "emits_op (typed_write H q) (repair_shard H q sh sh' s rep)"
  unfolding repair_shard_def by (auto intro!: emits_rules split: prod.splits)

lemma typed_repair_scan [emits_rules]: "emits_op (typed_write H q) (repair_scan H q sh sh' s)"
proof -
  have "emits_op (typed_write H q) (repair_loop H q sh sh' n s rep)" for n s rep
    by (induction n arbitrary: s rep) (auto simp: Let_def intro!: emits_rules)
  then show ?thesis
    unfolding repair_scan_def Let_def by (auto intro!: emits_rules split: prod.splits)
qed

section \<open>All calls\<close>

definition sendable :: "queue \<Rightarrow> call \<Rightarrow> bool" where
  "sendable q call \<longleftrightarrow> worker_text q \<and> (case call of
     CallEnqueue input \<Rightarrow> wf_input input
   | CallAck cl outs \<Rightarrow> length outs < 2 ^ 64
   | _ \<Rightarrow> True)"

lemma typed_perform: "sendable q call \<Longrightarrow> emits_op (typed_write H q) (perform H q call)"
  by (cases call) (auto simp: sendable_def ack_with_outputs_def intro!: emits_rules)

lemma typed_gc: "emits_op (typed_write H q) (gc H q now retention horizon)"
proof (rule emits_op_mono [OF kept_gc.emits_gc [OF refl]])
  show "prunes (kept q) r \<Longrightarrow> typed_write H q r" for r
    by (cases r) simp_all
qed

lemma well_typed_update:
  "well_typed H q c \<Longrightarrow> (\<And>rel. k = absolute q rel \<Longrightarrow> typed_key rel \<Longrightarrow> typed_bytes H q rel b) \<Longrightarrow>
    well_typed H q (c(k \<mapsto> \<lparr>obj_meta = m, obj_body = b\<rparr>))"
  "well_typed H q c \<Longrightarrow> well_typed H q (c(k := None))"
  by (auto simp: well_typed_def)

lemma typed_keeps_fact: "typed_write H q r \<Longrightarrow> keeps_fact (well_typed H q) r"
  by (cases r) (auto intro: well_typed_update)

lemma typed_keeps:
  assumes "emits_op (typed_write H q) m"
  shows "keeps_on (faulty_memory H) faulty_contents faulty_inv (\<lambda>k. False) (well_typed H q) m"
  by (rule inj.keeps_fact_keeps_on [OF emits_op_mono [OF assms typed_keeps_fact]])

end
