(* ===== verification/Audit_Safety.thy ===== *)
theory Audit_Safety
  imports Queue_Calls
begin

text \<open>
  The queue and its audit agree: the evidence that a takeover writes is what the repair scan asks for,
  and a chain of takeovers and renewals is passed without a finding.
\<close>

text \<open>A takeover beside its predecessor in the store.\<close>

definition audited_claim :: "hash_fn \<Rightarrow> queue \<Rightarrow> claim \<Rightarrow> contents \<Rightarrow> bool" where
  "audited_claim H q cl c \<longleftrightarrow>
     (\<exists>rec prev m. claim_object H q (cl_shard cl) rec (cl_claim_store_time_ns cl) c
        \<and> claim_generation rec = cl_generation cl
        \<and> record_at H q (KeyClaim (cl_shard cl) (cl_job_id cl) (ucast (cl_generation cl - 1))) (RecordClaim prev) c
        \<and> listed q (cl_shard cl) (cl_job_id cl) (cl_generation cl - 1) m c
        \<and> admissible rec prev (meta_store_time_ns m))"

definition audited :: "hash_fn \<Rightarrow> queue \<Rightarrow> queue_error + claim list \<Rightarrow> contents \<Rightarrow> bool" where
  "audited H q x c \<longleftrightarrow> (\<forall>cs cl. x = Inr cs \<longrightarrow> cl \<in> set cs \<longrightarrow> cl_generation cl = 1 \<or> audited_claim H q cl c)"

lemma saturating_add_le: "saturating_add (saturating_add a b) g \<le> (f :: u64) \<Longrightarrow> saturating_add a b \<le> f"
  by (simp add: word_le_nat_alt arith_simps)

lemma takeover_admissible:
  assumes "lease_expired q (co_floor_ns opts) t" "t_gen t \<noteq> 0" "claim_lease_duration_ns prev = t_duration t"
  shows "admissible (takeover_record q j opts t token) prev (meta_store_time_ns (t_meta t))"
  using assms by (auto simp: admissible_def takeover_record_def lease_expired_def dest: saturating_add_le)

lemma renewal_admissible:
  assumes "claim_worker_id prev = oo_worker_id (q_opts q)" "claim_worker_token prev = cl_worker_token cl"
  shows "admissible (renewal_record q cl) prev time"
  using assms by (simp add: admissible_def renewal_record_def)

lemma taken_audited:
  assumes "claim_taken H q opts cl c" "cl_generation cl \<noteq> 1"
  shows "audited_claim H q cl c"
proof -
  obtain t where t: "cl_generation cl = t_gen t + 1" "prior_lease H q (cl_shard cl) (cl_job_id cl) t c"
      "lease_expired q (co_floor_ns opts) t"
      "claim_object H q (cl_shard cl) (takeover_record q (cl_job_id cl) opts t (cl_worker_token cl)) (cl_claim_store_time_ns cl) c"
    using assms(1) by (auto simp: claim_taken_def)
  have gen: "t_gen t \<noteq> 0" "cl_generation cl - 1 = t_gen t"
    using t(1) assms(2) by auto
  then obtain prev where prev: "record_at H q (KeyClaim (cl_shard cl) (cl_job_id cl) (ucast (t_gen t))) (RecordClaim prev) c"
      "claim_lease_duration_ns prev = t_duration t" "listed q (cl_shard cl) (cl_job_id cl) (t_gen t) (t_meta t) c"
    using t(2) by (auto simp: prior_lease_def claim_seen_def record_at_def)
  have "admissible (takeover_record q (cl_job_id cl) opts t (cl_worker_token cl)) prev (meta_store_time_ns (t_meta t))"
    by (rule takeover_admissible [OF t(3) gen(1) prev(2)])
  then show ?thesis
    unfolding audited_claim_def
    using t(1,4) gen(2) prev(1,3) by (intro exI conjI) (assumption | simp add: takeover_record_def)+
qed

text \<open>Each link of a chain: a takeover after expiry, or a renewal by the holder.\<close>

definition honest_link :: "(u64 \<times> meta) \<times> claim_record option \<Rightarrow> (u64 \<times> meta) \<times> claim_record option \<Rightarrow> bool" where
  "honest_link older newer \<longleftrightarrow> (\<forall>prev rec. snd older = Some prev \<longrightarrow> snd newer = Some rec \<longrightarrow>
     (\<exists>q j opts t token. rec = takeover_record q j opts t token \<and> t_gen t \<noteq> 0 \<and> lease_expired q (co_floor_ns opts) t
        \<and> t_meta t = snd (fst older) \<and> t_duration t = claim_lease_duration_ns prev)
     \<or> (\<exists>q cl. rec = renewal_record q cl \<and> oo_worker_id (q_opts q) = claim_worker_id prev
        \<and> cl_worker_token cl = claim_worker_token prev))"

lemma honest_chain_passes:
  "successively honest_link xs \<Longrightarrow> audit_evidence H q s j chain xs rep = ret rep"
proof (induction H q s j chain xs rep rule: audit_evidence.induct)
  case (1 H q s j chain gm prev gm' rec rest rep)
  have "admissible r p (meta_store_time_ns (snd gm))" if "rec = Some r" "prev = Some p" for r p
    using 1(2) that takeover_admissible renewal_admissible by (fastforce simp: honest_link_def)
  then show ?case
    using 1 by (auto split: option.splits)
qed simp_all

lemma triple_audited: "triple (protected q) (\<lambda>c. True) (claim_many H q opts limit) (audited H q)"
  by (rule triple_weaken [OF triple_claim_many])
    (auto simp: audited_def all_taken_def intro: taken_audited)

end
