(* ===== verification/Test_Oracle.thy ===== *)
theory Test_Oracle
  imports Claim_Runs Audit_Safety
begin

text \<open>
  The logical oracle of the test kit (\<open>stowq-testkit/src/oracle.rs\<close>): the queue protocol as a pure state
  machine over jobs, which the differential driver runs beside the queue. Its own invariants, and that a
  claim of the queue is the claim the oracle predicts.
\<close>

section \<open>Data\<close>

datatype terminal = ReceiptTerminal | DeadTerminal u64

datatype phase =
    Ready u64
  | Claimed u64 u64 u64
  | Backoff u64 u64 u64
  | Terminal terminal

record job_state =
  js_maximum_attempts :: u64
  js_phase :: phase
  js_output :: "digest option"

record queue_oracle =
  or_jobs :: "id16 \<rightharpoonup> job_state"
  or_clock :: u64

definition new_oracle :: queue_oracle where
  "new_oracle = \<lparr>or_jobs = Map.empty, or_clock = 0\<rparr>"

section \<open>Operations\<close>

definition oracle_advance_clock_to :: "u64 \<Rightarrow> queue_oracle \<Rightarrow> queue_oracle" where
  "oracle_advance_clock_to ns orc = orc\<lparr>or_clock := max (or_clock orc) ns\<rparr>"

definition oracle_enqueue :: "id16 \<Rightarrow> u64 \<Rightarrow> u64 \<Rightarrow> queue_oracle \<Rightarrow> bool \<times> queue_oracle" where
  "oracle_enqueue job_id maximum_attempts not_before orc = (case or_jobs orc job_id of
     None \<Rightarrow> (True, orc\<lparr>or_jobs := (or_jobs orc)(job_id \<mapsto>
         \<lparr>js_maximum_attempts = maximum_attempts, js_phase = Ready not_before, js_output = None\<rparr>)\<rparr>)
   | Some existing \<Rightarrow> (js_maximum_attempts existing = maximum_attempts, orc))"

definition oracle_can_claim :: "id16 \<Rightarrow> queue_oracle \<Rightarrow> bool" where
  "oracle_can_claim job_id orc = (case or_jobs orc job_id of
     None \<Rightarrow> False
   | Some state \<Rightarrow> (case js_phase state of
       Ready not_before \<Rightarrow> or_clock orc \<ge> not_before
     | Backoff generation att not_before \<Rightarrow>
         or_clock orc \<ge> not_before \<and> att < js_maximum_attempts state
     | Claimed generation att expiry \<Rightarrow>
         or_clock orc \<ge> expiry \<and> att < js_maximum_attempts state
     | Terminal _ \<Rightarrow> False))"

definition set_phase :: "id16 \<Rightarrow> job_state \<Rightarrow> phase \<Rightarrow> queue_oracle \<Rightarrow> queue_oracle" where
  "set_phase job_id state ph orc = orc\<lparr>or_jobs := (or_jobs orc)(job_id \<mapsto> state\<lparr>js_phase := ph\<rparr>)\<rparr>"

definition oracle_exhaust_if_due :: "id16 \<Rightarrow> queue_oracle \<Rightarrow> bool \<times> queue_oracle" where
  "oracle_exhaust_if_due job_id orc = (case or_jobs orc job_id of
     None \<Rightarrow> (False, orc)
   | Some state \<Rightarrow>
       let due = (case js_phase state of
             Claimed generation att expiry \<Rightarrow>
               or_clock orc \<ge> expiry \<and> att + 1 > js_maximum_attempts state
           | Backoff generation att not_before \<Rightarrow>
               or_clock orc \<ge> not_before \<and> att + 1 > js_maximum_attempts state
           | _ \<Rightarrow> False)
       in (due, if due then set_phase job_id state (Terminal (DeadTerminal 4)) orc else orc))"

definition oracle_claim :: "id16 \<Rightarrow> u64 \<Rightarrow> u64 \<Rightarrow> queue_oracle \<Rightarrow> (u64 \<times> u64) option \<times> queue_oracle" where
  "oracle_claim job_id lease_duration_ns base orc = (case or_jobs orc job_id of
     None \<Rightarrow> (None, orc)
   | Some state \<Rightarrow>
       let clock = or_clock orc; expiry' = saturating_add base lease_duration_ns
       in case js_phase state of
         Ready not_before \<Rightarrow>
           if clock \<ge> not_before then (Some (1, 1), set_phase job_id state (Claimed 1 1 expiry') orc)
           else (None, orc)
       | Backoff generation att not_before \<Rightarrow>
           if clock \<ge> not_before \<and> att < js_maximum_attempts state
           then (Some (generation + 1, att + 1),
                 set_phase job_id state (Claimed (generation + 1) (att + 1) expiry') orc)
           else (None, orc)
       | Claimed generation att expiry \<Rightarrow>
           if clock \<ge> expiry then
             if att + 1 > js_maximum_attempts state
             then (None, set_phase job_id state (Terminal (DeadTerminal 4)) orc)
             else (Some (generation + 1, att + 1),
                   set_phase job_id state (Claimed (generation + 1) (att + 1) expiry') orc)
           else (None, orc)
       | Terminal _ \<Rightarrow> (None, orc))"

definition oracle_renew :: "id16 \<Rightarrow> u64 \<Rightarrow> queue_oracle \<Rightarrow> bool \<times> queue_oracle" where
  "oracle_renew job_id lease_duration_ns orc = (case or_jobs orc job_id of
     None \<Rightarrow> (False, orc)
   | Some state \<Rightarrow> (case js_phase state of
       Claimed generation att expiry \<Rightarrow>
         (True, set_phase job_id state
           (Claimed (generation + 1) att (saturating_add (or_clock orc) lease_duration_ns)) orc)
     | _ \<Rightarrow> (False, orc)))"

definition oracle_override_expiry :: "id16 \<Rightarrow> u64 \<Rightarrow> u64 \<Rightarrow> queue_oracle \<Rightarrow> queue_oracle" where
  "oracle_override_expiry job_id base lease_duration_ns orc = (case or_jobs orc job_id of
     None \<Rightarrow> orc
   | Some state \<Rightarrow> (case js_phase state of
       Claimed generation att expiry \<Rightarrow>
         set_phase job_id state (Claimed generation att (saturating_add base lease_duration_ns)) orc
     | _ \<Rightarrow> orc))"

definition oracle_ack :: "id16 \<Rightarrow> queue_oracle \<Rightarrow> bool \<times> queue_oracle" where
  "oracle_ack job_id orc = (case or_jobs orc job_id of
     None \<Rightarrow> (False, orc)
   | Some state \<Rightarrow> (case js_phase state of
       Claimed generation att expiry \<Rightarrow> (True, set_phase job_id state (Terminal ReceiptTerminal) orc)
     | _ \<Rightarrow> (False, orc)))"

definition oracle_commit_output :: "id16 \<Rightarrow> digest \<Rightarrow> queue_oracle \<Rightarrow> bool \<times> queue_oracle" where
  "oracle_commit_output job_id d orc = (case or_jobs orc job_id of
     None \<Rightarrow> (False, orc)
   | Some state \<Rightarrow> (case js_phase state of
       Claimed generation att expiry \<Rightarrow>
         (True, if js_output state = None
                then orc\<lparr>or_jobs := (or_jobs orc)(job_id \<mapsto> state\<lparr>js_output := Some d\<rparr>)\<rparr> else orc)
     | _ \<Rightarrow> (False, orc)))"

definition oracle_output_digest :: "id16 \<Rightarrow> queue_oracle \<Rightarrow> digest option" where
  "oracle_output_digest job_id orc = Option.bind (or_jobs orc job_id) js_output"

definition oracle_nack :: "id16 \<Rightarrow> u64 \<Rightarrow> queue_oracle \<Rightarrow> bool \<times> queue_oracle" where
  "oracle_nack job_id not_before orc = (case or_jobs orc job_id of
     None \<Rightarrow> (False, orc)
   | Some state \<Rightarrow> (case js_phase state of
       Claimed generation att expiry \<Rightarrow> (True, set_phase job_id state (Backoff generation att not_before) orc)
     | _ \<Rightarrow> (False, orc)))"

definition oracle_bury :: "id16 \<Rightarrow> u64 \<Rightarrow> queue_oracle \<Rightarrow> bool \<times> queue_oracle" where
  "oracle_bury job_id reason orc = (case or_jobs orc job_id of
     None \<Rightarrow> (False, orc)
   | Some state \<Rightarrow> (case js_phase state of
       Claimed generation att expiry \<Rightarrow> (True, set_phase job_id state (Terminal (DeadTerminal reason)) orc)
     | _ \<Rightarrow> (False, orc)))"

section \<open>Steps\<close>

inductive oracle_step :: "queue_oracle \<Rightarrow> queue_oracle \<Rightarrow> bool" where
  "oracle_step orc (oracle_advance_clock_to ns orc)"
| "oracle_step orc (snd (oracle_enqueue j m nb orc))"
| "oracle_step orc (snd (oracle_exhaust_if_due j orc))"
| "oracle_step orc (snd (oracle_claim j lease base orc))"
| "oracle_step orc (snd (oracle_renew j lease orc))"
| "oracle_step orc (oracle_override_expiry j base lease orc)"
| "oracle_step orc (snd (oracle_ack j orc))"
| "oracle_step orc (snd (oracle_commit_output j d orc))"
| "oracle_step orc (snd (oracle_nack j nb orc))"
| "oracle_step orc (snd (oracle_bury j reason orc))"

section \<open>The protocol of one job\<close>

inductive phase_moves :: "u64 \<Rightarrow> phase \<Rightarrow> phase \<Rightarrow> bool" for m :: u64 where
  first_claim: "phase_moves m (Ready nb) (Claimed 1 1 e)"
| retry: "a < m \<Longrightarrow> phase_moves m (Backoff g a nb) (Claimed (g + 1) (a + 1) e)"
| takeover: "a + 1 \<le> m \<Longrightarrow> phase_moves m (Claimed g a e) (Claimed (g + 1) (a + 1) e')"
| renewal: "phase_moves m (Claimed g a e) (Claimed (g + 1) a e')"
| expiry: "phase_moves m (Claimed g a e) (Claimed g a e')"
| backoff: "phase_moves m (Claimed g a e) (Backoff g a nb)"
| settle: "phase_moves m (Claimed g a e) (Terminal x)"
| exhaust: "phase_moves m (Backoff g a nb) (Terminal (DeadTerminal 4))"

inductive job_moves :: "job_state option \<Rightarrow> job_state option \<Rightarrow> bool" where
  same: "job_moves a a"
| fresh: "job_moves None (Some \<lparr>js_maximum_attempts = m, js_phase = Ready nb, js_output = None\<rparr>)"
| move: "phase_moves (js_maximum_attempts st) (js_phase st) ph \<Longrightarrow> job_moves (Some st) (Some (st\<lparr>js_phase := ph\<rparr>))"
| committed: "js_output st = None \<Longrightarrow> job_moves (Some st) (Some (st\<lparr>js_output := Some d\<rparr>))"

lemma set_phase_moves:
  assumes "or_jobs orc j = Some st" "phase_moves (js_maximum_attempts st) (js_phase st) ph"
  shows "job_moves (or_jobs orc k) (or_jobs (set_phase j st ph orc) k)"
  using assms by (auto simp: set_phase_def intro: job_moves.intros)

lemmas moves_intros = job_moves.same job_moves.fresh job_moves.committed set_phase_moves phase_moves.intros

lemma oracle_moves:
  "job_moves (or_jobs orc k) (or_jobs (oracle_advance_clock_to ns orc) k)"
  "job_moves (or_jobs orc k) (or_jobs (snd (oracle_enqueue j m nb orc)) k)"
  "job_moves (or_jobs orc k) (or_jobs (snd (oracle_exhaust_if_due j orc)) k)"
  "job_moves (or_jobs orc k) (or_jobs (snd (oracle_claim j lease base orc)) k)"
  "job_moves (or_jobs orc k) (or_jobs (snd (oracle_renew j lease orc)) k)"
  "job_moves (or_jobs orc k) (or_jobs (oracle_override_expiry j base lease orc) k)"
  "job_moves (or_jobs orc k) (or_jobs (snd (oracle_ack j orc)) k)"
  "job_moves (or_jobs orc k) (or_jobs (snd (oracle_commit_output j d orc)) k)"
  "job_moves (or_jobs orc k) (or_jobs (snd (oracle_nack j nb orc)) k)"
  "job_moves (or_jobs orc k) (or_jobs (snd (oracle_bury j reason orc)) k)"
proof -
  show "job_moves (or_jobs orc k) (or_jobs (snd (oracle_claim j lease base orc)) k)"
  proof (cases "or_jobs orc j")
    case (Some st)
    then show ?thesis
      by (cases "js_phase st") (auto simp: oracle_claim_def Let_def not_less intro!: moves_intros)
  qed (simp add: oracle_claim_def job_moves.same)
qed (auto simp: oracle_advance_clock_to_def oracle_enqueue_def oracle_exhaust_if_due_def
  oracle_renew_def oracle_override_expiry_def oracle_ack_def oracle_commit_output_def oracle_nack_def
  oracle_bury_def Let_def intro!: moves_intros split: option.splits phase.splits)

lemma oracle_step_moves: "oracle_step orc orc' \<Longrightarrow> job_moves (or_jobs orc k) (or_jobs orc' k)"
  by (induction rule: oracle_step.induct) (rule oracle_moves)+

section \<open>Invariants\<close>

text \<open>Generations and attempts after \<open>n\<close> steps; additions do not wrap below \<open>2 ^ 64\<close> steps. The first claim
  does not look at the limit, so a job with limit 0 reaches attempt 1; the queue refuses such a job
  when it is enqueued.\<close>

fun phase_ok :: "nat \<Rightarrow> u64 \<Rightarrow> phase \<Rightarrow> bool" where
  "phase_ok n m (Claimed g a e) = (0 < a \<and> a \<le> g \<and> unat g \<le> n \<and> a \<le> max m 1)"
| "phase_ok n m (Backoff g a nb) = (0 < a \<and> a \<le> g \<and> unat g \<le> n \<and> a \<le> max m 1)"
| "phase_ok n m _ = True"

definition oracle_ok :: "nat \<Rightarrow> queue_oracle \<Rightarrow> bool" where
  "oracle_ok n orc \<longleftrightarrow> (\<forall>j state. or_jobs orc j = Some state \<longrightarrow> phase_ok n (js_maximum_attempts state) (js_phase state))"

lemma phase_ok_mono: "phase_ok n m ph \<Longrightarrow> n \<le> n' \<Longrightarrow> phase_ok n' m ph"
  by (cases ph) auto

lemma phase_ok_Suc: "phase_ok n m ph \<Longrightarrow> phase_ok (Suc n) m ph"
  by (erule phase_ok_mono) simp

text \<open>The next generation and att.\<close>

lemma next_ok:
  fixes a g :: u64
  assumes "0 < a" "a \<le> g" "unat g \<le> n" "n < 2 ^ 64 - 1"
  shows "0 < g + 1" "a \<le> g + 1" "unat (g + 1) \<le> Suc n" "0 < a + 1" "a + 1 \<le> g + 1"
    "a < m \<Longrightarrow> a + 1 \<le> (m :: u64)" "\<not> m < a + 1 \<Longrightarrow> a + 1 \<le> m" "g < g + 1"
  using assms by (auto simp: word_less_nat_alt word_le_nat_alt unat_word_ariths)

lemma phase_moves_ok:
  assumes "phase_moves m ph ph'" "phase_ok n m ph" "n < 2 ^ 64 - 1"
  shows "phase_ok (Suc n) m ph'"
  using assms(1,2)
proof (cases rule: phase_moves.cases)
  case (takeover a g e e')
  then show ?thesis
    using assms(2) next_ok [of a g n] assms(3) by (simp add: le_max_iff_disj)
next
  case (retry a g nb e)
  then show ?thesis
    using assms(2) next_ok [of a g n] assms(3) by (simp add: le_max_iff_disj)
next
  case (renewal g a e e')
  then show ?thesis
    using assms(2) next_ok [of a g n] assms(3) by (simp add: le_max_iff_disj)
qed (auto simp: le_max_iff_disj)

lemma oracle_step_ok:
  assumes "oracle_step orc orc'" "oracle_ok n orc" "n < 2 ^ 64 - 1"
  shows "oracle_ok (Suc n) orc'"
  unfolding oracle_ok_def
proof (intro allI impI)
  fix j st'
  assume st': "or_jobs orc' j = Some st'"
  show "phase_ok (Suc n) (js_maximum_attempts st') (js_phase st')"
    using oracle_step_moves [OF assms(1), of j] assms(2,3) st'
    by (cases rule: job_moves.cases) (auto simp: oracle_ok_def intro: phase_ok_Suc phase_moves_ok)
qed

lemma oracle_steps_ok: "(oracle_step ^^ n) new_oracle orc \<Longrightarrow> n < 2 ^ 64 \<Longrightarrow> oracle_ok n orc"
proof (induction n arbitrary: orc)
  case 0
  then show ?case
    by (auto simp: oracle_ok_def new_oracle_def)
next
  case (Suc n)
  then obtain mid where "(oracle_step ^^ n) new_oracle mid" "oracle_step mid orc"
    by auto
  then show ?case
    using Suc oracle_step_ok [of mid orc n] by simp
qed

text \<open>What never changes again: the attempt limit, a committed output, a terminal phase.\<close>

definition settled_in :: "job_state \<Rightarrow> queue_oracle \<Rightarrow> id16 \<Rightarrow> bool" where
  "settled_in st orc j \<longleftrightarrow> (\<exists>st'. or_jobs orc j = Some st' \<and> js_maximum_attempts st' = js_maximum_attempts st
     \<and> (js_output st \<noteq> None \<longrightarrow> js_output st' = js_output st)
     \<and> (\<forall>x. js_phase st = Terminal x \<longrightarrow> js_phase st' = Terminal x))"

inductive_cases terminal_moves: "phase_moves m (Terminal x) ph"

lemma settled_in_step: "settled_in st orc j \<Longrightarrow> oracle_step orc orc' \<Longrightarrow> settled_in st orc' j"
  using oracle_step_moves [of orc orc' j] unfolding settled_in_def
  by (auto elim!: job_moves.cases terminal_moves)

lemma settled_in_steps: "oracle_step\<^sup>*\<^sup>* orc orc' \<Longrightarrow> settled_in st orc j \<Longrightarrow> settled_in st orc' j"
  by (induction rule: rtranclp_induct) (auto intro: settled_in_step)

section \<open>Predictions\<close>

text \<open>\<open>can_claim\<close> says whether \<open>claim\<close> succeeds.\<close>

lemma oracle_can_claim_iff:
  assumes "oracle_ok n orc" "n < 2 ^ 64 - 1"
  shows "oracle_can_claim j orc \<longleftrightarrow> fst (oracle_claim j lease base orc) \<noteq> None"
proof (cases "or_jobs orc j")
  case (Some st)
  have "phase_ok n (js_maximum_attempts st) (js_phase st)"
    using Some assms(1) by (simp add: oracle_ok_def)
  moreover have "\<not> m < a + 1 \<longleftrightarrow> a < m" if "a \<le> g" "unat g \<le> n" for a g m :: u64
    using that assms(2) by (auto simp: word_less_nat_alt word_le_nat_alt unat_word_ariths)
  ultimately show ?thesis
    using Some by (cases "js_phase st") (auto simp: oracle_can_claim_def oracle_claim_def Let_def)
qed (simp add: oracle_can_claim_def oracle_claim_def)

text \<open>The phase of a job as the store shows it: no terminal record, the tail of the claim chain, and the fail
  record of its newest generation.\<close>

definition phase_shown :: "job_record \<Rightarrow> tail_state \<Rightarrow> fail_record option \<Rightarrow> phase" where
  "phase_shown job t failed =
     (if t_gen t = 0 then Ready (case job_not_before_ns job of None \<Rightarrow> 0 | Some nb \<Rightarrow> nb)
      else case failed of
        Some f \<Rightarrow> Backoff (t_gen t) (t_attempt t) (fail_retry_not_before_ns f)
      | None \<Rightarrow> Claimed (t_gen t) (t_attempt t) (saturating_add (meta_store_time_ns (t_meta t)) (t_duration t)))"

definition mirrors :: "hash_fn \<Rightarrow> queue \<Rightarrow> u16 \<Rightarrow> id16 \<Rightarrow> tail_state \<Rightarrow> memory_store \<Rightarrow> queue_oracle \<Rightarrow> bool" where
  "mirrors H q shard j t s orc \<longleftrightarrow> (\<exists>job failed st.
     record_at H q (KeyJob shard j) (RecordJob job) (mem_contents s)
     \<and> (case failed of None \<Rightarrow> mem_contents s (absolute q (KeyFail shard j (ucast (t_gen t)))) = None
        | Some f \<Rightarrow> record_at H q (KeyFail shard j (ucast (t_gen t))) (RecordFail f) (mem_contents s))
     \<and> or_jobs orc j = Some st \<and> js_maximum_attempts st = job_maximum_attempts job
     \<and> js_phase st = phase_shown job t failed)"

lemma record_at_unique: "record_at H q rel r c \<Longrightarrow> record_at H q rel r' c \<Longrightarrow> r = r'"
  by (auto simp: record_at_def)

lemma claimable_predicted:
  assumes ok: "claimable H q shard j opts t s" and "mirrors H q shard j t s orc" "or_clock orc = co_floor_ns opts" and att: "t_attempt t \<noteq> - 1"
  shows "fst (oracle_claim j lease base orc) = Some (t_gen t + 1, t_attempt t + 1)"
proof -
  obtain job failed st where m: "record_at H q (KeyJob shard j) (RecordJob job) (mem_contents s)"
      "case failed of None \<Rightarrow> mem_contents s (absolute q (KeyFail shard j (ucast (t_gen t)))) = None
        | Some f \<Rightarrow> record_at H q (KeyFail shard j (ucast (t_gen t))) (RecordFail f) (mem_contents s)"
      "or_jobs orc j = Some st" "js_maximum_attempts st = job_maximum_attempts job" "js_phase st = phase_shown job t failed"
    using assms(2) by (auto simp: mirrors_def)
  have job: "t_attempt t + 1 \<le> job_maximum_attempts job" "\<And>nb. job_not_before_ns job = Some nb \<Longrightarrow> nb \<le> co_floor_ns opts"
    using ok m(1) by (auto simp: claimable_def job_admits_def record_at_def)
  have "unat (t_attempt t) \<noteq> 2 ^ 64 - 1"
    using att unat_max_word [where 'a = 64] by (auto simp: word_unat_eq_iff)
  then have less: "t_attempt t < job_maximum_attempts job" "\<not> job_maximum_attempts job < t_attempt t + 1"
    using job(1) unsigned_less [of "t_attempt t", where 'a = nat] by (auto simp: word_less_nat_alt word_le_nat_alt unat_word_ariths)
  show ?thesis
  proof (cases "t_gen t = 0")
    case True
    then have "t = no_tail"
      using ok by (simp add: claimable_def tail_shown_def)
    then show ?thesis
      using m(3-5) job(2) assms(3) by (auto simp: phase_shown_def oracle_claim_def Let_def split: option.splits)
  next
    case False
    then have "failed = Some f \<Longrightarrow> fail_retry_not_before_ns f \<le> co_floor_ns opts" for f
      using ok m(2) by (auto simp: claimable_def backoff_over_def record_at_def)
    moreover have "saturating_add (meta_store_time_ns (t_meta t)) (t_duration t) \<le> co_floor_ns opts"
      using ok False by (auto simp: claimable_def lease_expired_def dest: saturating_add_le)
    ultimately show ?thesis
      using False m(3-5) less assms(3)
      by (auto simp: phase_shown_def oracle_claim_def Let_def split: option.splits)
  qed
qed

section \<open>The generator of the differential driver\<close>

text \<open>\<open>splitmix64\<close>; the state of the generator is one word.\<close>

definition rng_new :: "u64 \<Rightarrow> u64" where
  "rng_new seed = seed + 0x9e3779b97f4a7c15"

definition rng_next_u64 :: "u64 \<Rightarrow> u64 \<times> u64" where
  "rng_next_u64 r =
     (let s = r + 0x9e3779b97f4a7c15;
          z = (xor s (drop_bit 30 s)) * 0xbf58476d1ce4e5b9;
          z = (xor z (drop_bit 27 z)) * 0x94d049bb133111eb
      in (xor z (drop_bit 31 z), s))"

definition rng_below :: "u64 \<Rightarrow> u64 \<Rightarrow> u64 \<times> u64" where
  "rng_below r n = (let (x, s) = rng_next_u64 r in (x mod n, s))"

datatype drive_op =
    DriveEnqueue nat
  | DriveClaim
  | DriveRenew nat
  | DriveAck nat
  | DriveNack nat
  | DriveBury nat
  | DriveCommitOutput nat
  | DriveClaimMany nat
  | DriveAdvanceClock u64

definition gen_op :: "u64 \<Rightarrow> nat \<Rightarrow> drive_op \<times> u64" where
  "gen_op r jobs =
     (let (x, r) = rng_below r (of_nat jobs); job = unat x; (k, r) = rng_below r 9
      in if k = 0 then (DriveEnqueue job, r)
         else if k = 1 then (DriveClaim, r)
         else if k = 2 then (DriveRenew job, r)
         else if k = 3 then (DriveAck job, r)
         else if k = 4 then (DriveNack job, r)
         else if k = 5 then (DriveBury job, r)
         else if k = 6 then (DriveCommitOutput job, r)
         else if k = 7 then (DriveClaimMany (2 + job mod 2), r)
         else let (b, r) = rng_below r 34 in (DriveAdvanceClock (push_bit (unat b) 1 - 1), r))"

primrec gen_ops :: "nat \<Rightarrow> u64 \<Rightarrow> nat \<Rightarrow> drive_op list" where
  "gen_ops 0 r jobs = []"
| "gen_ops (Suc n) r jobs = (let (op, r) = gen_op r jobs in op # gen_ops n r jobs)"

definition driver_job_id :: "nat \<Rightarrow> id16" where
  "driver_job_id index = from_be_bytes (to_be_bytes (of_nat index :: u64) @ replicate 8 0)"

definition driver_job_index :: "id16 \<Rightarrow> nat" where
  "driver_job_index i = unat (from_be_bytes (take 8 (to_be_bytes i)) :: u64)"

lemma driver_job_index_id: "n < 2 ^ 64 \<Longrightarrow> driver_job_index (driver_job_id n) = n"
  by (simp add: driver_job_index_def driver_job_id_def be_simps unat_of_nat)

text \<open>The operations of a sequence stay within the configuration.\<close>

fun op_fits :: "nat \<Rightarrow> drive_op \<Rightarrow> bool" where
  "op_fits jobs (DriveEnqueue j) = (j < jobs)"
| "op_fits jobs (DriveRenew j) = (j < jobs)"
| "op_fits jobs (DriveAck j) = (j < jobs)"
| "op_fits jobs (DriveNack j) = (j < jobs)"
| "op_fits jobs (DriveBury j) = (j < jobs)"
| "op_fits jobs (DriveCommitOutput j) = (j < jobs)"
| "op_fits jobs (DriveClaimMany n) = (n = 2 \<or> n = 3)"
| "op_fits jobs (DriveAdvanceClock t) = (t < 2 ^ 34)"
| "op_fits jobs DriveClaim = True"

lemma rng_below_less: "0 < n \<Longrightarrow> unat (fst (rng_below r n)) < unat n"
  by (simp add: rng_below_def rng_next_u64_def Let_def unat_mod word_less_nat_alt)

lemma clock_fits:
  assumes "n < 34"
  shows "push_bit n 1 - (1 :: u64) < 2 ^ 34"
proof -
  have small: "(2 :: nat) ^ n < 2 ^ 34"
    using assms by (intro power_strict_increasing) simp_all
  then have "unat (of_nat (2 ^ n) :: u64) = 2 ^ n"
    by (subst unat_of_nat) simp
  then show ?thesis
    using small by (simp add: push_bit_of_1 word_less_nat_alt unat_sub word_le_nat_alt)
qed

lemma gen_op_fits:
  assumes "0 < jobs" "jobs < 2 ^ 64"
  shows "op_fits jobs (fst (gen_op r jobs))"
proof -
  have "unat (of_nat jobs :: u64) = jobs"
    using assms(2) by (simp add: unat_of_nat)
  then have "unat (fst (rng_below r' (of_nat jobs))) < jobs" for r'
    using rng_below_less [of "of_nat jobs" r'] assms(1) by (simp add: word_less_nat_alt)
  moreover have "unat (fst (rng_below r' 34)) < 34" for r'
    using rng_below_less [of 34 r'] by simp
  ultimately show ?thesis
    using clock_fits by (auto simp: gen_op_def Let_def split_beta)
qed

lemma gen_ops_fit:
  "0 < jobs \<Longrightarrow> jobs < 2 ^ 64 \<Longrightarrow> length (gen_ops n r jobs) = n \<and> list_all (op_fits jobs) (gen_ops n r jobs)"
  by (induction n arbitrary: r) (auto simp: split_beta Let_def gen_op_fits)

end
