(* ===== verification/Worker.thy ===== *)
theory Worker
  imports Settle_Safety Claim_Safety Queue_Sweep
begin

text \<open>
  The consumer harness (\<open>stowq-worker/src/lib.rs\<close>): a doorbell hint becomes at most one delivery, and a
  delivery runs claim, verified payload, execution with renewals, outputs, acknowledgement. The
  executor is application code: the parameter \<open>exec\<close> gives, for a job and its payload, the number of
  renewal periods that pass before it answers and its answer. Metrics are a value that is threaded
  through; wall-clock readings are answers of the environment.
\<close>

section \<open>Doorbells\<close>

record doorbell_msg =
  bell_shards :: "u16 list"

definition bell_shard :: "u16 \<Rightarrow> doorbell_msg" where
  "bell_shard shard = \<lparr>bell_shards = [shard]\<rparr>"

definition bell_sweep :: doorbell_msg where
  "bell_sweep = \<lparr>bell_shards = []\<rparr>"

record stub_doorbell =
  bell_pending :: "doorbell_msg list"

definition stub_ring :: "doorbell_msg \<Rightarrow> stub_doorbell \<Rightarrow> stub_doorbell" where
  "stub_ring msg d = d\<lparr>bell_pending := bell_pending d @ [msg]\<rparr>"

definition stub_recv :: "stub_doorbell \<Rightarrow> doorbell_msg option \<times> stub_doorbell" where
  "stub_recv d = (case bell_pending d of
     [] \<Rightarrow> (None, d)
   | msg # rest \<Rightarrow> (Some msg, d\<lparr>bell_pending := rest\<rparr>))"

section \<open>Executors\<close>

record executor_output =
  eo_name :: string
  eo_body :: bytes

datatype execution_failure = Retryable u64 | Permanent u64

type_synonym executed = "execution_failure + executor_output list"

type_synonym executor = "id16 \<Rightarrow> bytes \<Rightarrow> nat \<times> executed"

section \<open>Metrics\<close>

record metrics =
  mt_hints :: u64
  mt_no_work :: u64
  mt_delivered :: u64
  mt_failed_retryable :: u64
  mt_failed_permanent :: u64
  mt_lost_lease :: u64
  mt_renewals :: u64
  mt_renewals_lost :: u64
  mt_store_errors :: u64
  mt_delivery_ms :: "u64 list"

definition bucket_idx :: "nat \<Rightarrow> nat" where
  "bucket_idx ms =
     (if ms \<le> 9 then 0 else if ms \<le> 49 then 1 else if ms \<le> 99 then 2 else if ms \<le> 249 then 3
      else if ms \<le> 499 then 4 else if ms \<le> 999 then 5 else if ms \<le> 2499 then 6
      else if ms \<le> 4999 then 7 else 8)"

definition record_delivery :: "nat \<Rightarrow> metrics \<Rightarrow> metrics" where
  "record_delivery ms m =
     m\<lparr>mt_delivery_ms := (mt_delivery_ms m)[bucket_idx ms := mt_delivery_ms m ! bucket_idx ms + 1]\<rparr>"

section \<open>Deliveries\<close>

definition DELIVERY_BUDGET_OPS :: nat where
  "DELIVERY_BUDGET_OPS = 1024"

datatype delivery_report =
    NoWork
  | Delivered "committed_output list"
  | Failed execution_failure bool
  | LostLease

definition count_report :: "delivery_report \<Rightarrow> metrics \<Rightarrow> metrics" where
  "count_report report m = (case report of
     NoWork \<Rightarrow> m\<lparr>mt_no_work := mt_no_work m + 1\<rparr>
   | Delivered _ \<Rightarrow> m\<lparr>mt_delivered := mt_delivered m + 1\<rparr>
   | Failed _ buried \<Rightarrow>
       if buried then m\<lparr>mt_failed_permanent := mt_failed_permanent m + 1\<rparr>
       else m\<lparr>mt_failed_retryable := mt_failed_retryable m + 1\<rparr>
   | LostLease \<Rightarrow> m\<lparr>mt_lost_lease := mt_lost_lease m + 1\<rparr>)"

primrec commit_all :: "hash_fn \<Rightarrow> queue \<Rightarrow> claim \<Rightarrow> executor_output list \<Rightarrow> committed_output list op" where
  "commit_all H q cl [] = ret []"
| "commit_all H q cl (out # outs) =
     and_then (commit_output H q cl (eo_name out) (eo_body out)) (\<lambda>c.
     and_then (commit_all H q cl outs) (\<lambda>cs.
       ret ((case c of OutputCommitted o' \<Rightarrow> o' | Converged o' \<Rightarrow> o') # cs)))"

definition same_completion :: "digest \<Rightarrow> committed_output list \<Rightarrow> receipt_record \<Rightarrow> bool" where
  "same_completion digest outs r \<longleftrightarrow>
     receipt_payload_digest r = digest \<and> receipt_output_digests r = map out_digest outs"

definition finish_outputs :: "hash_fn \<Rightarrow> queue \<Rightarrow> claim \<Rightarrow> digest \<Rightarrow> committed_output list \<Rightarrow> delivery_report op" where
  "finish_outputs H q cl digest outs =
     attempt (ack_with_outputs H q cl outs) (\<lambda>x. case x of
       Inr SupersededByDead \<Rightarrow> ret LostLease
     | Inr _ \<Rightarrow> ret (Delivered outs)
     | Inl e \<Rightarrow>
         if e = ReceiptEvidenceMismatch then
           and_then (receipt_for H q (cl_shard cl) (cl_job_id cl)) (\<lambda>r.
             if (case r of Some r \<Rightarrow> same_completion digest outs r | None \<Rightarrow> False)
             then ret (Delivered outs) else fail ReceiptEvidenceMismatch)
         else fail e)"

definition finish_delivery :: "hash_fn \<Rightarrow> queue \<Rightarrow> claim \<Rightarrow> executed \<Rightarrow> digest \<Rightarrow> delivery_report op" where
  "finish_delivery H q cl executed digest = (case executed of
     Inr outputs \<Rightarrow> and_then (commit_all H q cl outputs) (finish_outputs H q cl digest)
   | Inl (Retryable reason) \<Rightarrow>
       and_then (establish_floor H q) (\<lambda>floor_ns.
       and_then (nack H q cl reason floor_ns) (\<lambda>_. ret (Failed (Retryable reason) False)))
   | Inl (Permanent reason) \<Rightarrow>
       and_then (bury H q cl reason) (\<lambda>b. ret (Failed (Permanent reason) (b = Buried))))"

text \<open>The loop around the executor: \<open>ticks\<close> renewal periods pass before it answers.\<close>

primrec deliver_loop :: "hash_fn \<Rightarrow> queue \<Rightarrow> executed \<Rightarrow> digest \<Rightarrow> nat \<Rightarrow> claim \<Rightarrow> metrics option
    \<Rightarrow> ((queue_error + delivery_report) \<times> metrics option) op" where
  "deliver_loop H q executed digest 0 cl m =
     attempt (finish_delivery H q cl executed digest) (\<lambda>x. ret (x, m))"
| "deliver_loop H q executed digest (Suc ticks) cl m =
     attempt (renew H q cl) (\<lambda>x. case x of
       Inl e \<Rightarrow> ret (Inl e, m)
     | Inr (Renewed cl') \<Rightarrow>
         deliver_loop H q executed digest ticks cl'
           (map_option (\<lambda>m. m\<lparr>mt_renewals := mt_renewals m + 1\<rparr>) m)
     | Inr LeaseLost \<Rightarrow>
         ret (Inr LostLease, map_option (\<lambda>m. m\<lparr>mt_renewals_lost := mt_renewals_lost m + 1\<rparr>) m))"

definition deliver_one :: "hash_fn \<Rightarrow> queue \<Rightarrow> executor \<Rightarrow> claim \<Rightarrow> metrics option
    \<Rightarrow> ((queue_error + delivery_report) \<times> metrics option) op" where
  "deliver_one H q exec_fn cl m =
     attempt (claim_payload H cl) (\<lambda>x. case x of
       Inl e \<Rightarrow> ret (Inl e, m)
     | Inr payload \<Rightarrow>
         (case exec_fn (cl_job_id cl) payload of (ticks, executed) \<Rightarrow>
            deliver_loop H q executed (H payload) ticks cl m))"

definition hinted_shards :: "queue \<Rightarrow> doorbell_msg \<Rightarrow> u16 list" where
  "hinted_shards q msg =
     (if bell_shards msg = [] then map of_nat [0..<unat (fmt_shard_count (q_format q))] else bell_shards msg)"

primrec claim_first :: "hash_fn \<Rightarrow> queue \<Rightarrow> u64 \<Rightarrow> u64 \<Rightarrow> u16 list \<Rightarrow> claim option op" where
  "claim_first H q floor_ns lease [] = ret None"
| "claim_first H q floor_ns lease (shard # shards) =
     and_then (claim_one H q \<lparr>co_shard = shard, co_floor_ns = floor_ns, co_lease_duration_ns = lease\<rparr>) (\<lambda>c.
       case c of Some cl \<Rightarrow> ret (Some cl) | None \<Rightarrow> claim_first H q floor_ns lease shards)"

definition find_work :: "hash_fn \<Rightarrow> queue \<Rightarrow> doorbell_msg \<Rightarrow> u64 \<Rightarrow> claim option op" where
  "find_work H q msg lease =
     and_then (establish_floor H q) (\<lambda>floor_ns. claim_first H q floor_ns lease (hinted_shards q msg))"

definition run_delivery_inner :: "hash_fn \<Rightarrow> queue \<Rightarrow> doorbell_msg \<Rightarrow> executor \<Rightarrow> u64 \<Rightarrow> metrics option
    \<Rightarrow> ((queue_error + delivery_report) \<times> metrics option) op" where
  "run_delivery_inner H q msg exec_fn lease m =
     attempt (find_work H q msg lease) (\<lambda>x. case x of
       Inl e \<Rightarrow> ret (Inl e, m)
     | Inr None \<Rightarrow> ret (Inr NoWork, m)
     | Inr (Some cl) \<Rightarrow> deliver_one H q exec_fn cl m)"

text \<open>An operation with a budget of its own.\<close>

definition fresh_budget :: "nat \<Rightarrow> 'a op \<Rightarrow> 'a op" where
  "fresh_budget b m = and_then (with_budget b m) (\<lambda>(x, left). of_result x)"

definition elapsed_ms :: "u64 \<Rightarrow> u64 \<Rightarrow> nat" where
  "elapsed_ms start now = (unat now - unat start) div 1000000"

definition timed_report :: "u64 \<Rightarrow> (queue_error + delivery_report) \<times> metrics option
    \<Rightarrow> ((queue_error + delivery_report) \<times> metrics option) op" where
  "timed_report start xm = (case xm of
     (Inl e, m) \<Rightarrow> ret (Inl e, m)
   | (Inr report, m) \<Rightarrow>
       and_then elapsed_ns (\<lambda>now.
         ret (Inr report, map_option (\<lambda>m. count_report report (record_delivery (elapsed_ms start now) m)) m)))"

definition count_error :: "(queue_error + 'a) \<times> metrics option \<Rightarrow> (queue_error + 'a) \<times> metrics option" where
  "count_error xm = (case xm of
     (Inl e, m) \<Rightarrow> (Inl e, map_option (\<lambda>m. m\<lparr>mt_store_errors := mt_store_errors m + 1\<rparr>) m)
   | (Inr x, m) \<Rightarrow> (Inr x, m))"

definition run_delivery_with :: "hash_fn \<Rightarrow> queue \<Rightarrow> doorbell_msg \<Rightarrow> executor \<Rightarrow> u64 \<Rightarrow> metrics option
    \<Rightarrow> ((queue_error + delivery_report) \<times> metrics option) op" where
  "run_delivery_with H q msg exec_fn lease m =
     (let m = map_option (\<lambda>m. m\<lparr>mt_hints := mt_hints m + 1\<rparr>) m
      in and_then elapsed_ns (\<lambda>start.
         and_then (fresh_budget DELIVERY_BUDGET_OPS (run_delivery_inner H q msg exec_fn lease m)) (\<lambda>xm.
         and_then (timed_report start xm) (\<lambda>xm. ret (count_error xm)))))"

definition run_delivery :: "hash_fn \<Rightarrow> queue \<Rightarrow> doorbell_msg \<Rightarrow> executor \<Rightarrow> u64 \<Rightarrow> delivery_report op" where
  "run_delivery H q msg exec_fn lease =
     and_then (run_delivery_with H q msg exec_fn lease None) (\<lambda>(x, m). of_result x)"

section \<open>Batches\<close>

primrec claim_batch :: "hash_fn \<Rightarrow> queue \<Rightarrow> u64 \<Rightarrow> u64 \<Rightarrow> nat \<Rightarrow> u16 list \<Rightarrow> claim list \<Rightarrow> claim list op" where
  "claim_batch H q floor_ns lease batch [] claims = ret claims"
| "claim_batch H q floor_ns lease batch (shard # shards) claims =
     (if batch \<le> length claims then ret claims
      else and_then (claim_many H q \<lparr>co_shard = shard, co_floor_ns = floor_ns, co_lease_duration_ns = lease\<rparr>
             (batch - length claims)) (\<lambda>more. claim_batch H q floor_ns lease batch shards (claims @ more)))"

text \<open>The deliveries of a batch are awaited together; each has its own budget. The results come in
  claim order.\<close>

primrec deliver_all :: "hash_fn \<Rightarrow> queue \<Rightarrow> executor \<Rightarrow> claim list \<Rightarrow> metrics option
    \<Rightarrow> ((queue_error + delivery_report) list \<times> metrics option) op" where
  "deliver_all H q exec_fn [] m = ret ([], m)"
| "deliver_all H q exec_fn (cl # cls) m =
     and_then elapsed_ns (\<lambda>start.
     and_then (fresh_budget DELIVERY_BUDGET_OPS (deliver_one H q exec_fn cl m)) (\<lambda>xm.
     and_then (timed_report start xm) (\<lambda>(x, m).
     and_then (deliver_all H q exec_fn cls m) (\<lambda>(xs, m). ret (x # xs, m)))))"

primrec all_ok :: "(queue_error + 'a) list \<Rightarrow> queue_error + 'a list" where
  "all_ok [] = Inr []"
| "all_ok (x # xs) = sum_bind x (\<lambda>y. sum_bind (all_ok xs) (\<lambda>ys. Inr (y # ys)))"

definition run_batch_with :: "hash_fn \<Rightarrow> queue \<Rightarrow> doorbell_msg \<Rightarrow> executor \<Rightarrow> u64 \<Rightarrow> nat \<Rightarrow> metrics option
    \<Rightarrow> ((queue_error + delivery_report list) \<times> metrics option) op" where
  "run_batch_with H q msg exec_fn lease batch m =
     (let m = map_option (\<lambda>m. m\<lparr>mt_hints := mt_hints m + 1\<rparr>) m
      in attempt (fresh_budget DELIVERY_BUDGET_OPS (and_then (establish_floor H q) (\<lambda>floor_ns.
             claim_batch H q floor_ns lease batch (hinted_shards q msg) []))) (\<lambda>x. case x of
           Inl e \<Rightarrow> ret (count_error (Inl e, m))
         | Inr claims \<Rightarrow>
             and_then (deliver_all H q exec_fn claims m) (\<lambda>(xs, m). ret (count_error (all_ok xs, m)))))"

section \<open>The sweeper\<close>

definition sweep_once :: "hash_fn \<Rightarrow> queue \<Rightarrow> sweep_report op" where
  "sweep_once H q =
     and_then (establish_floor H q) (\<lambda>floor_ns.
     and_then (sweep_expired_leases H q floor_ns) (\<lambda>leases.
     and_then (sweep_delayed H q floor_ns) (\<lambda>delayed.
       ret \<lparr>sw_entries = sw_entries leases + sw_entries delayed, sw_reclaimed = sw_reclaimed leases,
            sw_promoted = sw_promoted delayed\<rparr>)))"

text \<open>The sweeper runs until it observes the stop signal, here after \<open>rounds\<close> passes.\<close>

primrec run_sweeper :: "hash_fn \<Rightarrow> queue \<Rightarrow> nat \<Rightarrow> unit op" where
  "run_sweeper H q 0 = ret ()"
| "run_sweeper H q (Suc rounds) =
     and_then (fresh_budget 4096 (sweep_once H q)) (\<lambda>_. run_sweeper H q rounds)"

section \<open>Requests\<close>

lemma emits_fresh_budget [emits_rules]: "emits_op G m \<Longrightarrow> emits_op G (fresh_budget b m)"
  unfolding fresh_budget_def by (auto intro!: emits_rules)

lemma emits_ack_with_outputs [emits_rules]: "emits_op (harmless (protected q)) (ack_with_outputs H q cl outs)"
  unfolding ack_with_outputs_def by (rule emits_rules)

lemma emits_commit_all [emits_rules]: "emits_op (harmless (protected q)) (commit_all H q cl outs)"
  by (induction outs) (auto intro!: emits_rules)

lemma emits_finish_delivery [emits_rules]: "emits_op (harmless (protected q)) (finish_delivery H q cl ex d)"
  unfolding finish_delivery_def finish_outputs_def
  by (auto intro!: emits_rules split: sum.splits ack_outcome.splits execution_failure.splits)

lemma emits_deliver_loop [emits_rules]: "emits_op (harmless (protected q)) (deliver_loop H q ex d n cl m)"
  by (induction n arbitrary: cl m) (auto intro!: emits_rules split: sum.splits renew_outcome.splits)

lemma emits_deliver_one [emits_rules]: "emits_op (harmless (protected q)) (deliver_one H q exec_fn cl m)"
  unfolding deliver_one_def by (auto intro!: emits_rules split: sum.splits prod.splits)

lemma emits_find_work [emits_rules]: "emits_op (harmless (protected q)) (find_work H q msg lease)"
proof -
  have "emits_op (harmless (protected q)) (claim_first H q f lease ss)" for f ss
    by (induction ss) (auto intro!: emits_rules split: option.splits)
  then show ?thesis
    unfolding find_work_def by (auto intro!: emits_rules)
qed

lemma emits_timed_report [emits_rules]: "emits_op G (timed_report start xm)"
  unfolding timed_report_def by (auto intro!: emits_rules split: sum.splits prod.splits)

lemma emits_run_delivery: "emits_op (harmless (protected q)) (run_delivery_with H q msg exec_fn lease m)"
  unfolding run_delivery_with_def run_delivery_inner_def Let_def
  by (auto intro!: emits_rules split: sum.splits option.splits)

lemma emits_run_batch: "emits_op (harmless (protected q)) (run_batch_with H q msg exec_fn lease batch m)"
proof -
  have "emits_op (harmless (protected q)) (claim_batch H q f lease batch ss cls)" for f ss cls
    by (induction ss arbitrary: cls) (auto intro!: emits_rules)
  moreover have "emits_op (harmless (protected q)) (deliver_all H q exec_fn cls m)" for cls m
    by (induction cls arbitrary: m) (auto intro!: emits_rules split: prod.splits)
  ultimately show ?thesis
    unfolding run_batch_with_def Let_def by (auto intro!: emits_rules split: sum.splits prod.splits)
qed

lemma emits_run_sweeper: "emits_op (harmless (protected q)) (run_sweeper H q rounds)"
  by (induction rounds) (auto simp: sweep_once_def intro!: emits_rules)

section \<open>Budget\<close>

lemma within_commit_all [costs_rules]: "within c (commit_all H q cl outs)"
  by (induction outs arbitrary: c) (auto intro!: within_then costs_rules)

lemma within_finish_delivery [costs_rules]: "within c (finish_delivery H q cl ex d)"
  unfolding finish_delivery_def finish_outputs_def ack_with_outputs_def
  by (auto intro!: within_then within_attempt costs_rules within_if
    split: sum.splits ack_outcome.splits execution_failure.splits)

lemma within_deliver_loop [costs_rules]: "within c (deliver_loop H q ex d n cl m)"
  by (induction n arbitrary: cl m c)
    (auto intro!: within_attempt costs_rules split: sum.splits renew_outcome.splits)

lemma within_deliver_one: "within (Suc c) (deliver_one H q exec_fn cl m)"
  unfolding deliver_one_def
  by (auto intro!: within_attempt within_claim_payload costs_rules split: sum.splits prod.splits)

lemma within_find_work [costs_rules]: "within c (find_work H q msg lease)"
proof -
  have "within c (claim_first H q f lease ss)" for f ss c
    by (induction ss arbitrary: c) (auto intro!: within_then costs_rules split: option.splits)
  then show ?thesis
    unfolding find_work_def by (auto intro!: within_then costs_rules)
qed

text \<open>Credit that an operation leaves alone is there for the next one.\<close>

lemma within_attempt_later:
  assumes "within 0 m" "\<And>r. within c (f r)"
  shows "within c (attempt m f)"
  unfolding within_def attempt_def
proof (intro allI impI)
  fix h :: handle and n
  assume n: "max_ops h + c \<le> n"
  then have "costs paid (m h) (n - c)"
    using assms(1) by (simp add: within_def)
  from costs_frame [OF this, of c] n have "costs (\<lambda>n' x. c \<le> n' \<and> paid (n' - c) x) (m h) n"
    by simp
  then show "costs paid (bind_prog (m h) (\<lambda>(r, h'). f r h')) n"
    by (rule costs_bindI) (use assms(2) in \<open>auto simp: within_def paid_def\<close>)
qed

lemma within_run_delivery_inner: "within (Suc c) (run_delivery_inner H q msg exec_fn lease m)"
  unfolding run_delivery_inner_def
  by (rule within_attempt_later)
    (auto intro!: within_deliver_one costs_rules split: sum.splits option.splits)

lemma costs_fresh_budget:
  assumes "within c m"
  shows "costs (\<lambda>n x. True) (fresh_budget b m h) (b + c)"
proof -
  have "costs paid (m (h\<lparr>max_ops := b\<rparr>)) (b + c)"
    using assms by (simp add: within_def)
  then show ?thesis
    unfolding fresh_budget_def with_budget_def and_then_def bind_prog_assoc
    by (rule costs_bindI) (auto simp: op_defs split: sum.splits)
qed

lemma costs_run_delivery:
  "costs (\<lambda>n x. True) (run_delivery_with H q msg exec_fn lease m h) (Suc DELIVERY_BUDGET_OPS)"
  unfolding run_delivery_with_def Let_def
proof -
  let ?m = "map_option (\<lambda>m. m\<lparr>mt_hints := mt_hints m + 1\<rparr>) m"
  have tail: "costs (\<lambda>n x. True) (and_then (timed_report start xm) (\<lambda>xm. ret (count_error xm)) h') n" for start xm h' n
    by (auto simp: timed_report_def op_defs split: sum.splits prod.splits)
  have inner: "costs (\<lambda>n x. True)
      (fresh_budget DELIVERY_BUDGET_OPS (run_delivery_inner H q msg exec_fn lease ?m) h) (Suc DELIVERY_BUDGET_OPS)"
    using costs_fresh_budget [OF within_run_delivery_inner [of 0]] by simp
  have "costs (\<lambda>n x. True) (and_then (fresh_budget DELIVERY_BUDGET_OPS (run_delivery_inner H q msg exec_fn lease ?m))
      (\<lambda>xm. and_then (timed_report start xm) (\<lambda>xm. ret (count_error xm))) h) (Suc DELIVERY_BUDGET_OPS)" for start
    unfolding and_then_def [of "fresh_budget b n" for b n]
    by (rule costs_bindI [OF inner]) (auto split: sum.splits intro: tail)
  then show "costs (\<lambda>n x. True) (and_then elapsed_ns (\<lambda>start.
      and_then (fresh_budget DELIVERY_BUDGET_OPS (run_delivery_inner H q msg exec_fn lease ?m)) (\<lambda>xm.
      and_then (timed_report start xm) (\<lambda>xm. ret (count_error xm)))) h) (Suc DELIVERY_BUDGET_OPS)"
    by (simp add: elapsed_ns_def and_then_def [of "\<lambda>h. Clock (k h)" for k])
qed

section \<open>Termination\<close>

lemma ends_with_budget: "(\<And>k. ends k m) \<Longrightarrow> ends n (fresh_budget b m)"
  unfolding ends_def
proof (intro allI impI)
  fix h :: handle
  assume m: "\<And>k. \<forall>h. max_ops h < k \<longrightarrow> returns (ended (max_ops h)) (m h)"
  have "returns (ended b) (m (h\<lparr>max_ops := b\<rparr>))"
    using m [of "Suc b", rule_format, of "h\<lparr>max_ops := b\<rparr>"] by simp
  then show "returns (ended (max_ops h)) (fresh_budget b m h)"
    unfolding fresh_budget_def with_budget_def and_then_def bind_prog_assoc
    by (rule returns_bindI) (auto simp: ended_def op_defs split: sum.splits)
qed

lemma ends_commit_all [simp]: "ends n (commit_all H q cl outs)"
  by (induction outs) (auto intro!: ends_rules)

lemma ends_finish_delivery [simp]: "ends n (finish_delivery H q cl ex d)"
  unfolding finish_delivery_def finish_outputs_def ack_with_outputs_def
  by (auto intro!: ends_rules split: sum.splits ack_outcome.splits execution_failure.splits)

text \<open>The harness returns errors as values; \<open>ends_with V\<close> also bounds the value returned.\<close>

definition ended_with :: "('a \<Rightarrow> bool) \<Rightarrow> nat \<Rightarrow> (queue_error + 'a) \<times> handle \<Rightarrow> bool" where
  "ended_with V b x \<longleftrightarrow> ended b x \<and> (\<forall>v. fst x = Inr v \<longrightarrow> V v)"

definition ends_with :: "('a \<Rightarrow> bool) \<Rightarrow> 'a op \<Rightarrow> bool" where
  "ends_with V m \<longleftrightarrow> (\<forall>h. returns (ended_with V (max_ops h)) (m h))"

definition no_fuel_error :: "(queue_error + 'a) \<times> 'b \<Rightarrow> bool" where
  "no_fuel_error x \<longleftrightarrow> fst x \<noteq> Inl OutOfFuel"

lemma ends_with_ret: "V x \<Longrightarrow> ends_with V (ret x)"
  by (simp add: ends_with_def ended_with_def ended_def ret_def)

lemma ends_with_attempt:
  assumes "\<And>n. ends n m" "\<And>r. r \<noteq> Inl OutOfFuel \<Longrightarrow> ends_with V (f r)"
  shows "ends_with V (attempt m f)"
  unfolding ends_with_def attempt_def
proof (rule allI, rule returns_bindI)
  fix h
  show "returns (ended (max_ops h)) (m h)"
    using assms(1) [of "Suc (max_ops h)"] by (simp add: ends_def)
  fix x :: "(queue_error + 'a) \<times> handle"
  assume x: "ended (max_ops h) x"
  then have "returns (ended_with V (max_ops (snd x))) (f (fst x) (snd x))"
    using assms(2) [of "fst x"] by (auto simp: ended_def ends_with_def)
  then show "returns (ended_with V (max_ops h)) (case x of (r, h') \<Rightarrow> f r h')"
    unfolding case_prod_beta
    by (rule returns_mono) (use x in \<open>auto simp: ended_with_def ended_def\<close>)
qed

lemma ends_with_then:
  assumes "ends_with V m" "\<And>x. V x \<Longrightarrow> ends_with W (f x)"
  shows "ends_with W (and_then m f)"
  unfolding ends_with_def and_then_def
proof (rule allI, rule returns_bindI)
  fix h
  show "returns (ended_with V (max_ops h)) (m h)"
    using assms(1) by (simp add: ends_with_def)
  fix x :: "(queue_error + 'a) \<times> handle"
  assume x: "ended_with V (max_ops h) x"
  show "returns (ended_with W (max_ops h)) (case x of (r, h') \<Rightarrow> case r of Inl e \<Rightarrow> Done (Inl e, h') | Inr y \<Rightarrow> f y h')"
  proof (cases "fst x")
    case (Inr y)
    then have "returns (ended_with W (max_ops (snd x))) (f y (snd x))"
      using assms(2) [of y] x by (auto simp: ended_with_def ends_with_def)
    then show ?thesis
      using Inr x unfolding case_prod_beta
      by (auto elim!: returns_mono simp: ended_with_def ended_def)
  qed (use x in \<open>auto simp: case_prod_beta ended_with_def ended_def\<close>)
qed

lemma ends_with_clock: "ends_with (\<lambda>_. True) elapsed_ns"
  by (simp add: ends_with_def ended_with_def ended_def op_defs)

lemma ends_with_fresh:
  assumes "ends_with V m"
  shows "ends_with V (fresh_budget b m)"
  unfolding ends_with_def
proof
  fix h :: handle
  have "returns (ended_with V b) (m (h\<lparr>max_ops := b\<rparr>))"
    using assms [unfolded ends_with_def, rule_format, of "h\<lparr>max_ops := b\<rparr>"] by simp
  then show "returns (ended_with V (max_ops h)) (fresh_budget b m h)"
    unfolding fresh_budget_def with_budget_def and_then_def bind_prog_assoc
    by (rule returns_bindI) (auto simp: ended_with_def ended_def op_defs split: sum.splits)
qed

lemma ends_with_deliver_one: "ends_with no_fuel_error (deliver_one H q exec_fn cl m)"
proof -
  have "ends_with no_fuel_error (deliver_loop H q ex d n cl m)" for ex d n cl m
    by (induction n arbitrary: cl m)
      (auto intro!: ends_with_attempt ends_with_ret simp: no_fuel_error_def split: sum.splits renew_outcome.splits)
  then show ?thesis
    unfolding deliver_one_def
    by (auto intro!: ends_with_attempt ends_with_ret simp: no_fuel_error_def split: sum.splits prod.splits)
qed

lemma ends_find_work [simp]: "ends n (find_work H q msg lease)"
proof -
  have "ends n (claim_first H q f lease ss)" for f ss
    by (induction ss) (auto intro!: ends_rules split: option.splits)
  then show ?thesis
    unfolding find_work_def by (auto intro!: ends_rules)
qed

lemma ends_with_timed: "no_fuel_error xm \<Longrightarrow> ends_with no_fuel_error (timed_report start xm)"
  unfolding timed_report_def no_fuel_error_def
  by (auto intro!: ends_with_then [OF ends_with_clock] ends_with_ret split: sum.splits prod.splits)

lemma count_error_fuel [simp]: "fst (count_error xm) = fst xm"
  by (auto simp: count_error_def split: sum.splits prod.splits)

lemma ends_with_run_delivery: "ends_with no_fuel_error (run_delivery_with H q msg exec_fn lease m)"
proof -
  have inner: "ends_with no_fuel_error (run_delivery_inner H q msg exec_fn lease m)" for m
    unfolding run_delivery_inner_def
    by (auto intro!: ends_with_attempt ends_with_ret ends_with_deliver_one simp: no_fuel_error_def
      split: sum.splits option.splits)
  show ?thesis
    unfolding run_delivery_with_def Let_def
    by (intro ends_with_then [OF ends_with_clock] ends_with_then [OF ends_with_fresh [OF inner]] ends_with_ret
        ends_with_then [OF ends_with_timed]) (simp_all add: no_fuel_error_def)
qed

lemma ends_with_run_batch: "ends_with no_fuel_error (run_batch_with H q msg exec_fn lease batch m)"
proof -
  have claims: "ends n (claim_batch H q f lease batch ss cls)" for n f ss cls
    by (induction ss arbitrary: cls) (auto intro!: ends_rules)
  have all: "ends_with (\<lambda>(xs, m). Inl OutOfFuel \<notin> set xs) (deliver_all H q exec_fn cls m)" for cls m
  proof (induction cls arbitrary: m)
    case (Cons cl cls)
    show ?case
      unfolding deliver_all.simps
      by (intro ends_with_then [OF ends_with_clock] ends_with_then [OF ends_with_fresh [OF ends_with_deliver_one]]
          ends_with_then [OF ends_with_timed])
        (auto intro!: ends_with_then [OF Cons.IH] ends_with_ret simp: no_fuel_error_def)
  qed (simp add: ends_with_ret)
  have ok: "Inl OutOfFuel \<notin> set xs \<Longrightarrow> all_ok xs \<noteq> Inl OutOfFuel" for xs :: "(queue_error + delivery_report) list"
    by (induction xs) (auto simp: sum_bind_def split: sum.splits)
  show ?thesis
    unfolding run_batch_with_def Let_def
    by (intro ends_with_attempt ends_with_budget ends_rules claims)
      (auto intro!: ends_with_ret ends_with_then [OF all] simp: no_fuel_error_def ok split: sum.splits)
qed

lemma ends_run_sweeper: "ends n (run_sweeper H q rounds)"
  by (induction rounds) (auto simp: sweep_once_def intro!: ends_rules ends_with_budget)

end
