(* ===== verification/Worker_Safety.thy ===== *)
theory Worker_Safety
  imports Worker
begin

text \<open>
  What a delivery report says about the store: a delivered job has its outputs and a receipt with the
  digests of the verified payload and of these outputs, a failed one its fail or dead record, and
  all of it rests on a claim that the store proved.
\<close>

section \<open>Reports\<close>

text \<open>A receipt with these digests.\<close>

definition receipt_shows :: "hash_fn \<Rightarrow> queue \<Rightarrow> claim \<Rightarrow> digest \<Rightarrow> digest list \<Rightarrow> contents \<Rightarrow> bool" where
  "receipt_shows H q cl digest outs c \<longleftrightarrow> (\<exists>r. receipt_payload_digest r = digest \<and> receipt_output_digests r = outs
     \<and> (record_at H q (receipt_key cl) (RecordReceipt r) c
        \<or> holds_bytes c (absolute q (receipt_key cl)) (record_bytes H q (receipt_key cl) (RecordReceipt r))))"

definition committed_of :: "hash_fn \<Rightarrow> queue \<Rightarrow> id16 \<Rightarrow> executor_output \<Rightarrow> committed_output" where
  "committed_of H q j out = \<lparr>out_key = outputs_dir q j @ eo_name out, out_digest = H (eo_body out)\<rparr>"

definition delivery_post :: "hash_fn \<Rightarrow> queue \<Rightarrow> claim \<Rightarrow> digest \<Rightarrow> executed
    \<Rightarrow> queue_error + delivery_report \<Rightarrow> contents \<Rightarrow> bool" where
  "delivery_post H q cl digest executed x c = (case x of
     Inr NoWork \<Rightarrow> False
   | Inr (Delivered outs) \<Rightarrow> (\<exists>outputs. executed = Inr outputs \<and> outs = map (committed_of H q (cl_job_id cl)) outputs
       \<and> outputs_final H q (cl_job_id cl) outs c
       \<and> receipt_shows H q cl digest (map out_digest outs) c)
   | Inr (Failed failure buried) \<Rightarrow> executed = Inl failure \<and> (case failure of
       Retryable reason \<Rightarrow> \<not> buried \<and> (\<exists>g. present c (absolute q (KeyFail (cl_shard cl) (cl_job_id cl) g)))
     | Permanent reason \<Rightarrow> present c (absolute q (if buried then dead_key cl else receipt_key cl)))
   | Inr LostLease \<Rightarrow> True
   | Inl _ \<Rightarrow> True)"

lemma stays_receipt_shows [stays_rules]: "stays (protected q) (receipt_shows H q cl d outs)"
  unfolding receipt_shows_def by (intro stays_rules) simp_all

lemma stays_delivery_post [stays_rules]: "stays (protected q) (delivery_post H q cl d ex x)"
  unfolding delivery_post_def
  by (cases x) (auto intro!: stays_rules split: delivery_report.split execution_failure.split)

lemma delivery_post_simps [simp]:
  "delivery_post H q cl d ex (Inl e) c" "delivery_post H q cl d ex (Inr LostLease) c"
  by (simp_all add: delivery_post_def)

text \<open>A renewed claim is the same custody: the report speaks of the same keys.\<close>

lemma delivery_post_renewed:
  "delivery_post H q (cl\<lparr>cl_generation := g, cl_claim_store_time_ns := t\<rparr>) d ex x c = delivery_post H q cl d ex x c"
  by (auto simp: delivery_post_def receipt_shows_def receipt_key_def dead_key_def
    split: sum.splits delivery_report.splits execution_failure.splits)

section \<open>Finishing\<close>

lemma payload_digest_unique:
  "payload_matches H cl b \<Longrightarrow> payload_matches H cl b' \<Longrightarrow> H b = H b'"
  by (auto simp: payload_matches_def split: payload_ref.splits)

lemma triple_commit_all:
  assumes "stays (protected q) P"
  shows "triple (protected q) P (commit_all H q cl outs)
    (\<lambda>x c. P c \<and> (\<forall>cs. x = Inr cs \<longrightarrow> cs = map (committed_of H q (cl_job_id cl)) outs
       \<and> outputs_final H q (cl_job_id cl) cs c))"
  using assms
proof (induction outs arbitrary: P)
  case Nil
  then show ?case
    by (auto simp: outputs_final_def intro!: triple_ret)
next
  case (Cons out outs)
  let ?o = "committed_of H q (cl_job_id cl) out"
  let ?F = "\<lambda>c. P c \<and> output_final H ?o c"
  have prot: "protected q (out_key ?o)"
    by (rule protected_outputs [of q "cl_job_id cl"]) (simp add: committed_of_def)
  have F: "stays (protected q) ?F"
    by (intro stays_rules Cons.prems prot)
  have commit: "triple (protected q) P (commit_output H q cl (eo_name out) (eo_body out))
      (\<lambda>x c. P c \<and> (\<forall>oc. x = Inr oc \<longrightarrow> oc \<in> {OutputCommitted ?o, Converged ?o} \<and> output_final H ?o c))"
    by (rule triple_weaken [OF triple_frame [OF triple_commit_output emits_commit_output Cons.prems]])
      (auto simp: commit_post_def committed_of_def output_final_def holds_bytes_def Let_def
        split: commit_outcome.splits)
  have pre: "outputs_final H q (cl_job_id cl) (?o # cs) c"
    if "outputs_final H q (cl_job_id cl) cs c" "output_final H ?o c" for cs c
    using that by (auto simp: outputs_final_def committed_of_def)
  have rest: "triple (protected q) ?F (and_then (commit_all H q cl outs) (\<lambda>cs. ret (?o # cs)))
      (\<lambda>x c. P c \<and> (\<forall>cs. x = Inr cs \<longrightarrow> cs = map (committed_of H q (cl_job_id cl)) (out # outs)
       \<and> outputs_final H q (cl_job_id cl) cs c))"
    by (rule triple_then [OF Cons.IH [OF F]])
      (auto intro!: triple_ret stays_rules Cons.prems intro: pre)
  show ?case
    unfolding commit_all.simps
  proof (rule triple_then [OF commit])
    fix oc
    show "triple (protected q)
        (\<lambda>c. P c \<and> (\<forall>oc'. (Inr oc :: queue_error + commit_outcome) = Inr oc' \<longrightarrow>
           oc' \<in> {OutputCommitted ?o, Converged ?o} \<and> output_final H ?o c))
        (and_then (commit_all H q cl outs) (\<lambda>cs.
           ret ((case oc of OutputCommitted o' \<Rightarrow> o' | Converged o' \<Rightarrow> o') # cs)))
        (\<lambda>x c. P c \<and> (\<forall>cs. x = Inr cs \<longrightarrow> cs = map (committed_of H q (cl_job_id cl)) (out # outs)
           \<and> outputs_final H q (cl_job_id cl) cs c))"
      using rest
      by (cases "oc \<in> {OutputCommitted ?o, Converged ?o}") (auto simp: triple_def)
  qed (auto intro!: stays_rules Cons.prems)
qed

lemma triple_receipt_for:
  assumes "stays (protected q) P"
  shows "triple (protected q) P (receipt_for H q (cl_shard cl) (cl_job_id cl))
    (\<lambda>x c. P c \<and> (\<forall>r. x = Inr (Some r) \<longrightarrow> record_at H q (receipt_key cl) (RecordReceipt r) c))" (is "triple ?p _ _ ?Q")
proof -
  have Q: "stays ?p (?Q x)" for x
    by (intro stays_rules assms) simp
  note rd = triple_read_retrying [OF assms, of "absolute q (receipt_key cl)"]
  show ?thesis
    unfolding receipt_for_def receipt_key_def [symmetric]
    by (rule triple_attempt [OF rd])
      (auto split: sum.splits stow_record.splits intro!: triple_decode_op triple_ret triple_fail Q record_atI)
qed

lemma ack_shows_receipt:
  assumes "ack_post H q cl outs (Inr x) c" "x \<noteq> SupersededByDead" "payload_matches H cl payload"
  shows "receipt_shows H q cl (H payload) (map out_digest outs) c"
proof (cases x)
  case Acked
  then obtain body where b: "payload_matches H cl body" "holds_bytes c (absolute q (receipt_key cl))
      (record_bytes H q (receipt_key cl) (RecordReceipt (ack_record q cl (H body) outs)))"
    using assms(1) by (auto simp: ack_post_def)
  show ?thesis
    unfolding receipt_shows_def payload_digest_unique [OF assms(3) b(1)]
    by (rule exI [of _ "ack_record q cl (H body) outs"]) (simp add: ack_record_def b(2) [unfolded ack_record_def])
next
  case AlreadyAcked
  then obtain body r where b: "payload_matches H cl body" "record_at H q (receipt_key cl) (RecordReceipt r) c"
      "same_evidence r (ack_record q cl (H body) outs)"
    using assms(1) by (auto simp: ack_post_def)
  show ?thesis
    unfolding receipt_shows_def payload_digest_unique [OF assms(3) b(1)]
    by (rule exI [of _ r]) (use b(2,3) in \<open>simp add: same_evidence_def ack_record_def\<close>)
qed (use assms(2) in simp)

lemma triple_finish_outputs:
  assumes "payload_matches H cl payload" "outs = map (committed_of H q (cl_job_id cl)) outputs"
  shows "triple (protected q) (outputs_final H q (cl_job_id cl) outs)
    (finish_outputs H q cl (H payload) outs) (delivery_post H q cl (H payload) (Inr outputs))" (is "triple ?p ?F _ ?Q")
proof -
  have F: "stays ?p ?F"
    by (rule stays_rules)
  have ack: "triple ?p ?F (ack_with_outputs H q cl outs) (\<lambda>x c. ack_post H q cl outs x c \<and> ?F c)"
    unfolding ack_with_outputs_def
    using triple_frame [OF triple_ack emits_ack F] by (rule triple_pre) simp
  have fin: "?Q (Inr (Delivered outs)) c" if "ack_post H q cl outs (Inr x) c" "x \<noteq> SupersededByDead" "?F c" for x c
    using ack_shows_receipt [OF that(1,2) assms(1)] that(3) assms(2) by (auto simp: delivery_post_def)
  have equiv: "triple ?p ?F (and_then (receipt_for H q (cl_shard cl) (cl_job_id cl)) (\<lambda>r.
      if (case r of Some r \<Rightarrow> same_completion (H payload) outs r | None \<Rightarrow> False)
      then ret (Delivered outs) else fail ReceiptEvidenceMismatch)) ?Q"
    by (rule triple_then [OF triple_receipt_for [OF F]])
      (use assms(2) in \<open>auto intro!: triple_ret triple_fail stays_rules split: option.splits
        simp: same_completion_def delivery_post_def receipt_shows_def\<close>)
  show ?thesis
    unfolding finish_outputs_def
    by (rule triple_attempt [OF ack])
      (auto split: sum.splits ack_outcome.splits intro!: triple_ret triple_fail stays_rules
        intro: triple_pre [OF equiv] fin)
qed

lemma triple_finish_delivery:
  assumes "payload_matches H cl payload"
  shows "triple (protected q) (\<lambda>c. True) (finish_delivery H q cl executed (H payload))
    (delivery_post H q cl (H payload) executed)" (is "triple ?p ?T _ ?Q")
proof (cases executed)
  case (Inr outputs)
  have fin: "triple ?p (\<lambda>c. outs = map (committed_of H q (cl_job_id cl)) outputs
      \<and> outputs_final H q (cl_job_id cl) outs c) (finish_outputs H q cl (H payload) outs) ?Q" for outs
    using triple_finish_outputs [OF assms, of outs q outputs] Inr
    by (cases "outs = map (committed_of H q (cl_job_id cl)) outputs") (auto simp: triple_def)
  show ?thesis
    unfolding finish_delivery_def Inr sum.case
    by (rule triple_then [OF triple_commit_all [OF stays_True]])
      (use fin in \<open>auto intro!: stays_rules simp: Inr\<close>)
next
  case (Inl f)
  show ?thesis
  proof (cases f)
    case (Retryable reason)
    have nacked: "triple ?p ?T (and_then (nack H q cl reason floor_ns) (\<lambda>_. ret (Failed (Retryable reason) False))) ?Q" for floor_ns
      by (rule triple_then [OF triple_nack])
        (auto simp: delivery_post_def Inl Retryable intro!: triple_ret stays_rules)
    show ?thesis
      unfolding finish_delivery_def Inl Retryable sum.case execution_failure.case
      by (rule triple_then_harmless [OF emits_establish_floor stays_True])
        (use nacked in \<open>auto simp: Inl Retryable intro: stays_rules\<close>)
  next
    case (Permanent reason)
    show ?thesis
      unfolding finish_delivery_def Inl Permanent sum.case execution_failure.case
      by (rule triple_then [OF triple_bury])
        (auto simp: delivery_post_def bury_post_def Inl Permanent holds_bytes_def present_def record_at_def
          intro!: triple_ret stays_rules split: bury_outcome.splits)
  qed
qed

section \<open>One delivery\<close>

text \<open>The harness returns the report beside the metrics.\<close>

definition reported :: "(queue_error + 'r \<Rightarrow> contents \<Rightarrow> bool) \<Rightarrow> queue_error + ((queue_error + 'r) \<times> metrics option)
    \<Rightarrow> contents \<Rightarrow> bool" where
  "reported Q y c \<longleftrightarrow> (\<forall>x m. y = Inr (x, m) \<longrightarrow> Q x c)"

lemma stays_reported [stays_rules]: "(\<And>x. stays prot (Q x)) \<Longrightarrow> stays prot (reported Q y)"
  unfolding reported_def by (intro stays_rules)

lemma reported_simps [simp]: "reported Q (Inr (x, m)) c \<longleftrightarrow> Q x c" "reported Q (Inl e) c"
  by (auto simp: reported_def)

lemma triple_reported_ret:
  "(\<And>x. stays prot (Q x)) \<Longrightarrow> (\<And>c. P c \<Longrightarrow> Q x c) \<Longrightarrow> triple prot P (ret (x, m)) (reported Q)"
  by (intro triple_ret stays_rules) simp_all

lemma payload_matches_renewed [simp]:
  "payload_matches H (cl\<lparr>cl_generation := g, cl_claim_store_time_ns := t\<rparr>) b = payload_matches H cl b"
  by (simp add: payload_matches_def)

lemma triple_deliver_loop:
  assumes "payload_matches H cl payload"
  shows "triple (protected q) (\<lambda>c. True) (deliver_loop H q executed (H payload) n cl m)
    (reported (delivery_post H q cl (H payload) executed))"
  using assms
proof (induction n arbitrary: cl m)
  case 0
  show ?case
    unfolding deliver_loop.simps
    by (rule triple_attempt [OF triple_finish_delivery [OF 0]]) (intro triple_reported_ret stays_rules)
next
  case (Suc n)
  have next_round: "triple (protected q) (\<lambda>c. renew_post H q cl (Inr (Renewed cl')) c)
      (deliver_loop H q executed (H payload) n cl' m) (reported (delivery_post H q cl (H payload) executed))" for cl' m
  proof (cases "cl' = cl\<lparr>cl_generation := cl_generation cl + 1, cl_claim_store_time_ns := cl_claim_store_time_ns cl'\<rparr>")
    case True
    then obtain g t where cl': "cl' = cl\<lparr>cl_generation := g, cl_claim_store_time_ns := t\<rparr>"
      by blast
    have "delivery_post H q cl' = delivery_post H q cl"
      unfolding cl' by (intro ext) (rule delivery_post_renewed)
    moreover have "payload_matches H cl' payload"
      using Suc.prems by (simp add: cl')
    ultimately show ?thesis
      using triple_pre [OF Suc.IH [of cl' m]] by simp
  qed (simp add: triple_def renew_post_def)
  show ?case
    unfolding deliver_loop.simps
    by (rule triple_attempt [OF triple_renew])
      (auto split: sum.splits renew_outcome.splits intro!: next_round triple_reported_ret stays_rules)
qed

text \<open>What a delivery rests on: a claim that the store proved, and a payload that matches it.\<close>

definition worker_post :: "hash_fn \<Rightarrow> queue \<Rightarrow> executor \<Rightarrow> u64 \<Rightarrow> queue_error + delivery_report \<Rightarrow> contents \<Rightarrow> bool" where
  "worker_post H q exec_fn lease x c \<longleftrightarrow> (\<forall>report. x = Inr report \<longrightarrow> report \<notin> {NoWork, LostLease} \<longrightarrow>
     (\<exists>shard floor_ns cl payload.
        claim_taken H q \<lparr>co_shard = shard, co_floor_ns = floor_ns, co_lease_duration_ns = lease\<rparr> cl c
        \<and> payload_matches H cl payload
        \<and> delivery_post H q cl (H payload) (snd (exec_fn (cl_job_id cl) payload)) x c))"

lemma stays_worker_post [stays_rules]: "stays (protected q) (worker_post H q exec_fn lease x)"
  unfolding worker_post_def by (intro stays_rules)

lemma worker_post_simps [simp]: "worker_post H q exec_fn lease (Inl e) c"
    "worker_post H q exec_fn lease (Inr NoWork) c" "worker_post H q exec_fn lease (Inr LostLease) c"
  by (simp_all add: worker_post_def)

lemma worker_postI:
  assumes "claim_taken H q \<lparr>co_shard = shard, co_floor_ns = floor_ns, co_lease_duration_ns = lease\<rparr> cl c"
    "payload_matches H cl payload" "exec_fn (cl_job_id cl) payload = (ticks, executed)"
    "delivery_post H q cl (H payload) executed x c"
  shows "worker_post H q exec_fn lease x c"
  unfolding worker_post_def using assms
  by (intro allI impI exI [of _ shard] exI [of _ floor_ns] exI [of _ cl] exI [of _ payload]) simp

lemma triple_deliver_one:
  assumes opts: "opts = \<lparr>co_shard = shard, co_floor_ns = floor_ns, co_lease_duration_ns = lease\<rparr>"
  shows "triple (protected q) (claim_taken H q opts cl) (deliver_one H q exec_fn cl m)
    (reported (worker_post H q exec_fn lease))" (is "triple ?p ?C _ ?Q")
proof -
  have loop: "triple ?p ?C (case exec_fn (cl_job_id cl) payload of (ticks, executed) \<Rightarrow>
      deliver_loop H q executed (H payload) ticks cl m) ?Q" if "payload_matches H cl payload" for payload
  proof (cases "exec_fn (cl_job_id cl) payload")
    case (Pair ticks executed)
    have C: "stays ?p ?C" by (rule stays_rules)
    have "triple ?p (\<lambda>c. True \<and> ?C c) (deliver_loop H q executed (H payload) ticks cl m)
        (\<lambda>y c. reported (delivery_post H q cl (H payload) executed) y c \<and> ?C c)"
      by (rule triple_frame [OF triple_deliver_loop [OF that] emits_deliver_loop C])
    then show ?thesis
      unfolding Pair prod.case
      by (rule triple_weaken)
        (use that Pair in \<open>auto simp: reported_def opts intro: worker_postI\<close>)
  qed
  have next_step: "triple ?p (\<lambda>c. ?C c \<and> (\<forall>b. x = Inr b \<longrightarrow> payload_matches H cl b)) (case x of
       Inl e \<Rightarrow> ret (Inl e, m)
     | Inr payload \<Rightarrow> (case exec_fn (cl_job_id cl) payload of (ticks, executed) \<Rightarrow>
         deliver_loop H q executed (H payload) ticks cl m)) ?Q" for x
  proof (cases x)
    case (Inr payload)
    then show ?thesis
      using loop [of payload] by (cases "payload_matches H cl payload") (auto simp: triple_def)
  qed (auto intro!: triple_reported_ret stays_rules)
  show ?thesis
    unfolding deliver_one_def
    by (rule triple_attempt [OF triple_claim_payload next_step]) (rule stays_rules)
qed

section \<open>Finding work and reporting\<close>

lemma triple_claim_one:
  "triple (protected q) (\<lambda>c. True) (claim_one H q opts) (\<lambda>x c. \<forall>cl. x = Inr (Some cl) \<longrightarrow> claim_taken H q opts cl c)"
  unfolding claim_one_def
  by (rule triple_then [OF triple_claim_many])
    (auto simp: all_taken_def intro!: triple_ret stays_rules)

definition work_found :: "hash_fn \<Rightarrow> queue \<Rightarrow> u64 \<Rightarrow> queue_error + claim option \<Rightarrow> contents \<Rightarrow> bool" where
  "work_found H q lease x c \<longleftrightarrow> (\<forall>cl. x = Inr (Some cl) \<longrightarrow> (\<exists>shard floor_ns.
     claim_taken H q \<lparr>co_shard = shard, co_floor_ns = floor_ns, co_lease_duration_ns = lease\<rparr> cl c))"

lemma stays_work_found [stays_rules]: "stays (protected q) (work_found H q lease x)"
  unfolding work_found_def by (intro stays_rules)

lemma work_found_simps [simp]: "work_found H q lease (Inl e) c" "work_found H q lease (Inr None) c"
  by (simp_all add: work_found_def)

lemma work_foundI:
  "claim_taken H q \<lparr>co_shard = shard, co_floor_ns = floor_ns, co_lease_duration_ns = lease\<rparr> cl c \<Longrightarrow>
    work_found H q lease (Inr (Some cl)) c"
  by (auto simp: work_found_def)

lemma triple_find_work: "triple (protected q) (\<lambda>c. True) (find_work H q msg lease) (work_found H q lease)"
proof -
  have "triple (protected q) (\<lambda>c. True) (claim_first H q floor_ns lease ss) (work_found H q lease)" for floor_ns ss
  proof (induction ss)
    case (Cons s ss)
    show ?case
      unfolding claim_first.simps
      by (rule triple_then [OF triple_claim_one])
        (auto split: option.splits intro!: triple_ret stays_rules triple_pre [OF Cons.IH] intro: work_foundI)
  qed (auto intro!: triple_ret stays_rules)
  then show ?thesis
    unfolding find_work_def
    by (intro triple_then_harmless [OF emits_establish_floor stays_True] stays_rules) simp_all
qed

lemma triple_fresh_budget:
  assumes "triple prot P m Q" "\<And>x. stays prot (Q x)"
  shows "triple prot P (fresh_budget b m) Q"
  unfolding fresh_budget_def
  by (rule triple_then [OF triple_with_budget [OF assms(1)]])
    (auto intro!: assms(2), simp add: triple_def of_result_def op_defs split: sum.split, use assms(2) in \<open>auto dest: staysD\<close>)

lemma triple_timed_report:
  assumes "\<And>x. stays prot (Q x)" "\<And>e c. Q (Inl e) c"
  shows "triple prot (\<lambda>c. Q (fst xm) c) (timed_report start xm) (reported Q)"
  unfolding timed_report_def
  by (cases xm; cases "fst xm") (auto intro!: triple_handle triple_reported_ret assms)

lemma triple_deliver_work:
  "triple (protected q) (work_found H q lease (Inr (Some cl))) (deliver_one H q exec_fn cl m)
     (reported (worker_post H q exec_fn lease))"
  using triple_deliver_one [OF refl, of q H _ _ lease cl exec_fn m] by (auto simp: triple_def work_found_def)

lemma triple_run_delivery:
  "triple (protected q) (\<lambda>c. True) (run_delivery_with H q msg exec_fn lease m)
     (reported (worker_post H q exec_fn lease))" (is "triple ?p ?T _ ?Q")
proof -
  have inner: "triple ?p ?T (run_delivery_inner H q msg exec_fn lease m) ?Q" for m
    unfolding run_delivery_inner_def
    by (rule triple_attempt [OF triple_find_work])
      (auto split: sum.splits option.splits intro!: triple_deliver_work triple_reported_ret stays_rules)
  have tail: "triple ?p (\<lambda>c. ?Q (Inr xm) c) (and_then (timed_report start xm) (\<lambda>xm. ret (count_error xm))) ?Q" for start xm
    by (rule triple_then [OF triple_pre [OF triple_timed_report [where Q = "worker_post H q exec_fn lease"]]])
      (cases xm; auto intro!: triple_ret stays_rules simp: reported_def count_error_def split: prod.splits sum.splits)+
  show ?thesis
    unfolding run_delivery_with_def Let_def
    by (intro triple_handle triple_then [OF triple_fresh_budget [OF inner]] tail stays_rules) simp_all
qed

section \<open>Batches\<close>

definition batch_taken :: "hash_fn \<Rightarrow> queue \<Rightarrow> u64 \<Rightarrow> claim list \<Rightarrow> contents \<Rightarrow> bool" where
  "batch_taken H q lease cls c \<longleftrightarrow> (\<forall>cl. cl \<in> set cls \<longrightarrow> work_found H q lease (Inr (Some cl)) c)"

definition batch_post :: "hash_fn \<Rightarrow> queue \<Rightarrow> executor \<Rightarrow> u64 \<Rightarrow> queue_error + delivery_report list \<Rightarrow> contents \<Rightarrow> bool" where
  "batch_post H q exec_fn lease x c \<longleftrightarrow> (\<forall>reports report. x = Inr reports \<longrightarrow> report \<in> set reports \<longrightarrow>
     worker_post H q exec_fn lease (Inr report) c)"

lemma stays_batch [stays_rules]: "stays (protected q) (batch_taken H q lease cls)"
    "stays (protected q) (batch_post H q exec_fn lease y)"
  unfolding batch_taken_def batch_post_def by (intro stays_rules)+

lemma batch_taken_Nil [simp]: "batch_taken H q lease [] c"
  by (simp add: batch_taken_def)

lemma triple_claim_batch:
  "triple (protected q) (batch_taken H q lease cls) (claim_batch H q floor_ns lease batch ss cls)
     (\<lambda>x c. \<forall>cls'. x = Inr cls' \<longrightarrow> batch_taken H q lease cls' c)"
proof (induction ss arbitrary: cls)
  case (Cons s ss)
  let ?opts = "\<lparr>co_shard = s, co_floor_ns = floor_ns, co_lease_duration_ns = lease\<rparr>"
  have B: "stays (protected q) (batch_taken H q lease cls)"
    by (rule stays_rules)
  have "triple (protected q) (\<lambda>c. True \<and> batch_taken H q lease cls c) (claim_many H q ?opts (batch - length cls))
      (\<lambda>x c. (\<forall>more. x = Inr more \<longrightarrow> all_taken H q ?opts more c) \<and> batch_taken H q lease cls c)"
    by (rule triple_frame [OF triple_claim_many emits_claim_many B])
  then have many: "triple (protected q) (batch_taken H q lease cls) (claim_many H q ?opts (batch - length cls))
      (\<lambda>x c. \<forall>more. x = Inr more \<longrightarrow> batch_taken H q lease (cls @ more) c)"
    by (rule triple_weaken) (auto simp: batch_taken_def all_taken_def intro: work_foundI)
  show ?case
    unfolding claim_batch.simps
    by (intro triple_if triple_then [OF many] triple_pre [OF Cons.IH] triple_ret stays_rules) auto
qed (auto intro!: triple_ret stays_rules)

definition results_post :: "hash_fn \<Rightarrow> queue \<Rightarrow> executor \<Rightarrow> u64 \<Rightarrow>
    queue_error + (queue_error + delivery_report) list \<times> metrics option \<Rightarrow> contents \<Rightarrow> bool" where
  "results_post H q exec_fn lease y c \<longleftrightarrow>
     (\<forall>xs m x. y = Inr (xs, m) \<longrightarrow> x \<in> set xs \<longrightarrow> worker_post H q exec_fn lease x c)"

lemma stays_results_post [stays_rules]: "stays (protected q) (results_post H q exec_fn lease y)"
  unfolding results_post_def by (intro stays_rules)

lemma results_post_error [simp]: "results_post H q exec_fn lease (Inl e) c"
  by (simp add: results_post_def)

lemma triple_deliver_all:
  "triple (protected q) (batch_taken H q lease cls) (deliver_all H q exec_fn cls m)
     (results_post H q exec_fn lease)" (is "triple ?p _ _ _")
proof (induction cls arbitrary: m)
  case (Cons cl cls)
  let ?W = "worker_post H q exec_fn lease" and ?B = "batch_taken H q lease cls"
  have B: "stays ?p ?B" by (rule stays_rules)
  have one: "triple ?p (batch_taken H q lease (cl # cls)) (fresh_budget b (deliver_one H q exec_fn cl m))
      (\<lambda>y c. reported ?W y c \<and> ?B c)" for b
    by (rule triple_pre [OF triple_frame [OF triple_fresh_budget [OF triple_deliver_work] _ B]])
      (auto intro!: stays_rules emits_rules simp: batch_taken_def)
  have rest: "triple ?p (\<lambda>c. ?W x c \<and> ?B c) (and_then (deliver_all H q exec_fn cls m) (\<lambda>(xs, m). ret (x # xs, m)))
      (results_post H q exec_fn lease)" for x m
  proof -
    have W: "stays ?p (?W x)" by (rule stays_rules)
    have emits: "emits_op (harmless ?p) (deliver_all H q exec_fn cls m)"
      by (induction cls arbitrary: m) (auto intro!: emits_rules split: prod.splits)
    show ?thesis
      by (rule triple_then [OF triple_pre [OF triple_frame [OF Cons.IH emits W]]])
        (auto intro!: triple_ret stays_rules simp: results_post_def split: prod.splits)
  qed
  have timed: "triple ?p (\<lambda>c. reported ?W (Inr xm) c \<and> ?B c) (timed_report start xm) (\<lambda>y c. reported ?W y c \<and> ?B c)" for start xm
    by (rule triple_frame [OF triple_pre [OF triple_timed_report [where Q = ?W]] emits_timed_report B];
        cases xm; auto intro: stays_rules)
  show ?case
    unfolding deliver_all.simps
    by (intro triple_handle triple_then [OF one] triple_then [OF timed] stays_rules;
        auto intro!: triple_pre [OF rest] stays_rules split: prod.splits)
qed (auto intro!: triple_ret stays_rules simp: results_post_def)

lemma all_ok_mem: "all_ok xs = Inr ys \<Longrightarrow> y \<in> set ys \<Longrightarrow> Inr y \<in> set xs"
  by (induction xs arbitrary: ys) (auto simp: sum_bind_def split: sum.splits)

lemma results_batch_post:
  assumes "results_post H q exec_fn lease (Inr (xs, m)) c" "count_error (all_ok xs, m) = (x, m')"
  shows "batch_post H q exec_fn lease x c"
proof -
  have "x = all_ok xs"
    using count_error_fuel [of "(all_ok xs, m)"] assms(2) by simp
  then show ?thesis
    unfolding batch_post_def using assms(1) all_ok_mem by (fastforce simp: results_post_def)
qed

lemma batch_post_error [simp]: "reported (batch_post H q exec_fn lease) (Inr (count_error (Inl e, m))) c"
  by (simp add: count_error_def batch_post_def)

lemma triple_run_batch:
  "triple (protected q) (\<lambda>c. True) (run_batch_with H q msg exec_fn lease batch m)
     (reported (batch_post H q exec_fn lease))" (is "triple ?p ?T _ ?Q")
proof -
  have start: "triple ?p ?T (and_then (establish_floor H q) (\<lambda>floor_ns.
      claim_batch H q floor_ns lease batch (hinted_shards q msg) []))
      (\<lambda>x c. \<forall>cls. x = Inr cls \<longrightarrow> batch_taken H q lease cls c)"
    by (rule triple_then_harmless [OF emits_establish_floor stays_True])
      (auto intro!: triple_pre [OF triple_claim_batch] stays_rules)
  have all: "triple ?p (batch_taken H q lease cls) (and_then (deliver_all H q exec_fn cls m) (\<lambda>(xs, m).
      ret (count_error (all_ok xs, m)))) ?Q" for cls m
    by (rule triple_then [OF triple_deliver_all])
      (auto intro!: triple_ret stays_rules results_batch_post simp: reported_def split: prod.splits)
  show ?thesis
    unfolding run_batch_with_def Let_def
    by (rule triple_attempt [OF triple_fresh_budget [OF start]])
      (auto intro!: stays_rules triple_pre [OF all] triple_ret split: sum.splits)
qed

end
