(* ===== verification/Spec2Isabelle.thy ===== *)
theory Spec2Isabelle
  imports Value_Path Gc_Runs Typed_Store Test_Oracle Worker_Safety
begin

text \<open>
  A verification development of StowQ, a job queue whose only shared state is an object store with
  conditional writes. Source paths are relative to \<open>src/crates/\<close>.

  \<^bold>\<open>The program.\<close> Keys (\<open>stowq-keys\<close>) name every object of a queue; records (\<open>stowq-format\<close>) are what the
  objects hold, in canonical CBOR under an envelope with a key tag and a digest; \<open>stowq-math\<close> computes buckets,
  floors and retry delays; \<open>stowq-store\<close> is the store trait with an in-memory store and a fault injector;
  \<open>stowq-core\<close> is the queue: every method reads and writes objects through the trait, pays for each request
  from an operation budget, and must cope with lost answers, with other workers acting between any two
  requests, and with advisory indexes that may be missing or stale. Exclusion rests on one primitive, the
  put that succeeds only if the key is absent: the claim of a job is a chain of generation objects, and a
  terminal record (receipt or dead) ends it.

  \<^bold>\<open>The theories\<close>, in the order of the layers:
  \<^item> \<open>Stow_Prelude\<close>: results, checked and saturating arithmetic, big-endian bytes, UTF-8.
  \<^item> \<open>Bucket_Math\<close> (\<open>stowq-math/src/lib.rs\<close>): buckets, floors, unbiased sampling, retry delays.
  \<^item> \<open>Key_Grammar\<close> (\<open>stowq-keys/src/lib.rs\<close>): the key datatype, \<open>show_key\<close> for \<open>Display\<close>, \<open>parse_key\<close> for
    \<open>FromStr\<close>, \<open>compute_shard\<close>, the key tag; printing and parsing are inverse, keys sort numerically.
  \<^item> \<open>Cbor\<close> (\<open>stowq-format/src/cbor.rs\<close>), \<open>Records\<close> (\<open>lib.rs\<close>), \<open>Direct_Decode\<close> (\<open>direct.rs\<close>), \<open>Field_Maps\<close>,
    \<open>Record_Codec\<close>, \<open>Value_Path\<close>: the codec. A decoder accepts exactly the canonical encodings, and the
    direct encoder agrees with the value-tree encoder.
  \<^item> \<open>Object_Store\<close>, \<open>Memory_Store\<close>, \<open>Fault_Injector\<close> (\<open>stowq-store/src\<close>): the trait as a record of
    state-passing operations, the part of its contract that the queue relies on as the locale
    \<open>store_contract\<close>, and the rest (digests are verified, reads of a range) as its extension \<open>store_trait\<close>;
    both are interpreted on the in-memory store (\<open>mem\<close>, \<open>mem_trait\<close>) and on the injector around it (\<open>inj\<close>,
    \<open>inj_trait\<close>).
  \<^item> \<open>Prog\<close>, \<open>Op_Monad\<close>: a method of the queue is a tree of store requests (\<open>prog\<close>) that threads the handle
    (budget, floor cache, terminality memo) and returns a result or an error. \<open>emits_op\<close> bounds the requests
    of such a tree, \<open>within\<close> counts them against the budget, \<open>ends\<close> excludes that a loop runs out of fuel.
    \<open>within\<close> and \<open>ends\<close> quantify over every answer of the store, correct or not; \<open>emits_op\<close> over every answer
    except that a listing returns only keys under the prefix it was asked for.
  \<^item> \<open>Interference\<close>: \<open>triple prot P m Q\<close>: started when \<open>P\<close> holds of the contents of the store, with any
    number of other clients interleaved that never change or delete an object under a protected key, and with
    any answer the contract allows, lost answers included, method \<open>m\<close> returns only results that satisfy \<open>Q\<close>.
    \<open>triple_holds_on\<close> carries a triple to the executions on any store that meets the contract. \<open>keeps_on\<close> and
    \<open>achieves_on\<close> speak of executions among clients that keep a given fact of the contents as well.
  \<^item> \<open>Queue_Base\<close>, \<open>Queue_Time\<close>, \<open>Queue_Enqueue\<close>, \<open>Queue_Claim\<close>, \<open>Queue_Settle\<close>, \<open>Index_Scan\<close>, \<open>Queue_Sweep\<close>,
    \<open>Queue_Gc\<close>, \<open>Queue_Repair\<close> (\<open>stowq-core/src/lib.rs\<close>): one definition per method, composed as in the source,
    each with its lemmas on requests, budget and termination.
  \<^item> \<open>Claim_Bounds\<close>, \<open>Claim_Safety\<close>, \<open>Settle_Safety\<close>, \<open>Gc_Safety\<close>: what the outcomes of claiming and settling
    say about the store, and what retention leaves alone. \<open>Audit_Safety\<close>: claims pass the audit of the
    repair scan. \<open>Typed_Store\<close>: every write keeps the store well typed.
  \<^item> \<open>Queue_Runs\<close>, \<open>Claim_Runs\<close>, \<open>Gc_Runs\<close>: runs on the in-memory store, alone or with one injected fault, up to
    their results: that an enqueue survives a fault and a claim is taken, and two defects.
  \<^item> \<open>Worker\<close>, \<open>Worker_Safety\<close> (\<open>stowq-worker/src/lib.rs\<close>): doorbells, deliveries, batches and the sweeper; the
    executor is a parameter that says how many renewal periods pass and what it returns.
  \<^item> \<open>Queue_Calls\<close>: the public methods by which workers and producers share a queue as one datatype of
    calls, histories of calls, and fencing. Opening and creating a queue, retention and the repair scan are
    definitions of their own (\<open>open_with_clock\<close>, \<open>init_queue\<close>, \<open>gc\<close>, \<open>repair_scan\<close>).
  \<^item> \<open>Test_Oracle\<close> (\<open>stowq-testkit/src/oracle.rs\<close> and the generator of \<open>driver.rs\<close>): the oracle as a state
    machine, its invariants, and that it predicts the claims of the queue.

  \<^bold>\<open>State and operations.\<close> The contents of a store are a partial map from keys to objects. A byte array of
  fixed size is a word, a \<open>String\<close> the list of its UTF-8 bytes, \<open>usize\<close> a natural number, \<open>Result\<close> a sum type;
  a panic of the source is the error \<open>Panic\<close>. SHA-256 is the parameter \<open>H\<close> of every definition that hashes, and
  no theorem assumes anything of it. Fresh tokens and clock readings are answers of the environment. Tasks that
  the source awaits together (\<open>join_all\<close> in \<open>claim_many\<close>) run one after another in the model; since other
  clients may act between any two requests, the triples cover the interleavings among them as well, while
  the floor cache and the memo that such tasks share are updated in the order of the list. The
  iteration order of a hash map in the repair scan is a parameter.

  \<^bold>\<open>Loops.\<close> A loop over a list is structural recursion. A page loop or a compare-and-swap loop carries fuel for
  one round more than the budget can pay (\<open>fueled\<close>), a retry loop the constant \<open>RETRY_TRANSPORT_MAX\<close>, the shard
  loop of the repair scan the number of shards left; \<open>calls_return\<close> shows that the fuel suffices.

  \<^bold>\<open>What the theorems say.\<close> Custody: a claim that is returned is proved by the store, and no two workers hold the
  same generation. Settling: every outcome of enqueue, renew, commit, ack, nack and bury states what is
  stored. Immutability: calls never change a record, along any history. Retention: live jobs, outputs and the
  quarantine are spared, and a terminal record goes last. All calls: harmless, within budget, returning,
  and they keep the store well typed. Progress: an enqueue survives a fault, an enqueued job and an expired
  lease are claimed, as the oracle predicts. Two theorems state defects: \<open>init\<close> returns an unknown outcome, and
  retention revives a job when a delete is lost.
  Fencing and immutability speak of calls other than retention, which deletes records on purpose; what it may
  delete is stated separately.

  \<^bold>\<open>Not modelled.\<close> The HTTP and S3 stores are network clients; the queue relies on the contract only. The
  command line, the demonstration and the benchmark run the queue and print. Of the test kit, the driver
  that runs queue and oracle side by side and the recorded interleavings; here the interference relation
  takes their place. Texts of error messages are abbreviated.
\<close>

section \<open>A small queue\<close>

text \<open>A queue of one shard on a store that holds its format object only; the witnesses run on it.\<close>

definition small_format :: format_record where
  "small_format = \<lparr>fmt_shard_count = 1, fmt_lease_bucket_width_ns = 10, fmt_delayed_bucket_width_ns = 10,
     fmt_terminal_bucket_width_ns = 10, fmt_inline_limit = 4, fmt_required_feature_bits = 0\<rparr>"

definition small_queue :: queue where
  "small_queue = \<lparr>q_root = ''q/'', q_opts = \<lparr>oo_queue_id = 7, oo_worker_id = ''w'',
     oo_retry = \<lparr>base_ms = 1, cap_ms = 2, use_jitter = False, max_delay_ms = None\<rparr>,
     oo_skew_guard_ns = 0, oo_max_inline_payload = 4\<rparr>, q_format = small_format\<rparr>"

definition small_handle :: "nat \<Rightarrow> handle" where
  "small_handle n = \<lparr>max_ops = n, h_floor = \<lparr>fc_floor_ns = 0, fc_established_at_ns = 0\<rparr>, h_memo = []\<rparr>"

definition small_hash :: hash_fn where
  "small_hash bs = foldl (\<lambda>h b. h * 257 + ucast b) 1 bs"

definition small_object :: object where
  "small_object = \<lparr>obj_meta = stored_meta \<lparr>stored_body = [1], stored_version = 1, stored_time_ns = 2\<rparr>, obj_body = [1]\<rparr>"

definition small_store :: "memory_store injector" where
  "small_store = one_fault OpPutIfAbsent 0 FaultPostTransmitAfter
     \<lparr>mem_objects = [(absolute small_queue KeyFormat, \<lparr>stored_body = [1], stored_version = 1, stored_time_ns = 2\<rparr>)],
      mem_version_counter = 2, mem_clock = 2, mem_tick_step_ns = 1\<rparr>"

text \<open>The witnesses: an empty store, a job for it, a claimant, and the store with that job settled.\<close>

definition small_memory :: "(string \<times> bytes) list \<Rightarrow> memory_store" where
  "small_memory objs = \<lparr>mem_objects = map (\<lambda>(k, b). (k, \<lparr>stored_body = b, stored_version = 1, stored_time_ns = 2\<rparr>)) objs,
     mem_version_counter = 2, mem_clock = 2, mem_tick_step_ns = 1\<rparr>"

definition small_input :: enqueue_input where
  "small_input = \<lparr>in_job_id = Some 3, in_payload = [1, 2], in_content_type = ''t'', in_maximum_attempts = 3,
     in_not_before_ns = Some 5\<rparr>"

definition small_claimant :: claim_options where
  "small_claimant = \<lparr>co_shard = 0, co_floor_ns = 100, co_lease_duration_ns = 50\<rparr>"

definition small_settled :: memory_store where
  "small_settled = small_memory
     [(absolute small_queue (KeyJob 0 3), record_bytes small_hash small_queue (KeyJob 0 3)
         (RecordJob (enqueue_record small_hash small_queue small_input 3))),
      (absolute small_queue (KeyReceipt 0 3), [])]"

definition small_oracle :: queue_oracle where
  "small_oracle = \<lparr>or_jobs = [3 \<mapsto> \<lparr>js_maximum_attempts = 3, js_phase = Claimed 1 1 52, js_output = None\<rparr>], or_clock = 100\<rparr>"

lemma small_history:
  "history H small_queue small_store
     (snd (snd (run (faulty_memory H) (perform H small_queue (CallEnqueue small_input) (small_handle 6)) [] 0 small_store)))"
proof -
  obtain x ts s' where run: "run (faulty_memory H) (perform H small_queue (CallEnqueue small_input) (small_handle 6)) [] 0 small_store
      = (x, ts, s')"
    by (rule prod_cases3)
  show ?thesis
    unfolding run snd_conv
    by (rule history_call [OF history_start _ run_exec [OF run]]) (simp add: same_queue_def)
qed

section \<open>Custody\<close>

text \<open>C1. A claim that \<open>claim_many\<close> returns is custody proved by the store: whatever the other clients do
  and whatever the store answers, the claim object of its generation holds exactly this worker's
  record and token, the previous generation had expired by the claimant's floor and the skew guard
  according to the stored record and the store time in the listing of the claim directory, the attempt
  is the next one and within the limit of the job record, and the job's delay has passed. (The queue
  reads a generation off the last segment of a listed key, so the store time is that of the predecessor
  where the directory holds keys of the grammar only.)\<close>

theorem claims_are_custody:
  "triple (protected q) (\<lambda>c. True) (claim_many H q opts limit) (claims_post H q opts)"
  unfolding claims_post_def [abs_def] by (rule triple_claim_many)

text \<open>C2. Fencing: once a worker holds claims, no other worker of the queue, running at any time under any
  interference, is given the same generation of the same job with a different token.\<close>

theorem custody_is_fenced:
  "triple (protected q)
     (\<lambda>c. all_taken H q opts cs c \<and> same_queue q q' \<and> valid_text (oo_worker_id (q_opts q))
       \<and> valid_text (oo_worker_id (q_opts q')))
     (claim_many H q' opts' limit) (fenced cs)"
  by (rule triple_fenced)

text \<open>C3. Acknowledgement: \<open>Acked\<close> means that the receipt key holds this claim's receipt, that the payload
  was verified against the claim and that every recorded output exists with its digest;
  \<open>AlreadyAcked\<close> that a receipt with the same evidence is there; \<open>SupersededByDead\<close> that a dead
  record is.\<close>

theorem ack_outcomes:
  "triple (protected q) (\<lambda>c. True) (ack_with_outputs H q cl outs) (ack_post H q cl outs)"
  unfolding ack_with_outputs_def by (rule triple_ack)

text \<open>C4. Enqueue: \<open>Enqueued\<close> means that the job record of exactly this input is stored under the job's
  shard, and that a payload too long for the record has an object under its own key; \<open>IdTaken\<close> that a
  different record holds the key. Among clients that write under a payload key only bytes with the digest
  in the key, enqueue does so too, and the object has the digest of the payload.\<close>

theorem enqueue_outcomes:
  "triple (protected q) (\<lambda>c. True) (enqueue H q input) (enqueue_post H q input)
   \<and> achieves_on (faulty_memory H) faulty_contents faulty_inv (protected q) (content_addressed H q)
      (enqueue H q input) (intact_post H q input)"
  by (rule conjI [OF triple_enqueue inj.triple_achieves_on [OF triple_enqueue addressed_enqueue]]) (rule intact_postI)

text \<open>C5. Records, once written, never change: along every history of calls by any number of workers, with
  faults injected anywhere, each protected key keeps its object and the store stays well formed.\<close>

theorem records_are_immutable:
  assumes "history H q s s'" "faulty_inv s" "protected q k" "faulty_contents s k = Some obj"
  shows "faulty_inv s' \<and> faulty_contents s' k = Some obj"
  using history_grows [OF assms(1,2)] assms(3,4) by (auto dest: growsD)

theorem records_are_immutable_witness:
  "faulty_contents (snd (snd (run (faulty_memory small_hash)
       (perform small_hash small_queue (CallEnqueue small_input) (small_handle 6)) [] 0 small_store)))
     (absolute small_queue KeyFormat) = Some small_object"
  using records_are_immutable [OF small_history [of small_hash], of "absolute small_queue KeyFormat" small_object]
  by (simp add: small_store_def one_fault_def new_injector_def mem_inv_def mem_contents_def small_object_def)

section \<open>The worker\<close>

text \<open>C6. What a delivery report rests on: a report that a job was delivered or failed implies a claim that the
  store proved and a payload that matches it; delivered, that every output of the executor is stored under
  its name with its digest and that the receipt shows the digests of this payload and of these outputs;
  failed, that the fail record, the dead record or a foreign receipt is there. The same for each report of
  a batch.\<close>

theorem delivery_reports:
  "triple (protected q) (\<lambda>c. True) (run_delivery_with H q msg exec_fn lease m)
     (reported (worker_post H q exec_fn lease))
   \<and> triple (protected q) (\<lambda>c. True) (run_batch_with H q msg exec_fn lease batch m)
     (reported (batch_post H q exec_fn lease))"
  using triple_run_delivery triple_run_batch by blast

section \<open>Retention\<close>

text \<open>C7. Retention spares live jobs: as long as the other clients keep the job record and leave no terminal
  record older than the cutoff, a run of \<open>gc\<close> deletes nothing of the job's graph.\<close>

theorem gc_spares_live_jobs:
  "keeps_on (faulty_memory H) faulty_contents faulty_inv (live_graph H q s j)
     (live_job H q s j (saturating_sub now retention)) (gc H q now retention horizon)"
proof (rule inj.prunes_keeps_on [OF live_gc.emits_gc [OF refl]])
qed (blast intro: live_job_prune live_answer_head)+

text \<open>C8. Retention never touches outputs, quarantine records, the format or the watermark.\<close>

theorem gc_keeps_outputs:
  "keeps_on (faulty_memory H) faulty_contents faulty_inv (kept q) (\<lambda>c. True)
     (gc H q now retention horizon)"
  by (rule inj.prunes_keeps_on [OF kept_gc.emits_gc [OF refl]]) simp_all

text \<open>C9. The terminal record is deleted last: whatever stops the deletion of a graph early, an error or an
  exhausted budget, leaves the terminal record in place, be it a receipt or a dead record.\<close>

theorem tombstone_goes_last:
  "triple (\<lambda>k. k = absolute q (KeyReceipt s j)) (\<lambda>c. c (absolute q (KeyReceipt s j)) = Some obj)
     (delete_terminal_graph q s j (KeyReceipt s j) (absolute q (KeyTermIndex b kind s j)))
     (terminal_kept q (KeyReceipt s j) obj)
   \<and> triple (\<lambda>k. k = absolute q (KeyDead s j)) (\<lambda>c. c (absolute q (KeyDead s j)) = Some obj)
     (delete_terminal_graph q s j (KeyDead s j) (absolute q (KeyTermIndex b kind s j)))
     (terminal_kept q (KeyDead s j) obj)"
  unfolding terminal_kept_def [abs_def] by (intro conjI triple_graph_terminal_last) simp_all

section \<open>Settling\<close>

text \<open>C10. Renewal: a renewed claim is the same custody one generation further, and the claim object of that
  generation holds the continuation record at the reported store time.\<close>

theorem renew_outcomes: "triple (protected q) (\<lambda>c. True) (renew H q cl) (renew_post H q cl)"
  by (rule triple_renew)

text \<open>C11. Outputs: \<open>Committed\<close> means that the output key holds these bytes, \<open>Converged\<close> that it holds bytes
  with the same digest, and in both cases the name stays inside the job's directory.\<close>

theorem commit_outcomes:
  "triple (protected q) (\<lambda>c. True) (commit_output H q cl name body) (commit_post H q cl name body)"
  by (rule triple_commit_output)

text \<open>C12. Burial: \<open>Buried\<close> means that a dead record with this claim's generation and attempt is stored,
  \<open>SupersededByReceipt\<close> that a receipt is.\<close>

theorem bury_outcomes: "triple (protected q) (\<lambda>c. True) (bury H q cl reason) (bury_post H q cl reason)"
  by (rule triple_bury)

text \<open>C13. A negative acknowledgement that succeeds has left an object under the fail key of the generation. As
  long as nobody else writes a different fail record for the generation, this object is the fail record
  with the job, generation and attempt of the claim, the reason given, and a deadline for the retry that
  is the floor plus the delay of the retry policy (from milliseconds by the unchecked multiplication of the
  source).\<close>

theorem nack_outcome:
  "triple (protected q) (\<lambda>c. True) (nack H q cl reason floor_ns) (nack_post q cl)
   \<and> achieves_on (faulty_memory H) faulty_contents faulty_inv (protected q) (fail_unforged H q cl reason floor_ns)
      (nack H q cl reason floor_ns) (nack_exact_post H q cl reason floor_ns)"
proof -
  have nack: "triple (protected q) (\<lambda>c. True) (nack H q cl reason floor_ns) (nack_post q cl)"
    unfolding nack_post_def [abs_def] fail_key_def by (rule triple_nack)
  show ?thesis
    by (rule conjI [OF nack inj.triple_achieves_on [OF nack nack_keeps_unforged]]) (rule nack_exact_postI)
qed

section \<open>All calls\<close>

text \<open>C14. Every call other than retention, the repair scan and the worker leave protected keys alone: they never
  overwrite or delete one, whatever the store answers, as long as a listing returns keys under the prefix
  it was asked for.\<close>

theorem calls_are_harmless:
  "emits_op (harmless (protected q)) (perform H q call)
   \<and> emits_op (harmless (protected q)) (repair_scan H q sh sh' start)
   \<and> emits_op (harmless (protected q)) (run_delivery_with H q msg exec_fn lease m)
   \<and> emits_op (harmless (protected q)) (run_batch_with H q msg exec_fn lease batch m)
   \<and> emits_op (harmless (protected q)) (run_sweeper H q rounds)"
  by (intro conjI emits_perform emits_repair_scan emits_run_delivery emits_run_batch emits_run_sweeper)

text \<open>C15. No call sends more requests than its budget, retention included; a delivery sends at most one request
  more than the constant budget it starts with, the unpaid read of the payload.\<close>

theorem calls_stay_within_budget:
  "within 0 (perform H q call) \<and> within 0 (gc H q now retention horizon)
   \<and> costs (\<lambda>n x. True) (run_delivery_with H q msg exec_fn lease m h) (Suc DELIVERY_BUDGET_OPS)"
  by (intro conjI within_perform within_gc costs_run_delivery)

text \<open>C16. Every call returns: the page loops, retry loops and compare-and-swap loops never run out of the
  fuel the model gives them, whatever the store answers.\<close>

theorem calls_return:
  "ends n (perform H q call) \<and> ends n (gc H q now retention horizon) \<and> ends n (repair_scan H q sh sh' start)
   \<and> ends_with no_fuel_error (run_delivery_with H q msg exec_fn lease m)
   \<and> ends_with no_fuel_error (run_batch_with H q msg exec_fn lease batch m)
   \<and> ends n (run_sweeper H q rounds)"
  by (intro conjI ends_perform ends_gc ends_repair_scan ends_with_run_delivery ends_with_run_batch ends_run_sweeper)

section \<open>Typing and audit\<close>

text \<open>C17. The store stays well typed: among clients that keep it so, every call leaves under each job, claim, fail,
  receipt, dead and watermark key an encoded record of that family, for this queue and key, with the job and
  generation of the key, and under each payload key bytes with the digest of the key. Retention and the
  repair scan do as well.\<close>

theorem store_stays_typed:
  assumes "sendable q call"
  shows "keeps_on (faulty_memory H) faulty_contents faulty_inv (\<lambda>k. False) (well_typed H q) (perform H q call)
    \<and> keeps_on (faulty_memory H) faulty_contents faulty_inv (\<lambda>k. False) (well_typed H q) (gc H q now retention horizon)
    \<and> keeps_on (faulty_memory H) faulty_contents faulty_inv (\<lambda>k. False) (well_typed H q) (repair_scan H q sh sh' start)"
  by (intro conjI typed_keeps typed_perform typed_gc typed_repair_scan assms)

theorem store_stays_typed_witness:
  "keeps_on (faulty_memory small_hash) faulty_contents faulty_inv (\<lambda>k. False) (well_typed small_hash small_queue)
     (perform small_hash small_queue (CallEnqueue small_input))"
  by (rule conjunct1 [OF store_stays_typed])
    (simp add: sendable_def worker_text_def wf_input_def small_queue_def small_input_def valid_text_ascii)

text \<open>C18. Claims pass the audit: a claim that is returned at a later generation than the first stands beside its
  predecessor in the store, and the evidence in its record is what the repair scan requires of that pair, with
  the store time of the predecessor as the listing of the claim directory shows it.\<close>

theorem claims_pass_audit: "triple (protected q) (\<lambda>c. True) (claim_many H q opts limit) (audited H q)"
  by (rule triple_audited)

section \<open>Stores\<close>

text \<open>C19. The in-memory store, and the fault injector around it, meet the contract of the store trait, with the
  verification of digests and the reads of a range.\<close>

theorem stores_meet_contract:
  "store_trait (memory_ops H) mem_contents mem_inv H
   \<and> store_trait (faulty_memory H) faulty_contents faulty_inv H"
  using mem_trait.store_trait_axioms inj_trait.store_trait_axioms by blast

text \<open>C20. On the in-memory store behind the fault injector, every execution of an acknowledgement refines
  the abstract promise, and the store invariant survives.\<close>

theorem ack_refines_on_faulty_store:
  "holds_on (faulty_memory H) faulty_contents faulty_inv (protected q) (\<lambda>c. True)
     (ack_with_outputs H q cl outs) (ack_post H q cl outs)"
  unfolding ack_with_outputs_def by (rule inj.triple_holds_on [OF triple_ack])

text \<open>C21. Every index entry that the queue writes is understood by the sweeps and by retention.\<close>

theorem index_entries_round_trip:
  "index_entry q ''leases/'' (absolute q (KeyLeaseIndex b s j g)) = (Some b, hex s @ ''/'' @ hex j @ ''.'' @ hex g)
   \<and> parse_lease_entry (hex s @ ''/'' @ hex j @ ''.'' @ hex g) = Inr (Some (s, j, g))
   \<and> index_entry q ''delayed/'' (absolute q (KeyDelayIndex b s j)) = (Some b, hex s @ ''/'' @ hex j)
   \<and> parse_delay_entry (hex s @ ''/'' @ hex j) = Inr (Some (s, j))
   \<and> parse_term_entry (show_key (KeyTermIndex b k s j)) = Inr (Some (as_char k, s, j))"
  by (intro conjI sweep_entries_understood)

section \<open>Progress and failures\<close>

lemma one_is_power: "is_power_of_two (1 :: u32)"
  by (simp add: is_power_of_two_def count_ones_def upt_conv_Cons bit_1_iff)

lemma one_shard: "compute_shard H i j 1 = Some 0"
proof -
  have "trailing_zeros (1 :: u32) = 0"
    by (simp add: trailing_zeros_def upt_conv_Cons)
  then show ?thesis
    by (simp add: compute_shard_def one_is_power)
qed

lemma small_enqueueable: "enqueueable small_hash small_queue small_input 0 3 (small_memory [])"
  by (simp add: enqueueable_def small_input_def small_queue_def small_format_def small_memory_def mem_contents_def
    one_shard inline_payload_def valid_text_ascii)

lemma small_clear: "shard_clear small_queue 0 3 (small_memory [])"
  by (simp add: shard_clear_def small_memory_def mem_contents_def mem_inv_def listed_keys_def)

definition small_leased :: memory_store where
  "small_leased = small_memory
     [(absolute small_queue (KeyClaim 0 3 1), record_bytes small_hash small_queue (KeyClaim 0 3 1)
         (RecordClaim (takeover_record small_queue 3 small_claimant no_tail 8))),
      (absolute small_queue (KeyJob 0 3), record_bytes small_hash small_queue (KeyJob 0 3)
         (RecordJob (enqueue_record small_hash small_queue small_input 3)))]"

lemma small_leased_facts:
  "mem_inv small_leased"
  "listed_keys (mem_contents small_leased) (claims_dir small_queue 0 3) None = {absolute small_queue (KeyClaim 0 3 1)}"
  "listed_keys (mem_contents small_leased) (q_root small_queue @ jobs_prefix 0) None = {absolute small_queue (KeyJob 0 3)}"
  by (auto simp: small_leased_def small_memory_def mem_inv_def mem_contents_def listed_keys_def absolute_def
    claims_dir_def claims_prefix_def jobs_prefix_def split: if_splits)

lemma small_leased_jobs:
  obtains page it where "mem_list small_leased (q_root small_queue @ jobs_prefix (co_shard small_claimant)) None 1024
    = (Inr page, small_leased)" "page_items page = [it]" "item_key it = absolute small_queue (KeyJob 0 3)"
  by (rule list_single [OF small_leased_facts(1,3), of 1024]) (simp_all add: small_claimant_def)

lemma small_leased_records:
  "record_at small_hash small_queue (KeyJob 0 3) (RecordJob (enqueue_record small_hash small_queue small_input 3)) (mem_contents small_leased)"
  "claim_seen small_hash small_queue 0 3 1 1 50 (mem_contents small_leased)"
  "rel \<in> {KeyReceipt 0 3, KeyDead 0 3, KeyFail 0 3 1, KeyClaim 0 3 2} \<Longrightarrow> mem_contents small_leased (absolute small_queue rel) = None"
proof -
  let ?r = "takeover_record small_queue 3 small_claimant no_tail 8"
  have "wf_record (RecordClaim ?r)" "claim_attempt ?r = 1" "claim_lease_duration_ns ?r = 50"
    by (simp_all add: takeover_record_def small_queue_def small_claimant_def valid_text_ascii)
  then show "claim_seen small_hash small_queue 0 3 1 1 50 (mem_contents small_leased)"
    by (auto simp: claim_seen_def small_leased_def small_memory_def mem_contents_def decode_at_Inr_iff intro!: exI [of _ ?r])
qed (use wf_enqueue_record [OF small_enqueueable] in
  \<open>auto simp: small_leased_def small_memory_def mem_contents_def record_at_def decode_at_Inr_iff\<close>)

lemma small_leased_claimable:
  obtains t where "claimable small_hash small_queue 0 3 small_claimant t small_leased" "t_gen t = 1" "t_attempt t = 1"
    "t_duration t = 50" "meta_store_time_ns (t_meta t) = 2"
proof -
  obtain page it where claims: "mem_list small_leased (claims_dir small_queue 0 3) None 64 = (Inr page, small_leased)"
      "page_items page = [it]" "page_next_after page = None" "item_key it = absolute small_queue (KeyClaim 0 3 1)"
      "map_option obj_meta (mem_contents small_leased (absolute small_queue (KeyClaim 0 3 1))) = Some (item_meta it)"
    by (rule list_single [OF small_leased_facts(1,2), of 64]) simp
  let ?t = "\<lparr>t_gen = 1, t_meta = item_meta it, t_attempt = 1, t_duration = 50\<rparr>"
  have gen: "parse_generation (absolute small_queue (KeyClaim 0 3 1)) = Some 1"
    using parse_generation_claim [of 1 small_queue 0 3] by (simp add: u32_max_def)
  have time: "meta_store_time_ns (item_meta it) = 2"
    using claims(5) by (auto simp: small_leased_def small_memory_def mem_contents_def stored_meta_def dest: sym)
  then have "lease_expired small_queue (co_floor_ns small_claimant) ?t"
    by (simp add: lease_expired_def small_queue_def small_claimant_def saturating_add_def)
  moreover have "job_admits small_hash small_queue 0 3 2 (co_floor_ns small_claimant) (mem_contents small_leased)"
    using small_leased_records(1)
    by (auto simp: record_at_def job_admits_def enqueue_record_fields small_claimant_def small_input_def)
  ultimately have "claimable small_hash small_queue 0 3 small_claimant ?t small_leased"
    using claims gen small_leased_records by (simp add: claimable_def tail_shown_def tail_of_items_def backoff_over_def
      hints_enabled_def u32_max_def small_queue_def small_format_def)
  then show ?thesis
    by (rule that) (simp_all add: time)
qed

text \<open>C22. One fault does not lose an enqueue: whatever happens to the first conditional write, whether it fails before
  it is sent, is not carried out, or is carried out and the answer is lost, the call answers \<open>Enqueued\<close>.\<close>

theorem enqueue_survives_fault:
  assumes "enqueueable H q input shard j s" "6 \<le> max_ops h"
  shows "fst (fst (run (faulty_memory H) (enqueue H q input h) ts u (one_fault OpPutIfAbsent 0 f s))) = Inr (Enqueued j)"
  by (rule enqueue_one_fault [OF assms])

theorem enqueue_survives_fault_witness:
  "fst (fst (run (faulty_memory small_hash) (enqueue small_hash small_queue small_input (small_handle 6)) [] 0
     (one_fault OpPutIfAbsent 0 FaultPostTransmitAfter (small_memory [])))) = Inr (Enqueued 3)"
  using enqueue_survives_fault [OF small_enqueueable, of "small_handle 6"] by (simp add: small_handle_def)

text \<open>C23. A job that was enqueued is claimed: on the in-memory store, with the shard empty before, tail hints
  off, the delay of the job over and budgets for both calls, the claim that follows an enqueue returns the
  job, at its first generation and attempt and with the fresh token.\<close>

theorem enqueued_job_is_claimed:
  assumes "enqueueable H q input (co_shard opts) j s" "shard_clear q (co_shard opts) j s" "\<not> hints_enabled q"
    and "\<And>nb. in_not_before_ns input = Some nb \<Longrightarrow> nb \<le> co_floor_ns opts"
    and "6 \<le> max_ops h" "h_memo h = []" "13 \<le> b"
  shows "\<exists>h1 s1 cl h2 s2. run (memory_ops H) (enqueue H q input h) (token # ts) u s = ((Inr (Enqueued j), h1), token # ts, s1)
    \<and> run (memory_ops H) (claim_one H q opts (h1\<lparr>max_ops := b\<rparr>)) (token # ts) u s1 = ((Inr (Some cl), h2), ts, s2)
    \<and> cl_job_id cl = j \<and> cl_generation cl = 1 \<and> cl_attempt cl = 1 \<and> cl_worker_token cl = token"
  using run_enqueue_then_claim [OF assms, of token ts u] by (fastforce simp: claims_next_def)

theorem enqueued_job_is_claimed_witness:
  "\<exists>h1 s1 cl h2 s2. run (memory_ops small_hash) (enqueue small_hash small_queue small_input (small_handle 6)) [9] 0
       (small_memory []) = ((Inr (Enqueued 3), h1), [9], s1)
    \<and> run (memory_ops small_hash) (claim_one small_hash small_queue small_claimant (h1\<lparr>max_ops := 13\<rparr>)) [9] 0 s1
      = ((Inr (Some cl), h2), [], s2)
    \<and> cl_job_id cl = 3 \<and> cl_generation cl = 1 \<and> cl_attempt cl = 1 \<and> cl_worker_token cl = 9"
proof -
  have "\<not> hints_enabled small_queue"
    by (simp add: hints_enabled_def small_queue_def small_format_def)
  then show ?thesis
    using enqueued_job_is_claimed [of small_hash small_queue small_input small_claimant 3 "small_memory []" "small_handle 6" 13 9 "[]" 0]
      small_enqueueable small_clear by (simp add: small_claimant_def small_handle_def small_input_def)
qed

text \<open>C24. A lease that ran out is taken over: on the in-memory store with tail hints off and budget for the call,
  a job without a terminal record whose newest generation has expired by the claimant's floor, whose
  backoff and delay are over and whose next attempt is within the limit, is claimed at the next generation
  and attempt when it comes first in the listing of its shard. Within the limit includes the attempt that
  equals \<open>maximum_attempts\<close>: \<open>spec/contract.md\<close> (line 64) lets that many claims be committed, while
  \<open>spec/records.md\<close> (line 240), read literally, has the job buried in place of the last one. The code
  follows the former, and the theorem the code.\<close>

theorem expired_lease_is_taken_over:
  assumes "claimable H q shard j opts t s" "13 \<le> max_ops h" "h_memo h = []"
    and "mem_list s (q_root q @ jobs_prefix (co_shard opts)) None 1024 = (Inr page, s)"
    and "page_items page = it # rest" "job_of_key q (item_key it) = Some (shard, j)"
  shows "\<exists>cl h' s'. run (memory_ops H) (claim_one H q opts h) (token # ts) u s = ((Inr (Some cl), h'), ts, s')
    \<and> claims_next shard j opts t token cl"
  by (rule run_claim_one [OF assms])

theorem expired_lease_is_taken_over_witness:
  "\<exists>cl h' s'. run (memory_ops small_hash) (claim_one small_hash small_queue small_claimant (small_handle 13)) [9] 0 small_leased
      = ((Inr (Some cl), h'), [], s') \<and> cl_generation cl = 2 \<and> cl_attempt cl = 2 \<and> cl_worker_token cl = 9"
proof -
  obtain t where t: "claimable small_hash small_queue 0 3 small_claimant t small_leased" "t_gen t = 1" "t_attempt t = 1"
    by (rule small_leased_claimable)
  obtain page it where jobs: "mem_list small_leased (q_root small_queue @ jobs_prefix (co_shard small_claimant)) None 1024
      = (Inr page, small_leased)" "page_items page = [it]" "item_key it = absolute small_queue (KeyJob 0 3)"
    by (rule small_leased_jobs)
  show ?thesis
    using expired_lease_is_taken_over [of small_hash small_queue 0 3 small_claimant t small_leased "small_handle 13" page it "[]" 9 "[]" 0]
      t jobs by (auto simp: small_handle_def job_of_key_absolute claims_next_def)
qed

text \<open>C25. The oracle of the test kit predicts the queue: where the store shows a job as the oracle has it and the
  oracle's clock is the floor, the claim that the queue takes has the generation and attempt of the oracle's.\<close>

theorem oracle_predicts_claims:
  assumes "claimable H q shard j opts t s" "mirrors H q shard j t s orc" "or_clock orc = co_floor_ns opts"
    and "t_attempt t \<noteq> - 1" "13 \<le> max_ops h" "h_memo h = []"
    and "mem_list s (q_root q @ jobs_prefix (co_shard opts)) None 1024 = (Inr page, s)"
    and "page_items page = it # rest" "job_of_key q (item_key it) = Some (shard, j)"
  shows "\<exists>cl h' s'. run (memory_ops H) (claim_one H q opts h) (token # ts) u s = ((Inr (Some cl), h'), ts, s')
    \<and> fst (oracle_claim j lease base orc) = Some (cl_generation cl, cl_attempt cl)"
  using run_claim_one [OF assms(1,5-9), of token ts u] claimable_predicted [OF assms(1-4), of lease base]
  by (fastforce simp: claims_next_def)

theorem oracle_predicts_claims_witness:
  "\<exists>cl h' s'. run (memory_ops small_hash) (claim_one small_hash small_queue small_claimant (small_handle 13)) [9] 0 small_leased
      = ((Inr (Some cl), h'), [], s')
    \<and> fst (oracle_claim 3 50 7 small_oracle) = Some (cl_generation cl, cl_attempt cl)"
proof -
  obtain t where t: "claimable small_hash small_queue 0 3 small_claimant t small_leased" "t_gen t = 1" "t_attempt t = 1"
      "t_duration t = 50" "meta_store_time_ns (t_meta t) = 2"
    by (rule small_leased_claimable)
  obtain page it where jobs: "mem_list small_leased (q_root small_queue @ jobs_prefix (co_shard small_claimant)) None 1024
      = (Inr page, small_leased)" "page_items page = [it]" "item_key it = absolute small_queue (KeyJob 0 3)"
    by (rule small_leased_jobs)
  have "mirrors small_hash small_queue 0 3 t small_leased small_oracle"
    unfolding mirrors_def
    by (rule exI [of _ "enqueue_record small_hash small_queue small_input 3"], rule exI [of _ None])
      (simp add: small_leased_records(3) small_leased_records(1) [unfolded small_input_def] t phase_shown_def small_oracle_def enqueue_record_fields small_input_def saturating_add_def)
  then show ?thesis
    using oracle_predicts_claims [of small_hash small_queue 0 3 small_claimant t small_leased small_oracle "small_handle 13" page it "[]" 9 "[]" 0 50 7]
      t jobs by (auto simp: small_handle_def job_of_key_absolute small_oracle_def small_claimant_def)
qed

text \<open>C26. The oracle's own invariant: after fewer than \<open>2 ^ 64 - 1\<close> operations attempts are positive, not above the
  generations and within the limit of the job (within 1 for a job with limit 0, which the first claim does
  not look at and which the queue refuses to enqueue), \<open>can_claim\<close> says whether \<open>claim\<close> succeeds, and from then on the limit of a job, a committed
  output and a terminal phase never change.\<close>

theorem oracle_invariant:
  assumes "(oracle_step ^^ n) new_oracle orc" "n < 2 ^ 64 - 1"
  shows "oracle_ok n orc \<and> (oracle_can_claim j orc \<longleftrightarrow> fst (oracle_claim j lease base orc) \<noteq> None)
    \<and> (\<forall>orc' st. oracle_step\<^sup>*\<^sup>* orc orc' \<longrightarrow> or_jobs orc j = Some st \<longrightarrow> settled_in st orc' j)"
proof -
  have ok: "oracle_ok n orc"
    using oracle_steps_ok [OF assms(1)] assms(2) by simp
  have "settled_in st orc' j" if "oracle_step\<^sup>*\<^sup>* orc orc'" "or_jobs orc j = Some st" for orc' st
    using settled_in_steps [OF that(1), of st j] that(2) by (simp add: settled_in_def)
  then show ?thesis
    using ok oracle_can_claim_iff [OF ok assms(2)] by blast
qed

theorem oracle_invariant_witness:
  "oracle_ok 2 (snd (oracle_claim 3 50 0 (snd (oracle_enqueue 3 2 0 new_oracle))))
   \<and> \<not> oracle_can_claim 3 (snd (oracle_claim 3 50 0 (snd (oracle_enqueue 3 2 0 new_oracle))))"
proof -
  have "(oracle_step ^^ 2) new_oracle (snd (oracle_claim 3 50 0 (snd (oracle_enqueue 3 2 0 new_oracle))))"
    using oracle_step.intros(2) [of new_oracle 3 2 0] oracle_step.intros(4) [of "snd (oracle_enqueue 3 2 0 new_oracle)" 3 50 0]
    by (auto simp: numeral_2_eq_2)
  then show ?thesis
    using oracle_invariant [of 2 _ 3 50 0]
    by (fastforce simp: oracle_claim_def oracle_enqueue_def new_oracle_def set_phase_def saturating_add_def)
qed

text \<open>C27. The creation of a queue does not resolve a lost answer: when the write of the format object is carried out
  and its answer is lost, \<open>init\<close> returns the unknown outcome to its caller.\<close>

theorem init_leaks_unknown_outcome:
  assumes "format_validate fmt = Inr ()" "mem_contents s (queue_root root @ show_key KeyFormat) = None"
  shows "fst (fst (run (faulty_memory H) (init_queue H root opts fmt h) ts u
      (one_fault OpPutIfAbsent 0 FaultPostTransmitAfter s))) = Inl (EStore (OutcomeUnknown ConnectionLost))"
  by (rule init_lost_answer [OF assms])

theorem init_leaks_unknown_outcome_witness:
  "fst (fst (run (faulty_memory small_hash) (init_queue small_hash ''q'' (q_opts small_queue) small_format (small_handle 4)) [] 0
      (one_fault OpPutIfAbsent 0 FaultPostTransmitAfter (small_memory [])))) = Inl (EStore (OutcomeUnknown ConnectionLost))"
  by (rule init_leaks_unknown_outcome) (simp_all add: format_validate_def small_format_def one_is_power small_memory_def mem_contents_def)

text \<open>C28. A lost delete revives a settled job: retention ignores the answers to its deletes, so when the delete of the
  job record fails, the deletion of the graph still reports success and takes the receipt away, and the job
  can be claimed again from its first generation.\<close>

theorem lost_delete_revives_job:
  assumes "settled_alone H q shard j (co_floor_ns opts) s" "\<not> hints_enabled q" "9 \<le> max_ops h"
  shows "\<exists>h' i'. run (faulty_memory H)
      (delete_terminal_graph q shard j (KeyReceipt shard j) (absolute q (KeyTermIndex b kind shard j)) h) ts u
      (one_fault OpDelete 2 FaultPreTransmit s) = ((Inr True, h'), ts, i')
    \<and> claimable H q shard j opts no_tail (inj_store i')"
  using graph_lost_delete_claimable [OF assms] by (simp add: succeeds_def)

theorem lost_delete_revives_job_witness:
  "\<exists>h' i'. run (faulty_memory small_hash)
      (delete_terminal_graph small_queue 0 3 (KeyReceipt 0 3) (absolute small_queue (KeyTermIndex 0 Receipt 0 3)) (small_handle 9)) [] 0
      (one_fault OpDelete 2 FaultPreTransmit small_settled) = ((Inr True, h'), [], i')
    \<and> claimable small_hash small_queue 0 3 small_claimant no_tail (inj_store i')"
proof (rule lost_delete_revives_job)
  have wf: "wf_record (RecordJob (enqueue_record small_hash small_queue small_input 3))"
    by (rule wf_enqueue_record [OF small_enqueueable])
  show "settled_alone small_hash small_queue 0 3 (co_floor_ns small_claimant) small_settled"
    using wf
    by (auto simp: settled_alone_def small_settled_def small_memory_def mem_contents_def mem_inv_def listed_keys_def
      job_admits_def decode_at_Inr_iff enqueue_record_fields small_claimant_def small_input_def absolute_def
      intro!: exI [of _ "enqueue_record small_hash small_queue small_input 3"] split: if_splits)
qed (simp_all add: hints_enabled_def small_queue_def small_format_def small_handle_def)

end
